(* ===== verification/Prelude.thy ===== *)
theory Prelude
  imports Main "HOL-Library.Sublist"
begin

text \<open>
  Shared vocabulary of the development: the fact collections the component theories extend, the
  64-bit integers of Go with their wrap-around, results with an error value (\<open>Inl\<close> the error),
  sequencing of fallible state-passing operations, and list lemmas used by more than one component.
\<close>

named_theorems go_simps \<open>evaluation rules for modelled Go library functions\<close>
named_theorems inv_intros \<open>an operation keeps the invariant of its component\<close>

section \<open>Go integers\<close>

text \<open>
  \<open>int\<close> and \<open>int64\<close> are both 64 bits wide on the platforms the server runs on; arithmetic wraps.
  A value is kept as an \<^typ>\<open>int\<close> and every operation of the source that can leave the range is
  followed by \<open>wrap64\<close>.
\<close>

definition int64_min :: int where
  "int64_min = - (2 ^ 63)"

definition int64_max :: int where
  "int64_max = 2 ^ 63 - 1"

definition in_int64 :: "int \<Rightarrow> bool" where
  "in_int64 i \<longleftrightarrow> int64_min \<le> i \<and> i \<le> int64_max"

definition wrap64 :: "int \<Rightarrow> int" where
  "wrap64 i = (i + 2 ^ 63) mod 2 ^ 64 - 2 ^ 63"

lemma wrap64_id [simp]: "in_int64 i \<Longrightarrow> wrap64 i = i"
  by (simp add: wrap64_def in_int64_def int64_min_def int64_max_def)

lemma wrap64_in_int64 [simp]: "in_int64 (wrap64 i)"
proof -
  have "0 \<le> (i + 2 ^ 63) mod 2 ^ 64" and "(i + 2 ^ 63) mod 2 ^ 64 < (2 ^ 64 :: int)"
    by simp_all
  then show ?thesis
    by (simp add: wrap64_def in_int64_def int64_min_def int64_max_def)
qed

lemma wrap64_upper: "2 ^ 63 \<le> x \<Longrightarrow> x < 2 ^ 64 \<Longrightarrow> wrap64 x < 0"
proof -
  assume b: "2 ^ 63 \<le> x" "x < 2 ^ 64"
  have "(x + 2 ^ 63) mod 2 ^ 64 = ((x - 2 ^ 63) + 2 ^ 64) mod 2 ^ 64" by (simp add: add.commute)
  also have "\<dots> = (x - 2 ^ 63) mod 2 ^ 64" by (simp only: mod_add_self2)
  also have "\<dots> = x - 2 ^ 63" using b by (intro mod_pos_pos_trivial) simp_all
  finally show "wrap64 x < 0" using b by (simp add: wrap64_def)
qed

lemma wrap64_wrap64 [simp]: "wrap64 (wrap64 i) = wrap64 i"
  by simp

lemma in_int64_iff: "in_int64 i \<longleftrightarrow> - 9223372036854775808 \<le> i \<and> i \<le> 9223372036854775807"
  by (simp add: in_int64_def int64_min_def int64_max_def)

section \<open>Fallible operations on a state\<close>

text \<open>
  A Go function \<open>func (...) (a T, err error)\<close> on a mutable state \<open>s\<close> becomes a function that returns
  \<open>('e + 'a) \<times> 's\<close>. \<open>andthen\<close> is the code shape \<open>x, err := f(); if err != nil { return err }; ...\<close>:
  the state changes made before the error stay.
\<close>

type_synonym ('e, 'a, 's) outcome = "('e + 'a) \<times> 's"

definition andthen :: "('e, 'a, 's) outcome \<Rightarrow> ('a \<Rightarrow> 's \<Rightarrow> ('e, 'b, 's) outcome) \<Rightarrow> ('e, 'b, 's) outcome" where
  "andthen r k = (case r of (Inl e, s) \<Rightarrow> (Inl e, s) | (Inr a, s) \<Rightarrow> k a s)"

lemma andthen_simps [simp]:
  "andthen (Inl e, s) k = (Inl e, s)"
  "andthen (Inr a, s) k = k a s"
  by (simp_all add: andthen_def)

lemma andthen_Inr_iff:
  "andthen r k = (Inr b, t) \<longleftrightarrow> (\<exists>a s. r = (Inr a, s) \<and> k a s = (Inr b, t))"
  by (cases r; cases "fst r") (auto simp: andthen_def)

lemma andthen_Inl_iff:
  "andthen r k = (Inl e, t) \<longleftrightarrow>
     r = (Inl e, t) \<or> (\<exists>a s. r = (Inr a, s) \<and> k a s = (Inl e, t))"
  by (cases r; cases "fst r") (auto simp: andthen_def)

text \<open>A property of states that both halves keep is kept by the whole.\<close>

lemma andthen_keeps:
  assumes "P (snd r)" and "\<And>a s. r = (Inr a, s) \<Longrightarrow> P s \<Longrightarrow> P (snd (k a s))"
  shows "P (snd (andthen r k))"
  using assms by (cases r; cases "fst r") auto

lemma andthen_no_error:
  assumes "fst r \<noteq> Inl e" and "\<And>a s. fst (k a s) \<noteq> Inl e"
  shows "fst (andthen r k) \<noteq> Inl e"
  using assms by (cases r; cases "fst r") auto

text \<open>\<open>for _, x := range xs { if err := f(x); err != nil { return err } }\<close>.\<close>

fun foreach :: "('x \<Rightarrow> 's \<Rightarrow> ('e, unit, 's) outcome) \<Rightarrow> 'x list \<Rightarrow> 's \<Rightarrow> ('e, unit, 's) outcome" where
  "foreach f [] s = (Inr (), s)"
| "foreach f (x # xs) s = andthen (f x s) (\<lambda>_ s'. foreach f xs s')"

lemma foreach_keeps:
  assumes "P s" and "\<And>x t. x \<in> set xs \<Longrightarrow> P t \<Longrightarrow> P (snd (f x t))"
  shows "P (snd (foreach f xs s))"
  using assms
proof (induction xs arbitrary: s)
  case Nil
  then show ?case by simp
next
  case (Cons x xs)
  have fx: "P (snd (f x s))" using Cons.prems by simp
  show ?case
  proof (cases "f x s")
    case (Pair r t)
    with fx Cons.IH [of t] Cons.prems(2) show ?thesis
      by (cases r) simp_all
  qed
qed

lemma foreach_cong:
  assumes "\<And>x s. x \<in> set xs \<Longrightarrow> f x s = g x s"
  shows "foreach f xs s = foreach g xs s"
  using assms
proof (induction xs arbitrary: s)
  case Nil
  then show ?case by simp
next
  case (Cons x xs)
  then have "foreach f xs = foreach g xs" by fastforce
  with Cons.prems [of x s] show ?case by simp
qed

section \<open>Lists\<close>

lemma find_None_all: "find P xs = None \<longleftrightarrow> (\<forall>x \<in> set xs. \<not> P x)"
  by (induction xs) auto

lemma find_SomeD: "find P xs = Some x \<Longrightarrow> x \<in> set xs \<and> P x"
  by (induction xs) (auto split: if_splits)

lemma find_Some_if_unique:
  assumes "distinct (map f xs)" and "x \<in> set xs"
  shows "find (\<lambda>y. f y = f x) xs = Some x"
  using assms
proof (induction xs)
  case Nil
  then show ?case by simp
next
  case (Cons y ys)
  then show ?case by (cases "f y = f x") (auto simp: rev_image_eqI dest: inj_on_eq_iff)
qed

lemma filter_unique:
  assumes "distinct (map f xs)" and "x \<in> set xs"
  shows "filter (\<lambda>y. f y = f x) xs = [x]"
  using assms
proof (induction xs)
  case Nil
  then show ?case by simp
next
  case (Cons y ys)
  show ?case
  proof (cases "y = x")
    case True
    with Cons.prems have "f x \<notin> f ` set ys" by auto
    then have "filter (\<lambda>z. f z = f x) ys = []"
      unfolding filter_empty_conv by (metis imageI)
    with True show ?thesis by simp
  next
    case False
    with Cons.prems have "x \<in> set ys" and "f y \<noteq> f x" by (auto intro: rev_image_eqI)
    with Cons show ?thesis by simp
  qed
qed

lemma dropWhile_ident: "xs = [] \<or> \<not> P (hd xs) \<Longrightarrow> dropWhile P xs = xs"
  by (cases xs) auto

lemma dropWhile_hd: "dropWhile P xs \<noteq> [] \<Longrightarrow> \<not> P (hd (dropWhile P xs))"
  by (induction xs) auto

end
