(* ===== verification/Go_Strings.thy ===== *)
theory Go_Strings
  imports Prelude
begin

text \<open>
  The part of Go's \<open>strings\<close>, \<open>unicode\<close> and \<open>unicode/utf8\<close> packages the server calls. A Go string
  is a sequence of bytes, so it is a \<^typ>\<open>string\<close> here (Isabelle's \<^typ>\<open>char\<close> is a byte), and the
  functions that look at code points decode UTF-8 the way \<open>utf8.DecodeRuneInString\<close> does, with
  \<open>RuneError\<close> of width 1 for an invalid byte. The only table of the \<open>unicode\<close> package that is not
  written out is the lower-case mapping of code points beyond ASCII: it is a parameter \<open>ul\<close>.
\<close>

section \<open>UTF-8\<close>

type_synonym rune = nat

definition byte :: "char \<Rightarrow> nat" where
  "byte c = of_char c"

definition mk :: "nat \<Rightarrow> char" where
  "mk n = char_of n"

definition RuneError :: rune where
  "RuneError = 65533"

definition in_range :: "nat \<Rightarrow> nat \<Rightarrow> char \<Rightarrow> bool" where
  "in_range lo hi c \<longleftrightarrow> lo \<le> byte c \<and> byte c \<le> hi"

lemma byte_less [simp]: "byte c < 256"
  by (simp add: byte_def)

lemma byte_mk [simp]: "n < 256 \<Longrightarrow> byte (mk n) = n"
  by (simp add: byte_def mk_def)

lemma mk_byte [simp]: "mk (byte c) = c"
  by (simp add: byte_def mk_def)

lemma byte_inj: "byte c = byte d \<Longrightarrow> c = d"
  by (metis mk_byte)

text \<open>\<open>utf8.DecodeRuneInString\<close>: the first code point and its width in bytes.\<close>

fun decode2 :: "nat \<Rightarrow> string \<Rightarrow> rune \<times> nat" where
  "decode2 b0 (c1 # _) =
     (if in_range 128 191 c1 then ((b0 - 192) * 64 + (byte c1 - 128), 2) else (RuneError, 1))"
| "decode2 b0 _ = (RuneError, 1)"

fun decode3 :: "nat \<Rightarrow> string \<Rightarrow> rune \<times> nat" where
  "decode3 b0 (c1 # c2 # _) =
     (if in_range (if b0 = 224 then 160 else 128) (if b0 = 237 then 159 else 191) c1
         \<and> in_range 128 191 c2
      then ((b0 - 224) * 4096 + (byte c1 - 128) * 64 + (byte c2 - 128), 3) else (RuneError, 1))"
| "decode3 b0 _ = (RuneError, 1)"

fun decode4 :: "nat \<Rightarrow> string \<Rightarrow> rune \<times> nat" where
  "decode4 b0 (c1 # c2 # c3 # _) =
     (if in_range (if b0 = 240 then 144 else 128) (if b0 = 244 then 143 else 191) c1
         \<and> in_range 128 191 c2 \<and> in_range 128 191 c3
      then ((b0 - 240) * 262144 + (byte c1 - 128) * 4096 + (byte c2 - 128) * 64
              + (byte c3 - 128), 4) else (RuneError, 1))"
| "decode4 b0 _ = (RuneError, 1)"

fun decode_rune :: "string \<Rightarrow> rune \<times> nat" where
  "decode_rune [] = (RuneError, 0)"
| "decode_rune (c # cs) =
     (if byte c < 128 then (byte c, 1)
      else if byte c < 194 then (RuneError, 1)
      else if byte c < 224 then decode2 (byte c) cs
      else if byte c < 240 then decode3 (byte c) cs
      else if byte c < 245 then decode4 (byte c) cs
      else (RuneError, 1))"

text \<open>\<open>for _, r := range s\<close>: the code points of a string.\<close>

fun decode_runes :: "string \<Rightarrow> rune list" where
  "decode_runes [] = []"
| "decode_runes (c # cs) =
     (case decode_rune (c # cs) of (r, n) \<Rightarrow> r # decode_runes (drop (n - 1) cs))"

text \<open>\<open>utf8.Valid\<close>.\<close>

fun valid_utf8 :: "string \<Rightarrow> bool" where
  "valid_utf8 [] = True"
| "valid_utf8 (c # cs) =
     (case decode_rune (c # cs) of (r, n) \<Rightarrow>
        \<not> (r = RuneError \<and> n = 1) \<and> valid_utf8 (drop (n - 1) cs))"

text \<open>\<open>utf8.ValidRune\<close> and \<open>utf8.AppendRune\<close>.\<close>

definition valid_rune :: "rune \<Rightarrow> bool" where
  "valid_rune r \<longleftrightarrow> r < 55296 \<or> (57343 < r \<and> r \<le> 1114111)"

definition encode_rune :: "rune \<Rightarrow> string" where
  "encode_rune r =
     (if r < 128 then [mk r]
      else if r < 2048 then [mk (192 + r div 64), mk (128 + r mod 64)]
      else if \<not> valid_rune r then [mk 239, mk 191, mk 189]
      else if r < 65536 then
        [mk (224 + r div 4096), mk (128 + r div 64 mod 64), mk (128 + r mod 64)]
      else [mk (240 + r div 262144), mk (128 + r div 4096 mod 64),
            mk (128 + r div 64 mod 64), mk (128 + r mod 64)])"

definition encode_runes :: "rune list \<Rightarrow> string" where
  "encode_runes rs = concat (map encode_rune rs)"

lemma encode_runes_simps [simp]:
  "encode_runes [] = []"
  "encode_runes (r # rs) = encode_rune r @ encode_runes rs"
  "encode_runes (rs @ qs) = encode_runes rs @ encode_runes qs"
  by (simp_all add: encode_runes_def)

lemma decode_runes_ne [simp]: "decode_runes s = [] \<longleftrightarrow> s = []"
  by (cases s) (auto split: prod.splits)

subsection \<open>Decoding inverts encoding\<close>

text \<open>The digits of a code point in base 64, and that they are all there is to it.\<close>

lemma base64_split2: "r = r div 64 * 64 + r mod (64::nat)"
  by simp

lemma base64_split3: "r = r div 4096 * 4096 + r div 64 mod 64 * 64 + r mod (64::nat)"
proof -
  have "r div 64 = r div 4096 * 64 + r div 64 mod 64"
    using div_mult2_eq [of r 64 64] by simp
  then show ?thesis using base64_split2 [of r] by linarith
qed

lemma base64_split4:
  "r = r div 262144 * 262144 + r div 4096 mod 64 * 4096 + r div 64 mod 64 * 64 + r mod (64::nat)"
proof -
  have "r div 4096 = r div 262144 * 64 + r div 4096 mod 64"
    using div_mult2_eq [of r 4096 64] by simp
  then show ?thesis using base64_split3 [of r] by linarith
qed

lemma decode_encode_rune2:
  assumes "128 \<le> r" and "r < 2048"
  shows "decode_rune (encode_rune r @ s) = (r, 2)"
proof -
  have "2 \<le> r div 64" and "r div 64 < 32" using assms by linarith+
  then show ?thesis
    using assms by (simp add: encode_rune_def in_range_def)
qed

lemma decode_encode_rune3:
  assumes "2048 \<le> r" and "r < 65536" and "valid_rune r"
  shows "decode_rune (encode_rune r @ s) = (r, 3)"
proof -
  let ?a = "r div 4096" and ?b = "r div 64 mod 64" and ?c = "r mod 64"
  have a: "?a < 16" and b: "?b < 64" and c: "?c < 64" using assms by linarith+
  have lo: "?a = 0 \<Longrightarrow> 32 \<le> ?b" using assms(1) base64_split3 [of r] c by linarith
  have hi: "?b < 32" if a13: "?a = 13"
  proof -
    have "r < 57344" using a13 by linarith
    with assms(3) have "r < 55296" by (auto simp: valid_rune_def)
    then show ?thesis using a13 base64_split3 [of r] c by linarith
  qed
  have "decode_rune (encode_rune r @ s) = (?a * 4096 + ?b * 64 + ?c, 3)"
    using assms a b c lo hi by (auto simp: encode_rune_def in_range_def)
  then show ?thesis by (simp only: base64_split3 [symmetric])
qed

lemma decode_encode_rune4:
  assumes "65536 \<le> r" and "valid_rune r"
  shows "decode_rune (encode_rune r @ s) = (r, 4)"
proof -
  let ?a = "r div 262144" and ?b = "r div 4096 mod 64" and ?c = "r div 64 mod 64" and ?d = "r mod 64"
  have le: "r \<le> 1114111" using assms by (auto simp: valid_rune_def)
  have a: "?a < 5" and b: "?b < 64" and c: "?c < 64" and d: "?d < 64" using le by linarith+
  have lo: "?a = 0 \<Longrightarrow> 16 \<le> ?b" using assms(1) base64_split4 [of r] c d by linarith
  have hi: "?a = 4 \<Longrightarrow> ?b < 16" using le base64_split4 [of r] by linarith
  have "decode_rune (encode_rune r @ s) = (?a * 262144 + ?b * 4096 + ?c * 64 + ?d, 4)"
    using assms a b c d lo hi by (auto simp: encode_rune_def in_range_def)
  then show ?thesis by (simp only: base64_split4 [symmetric])
qed

lemma decode_encode_rune:
  assumes "valid_rune r"
  shows "decode_rune (encode_rune r @ s) = (r, length (encode_rune r))"
proof -
  consider "r < 128" | "128 \<le> r" "r < 2048" | "2048 \<le> r" "r < 65536" | "65536 \<le> r" by linarith
  then show ?thesis
  proof cases
    case 1
    then show ?thesis by (simp add: encode_rune_def)
  next
    case 2
    then show ?thesis by (simp add: decode_encode_rune2) (simp add: encode_rune_def)
  next
    case 3
    then show ?thesis using assms by (simp add: decode_encode_rune3) (simp add: encode_rune_def)
  next
    case 4
    then show ?thesis using assms by (simp add: decode_encode_rune4) (simp add: encode_rune_def)
  qed
qed

lemma encode_rune_nonempty [simp]: "encode_rune r \<noteq> []" "[] \<noteq> encode_rune r"
  by (auto simp: encode_rune_def)

lemma RuneError_valid [simp]: "valid_rune RuneError"
  by (simp add: valid_rune_def RuneError_def)

text \<open>A code point that decoding found is valid and its encoding is the bytes it was read from.\<close>

lemma decode2_encode:
  assumes "decode2 (byte c) cs = (r, n)" and "194 \<le> byte c" and "byte c < 224" and "n \<noteq> 1"
  shows "valid_rune r \<and> c # cs = encode_rune r @ drop (n - 1) cs \<and> n = length (encode_rune r)"
proof (cases cs)
  case (Cons c1 t)
  with assms have v: "128 \<le> byte c1" "byte c1 \<le> 191" and n: "n = 2"
    and r: "r = (byte c - 192) * 64 + (byte c1 - 128)"
    by (auto simp: in_range_def split: if_splits)
  define x y where "x = byte c - 192" and "y = byte c1 - 128"
  have xy: "2 \<le> x" "x < 32" "y < 64" using v assms by (auto simp: x_def y_def)
  have "r div 64 = x" "r mod 64 = y" using r xy by (simp_all add: x_def [symmetric] y_def [symmetric])
  moreover have "byte c = 192 + x" "byte c1 = 128 + y" using v assms by (auto simp: x_def y_def)
  then have "c = mk (192 + x)" "c1 = mk (128 + y)" by (metis mk_byte)+
  moreover have "128 \<le> r" "r < 2048" using r xy by (simp_all add: x_def [symmetric] y_def [symmetric])
  ultimately show ?thesis using Cons n by (simp add: encode_rune_def valid_rune_def)
qed (use assms in simp)

lemma digits3:
  assumes "r = x * 4096 + y * 64 + z" and "y < 64" and "z < (64::nat)"
  shows "r div 4096 = x" "r div 64 mod 64 = y" "r mod 64 = z"
proof -
  have "r = (x * 64 + y) * 64 + z" using assms(1) by simp
  then have d: "r div 64 = x * 64 + y" and m: "r mod 64 = z"
    using assms(3) by (simp_all only: div_mult_self3 mod_mult_self3 div_less mod_less)
  then show "r div 64 mod 64 = y" "r mod 64 = z" using assms(2) by simp_all
  show "r div 4096 = x" using d assms(2) div_mult2_eq [of r 64 64] by simp
qed

lemma digits4:
  assumes "r = w * 262144 + x * 4096 + y * 64 + z" and "x < 64" and "y < 64" and "z < (64::nat)"
  shows "r div 262144 = w" "r div 4096 mod 64 = x" "r div 64 mod 64 = y" "r mod 64 = z"
proof -
  have r: "r = (w * 64 + x) * 4096 + y * 64 + z" using assms(1) by simp
  note d = digits3 [OF r assms(3,4)]
  then show "r div 4096 mod 64 = x" "r div 64 mod 64 = y" "r mod 64 = z"
    using assms(2) by simp_all
  show "r div 262144 = w" using d(1) assms(2) div_mult2_eq [of r 4096 64] by simp
qed

lemma decode3_encode:
  assumes "decode3 (byte c) cs = (r, n)" and "224 \<le> byte c" and "byte c < 240" and "n \<noteq> 1"
  shows "valid_rune r \<and> c # cs = encode_rune r @ drop (n - 1) cs \<and> n = length (encode_rune r)"
proof -
  obtain c1 c2 t where cs: "cs = c1 # c2 # t"
    using assms by (cases "(byte c, cs)" rule: decode3.cases) auto
  define x y z where "x = byte c - 224" and "y = byte c1 - 128" and "z = byte c2 - 128"
  have g: "in_range (if byte c = 224 then 160 else 128) (if byte c = 237 then 159 else 191) c1"
    "in_range 128 191 c2" and n: "n = 3"
    and r: "r = x * 4096 + y * 64 + z"
    using assms(1,4) cs unfolding x_def y_def z_def by (auto split: if_splits)
  have b: "byte c = 224 + x" "byte c1 = 128 + y" "byte c2 = 128 + z"
    and lt: "x < 16" "y < 64" "z < 64" and lo: "x = 0 \<Longrightarrow> 32 \<le> y" and hi: "x = 13 \<Longrightarrow> y < 32"
    using assms(2,3) g unfolding x_def y_def z_def in_range_def by (auto split: if_splits)
  from b have ch: "c = mk (224 + x)" "c1 = mk (128 + y)" "c2 = mk (128 + z)" by (metis mk_byte)+
  have rg: "2048 \<le> r" "r < 65536" using r lt lo by (cases "x = 0"; linarith)+
  have "valid_rune r"
  proof (cases "x < 13")
    case True
    then show ?thesis using r lt by (simp add: valid_rune_def)
  next
    case False
    then show ?thesis using r lt hi by (cases "x = 13") (auto simp: valid_rune_def)
  qed
  then show ?thesis
    using rg ch cs n digits3 [OF r lt(2,3)] by (simp add: encode_rune_def)
qed

lemma decode4_encode:
  assumes "decode4 (byte c) cs = (r, n)" and "240 \<le> byte c" and "byte c < 245" and "n \<noteq> 1"
  shows "valid_rune r \<and> c # cs = encode_rune r @ drop (n - 1) cs \<and> n = length (encode_rune r)"
proof -
  obtain c1 c2 c3 t where cs: "cs = c1 # c2 # c3 # t"
    using assms by (cases "(byte c, cs)" rule: decode4.cases) auto
  define w x y z where "w = byte c - 240" and "x = byte c1 - 128"
    and "y = byte c2 - 128" and "z = byte c3 - 128"
  have g: "in_range (if byte c = 240 then 144 else 128) (if byte c = 244 then 143 else 191) c1"
    "in_range 128 191 c2" "in_range 128 191 c3" and n: "n = 4"
    and r: "r = w * 262144 + x * 4096 + y * 64 + z"
    using assms(1,4) cs unfolding w_def x_def y_def z_def by (auto split: if_splits)
  have b: "byte c = 240 + w" "byte c1 = 128 + x" "byte c2 = 128 + y" "byte c3 = 128 + z"
    and lt: "w < 5" "x < 64" "y < 64" "z < 64" and lo: "w = 0 \<Longrightarrow> 16 \<le> x" and hi: "w = 4 \<Longrightarrow> x < 16"
    using assms(2,3) g unfolding w_def x_def y_def z_def in_range_def by (auto split: if_splits)
  from b have ch: "c = mk (240 + w)" "c1 = mk (128 + x)" "c2 = mk (128 + y)" "c3 = mk (128 + z)"
    by (metis mk_byte)+
  have "65536 \<le> r" using r lo by (cases "w = 0") linarith+
  moreover have "r \<le> 1114111" using r lt hi by (cases "w = 4") linarith+
  ultimately show ?thesis
    using ch cs n digits4 [OF r lt(2-4)] by (simp add: encode_rune_def valid_rune_def)
qed

lemma decode_rune_cases:
  assumes "decode_rune (c # cs) = (r, n)"
  shows "(r = RuneError \<and> n = 1) \<or>
    (valid_rune r \<and> c # cs = encode_rune r @ drop (n - 1) cs \<and> n = length (encode_rune r))"
proof -
  have d2: "decode2 b t = (q, 1) \<Longrightarrow> q = RuneError" for b t q
    by (cases "(b, t)" rule: decode2.cases) (auto split: if_splits)
  have d3: "decode3 b t = (q, 1) \<Longrightarrow> q = RuneError" for b t q
    by (cases "(b, t)" rule: decode3.cases) (auto split: if_splits)
  have d4: "decode4 b t = (q, 1) \<Longrightarrow> q = RuneError" for b t q
    by (cases "(b, t)" rule: decode4.cases) (auto split: if_splits)
  consider "byte c < 128" | "128 \<le> byte c" "byte c < 194 \<or> 245 \<le> byte c"
    | "194 \<le> byte c" "byte c < 224" | "224 \<le> byte c" "byte c < 240"
    | "240 \<le> byte c" "byte c < 245" by linarith
  then show ?thesis
  proof cases
    case 1
    with assms show ?thesis by (auto simp: encode_rune_def valid_rune_def)
  next
    case 2
    with assms show ?thesis by auto
  next
    case 3
    with assms decode2_encode [of c cs r n] d2 [of "byte c" cs r] show ?thesis
      by (cases "n = 1") auto
  next
    case 4
    with assms decode3_encode [of c cs r n] d3 [of "byte c" cs r] show ?thesis
      by (cases "n = 1") auto
  next
    case 5
    with assms decode4_encode [of c cs r n] d4 [of "byte c" cs r] show ?thesis
      by (cases "n = 1") auto
  qed
qed

lemma decode_runes_valid: "r \<in> set (decode_runes s) \<Longrightarrow> valid_rune r"
proof (induction s rule: decode_runes.induct)
  case 1
  then show ?case by simp
next
  case (2 c cs)
  obtain q n where d: "decode_rune (c # cs) = (q, n)" by fastforce
  with 2 decode_rune_cases [OF d] show ?case by auto
qed

lemma encode_length_pos: "0 < length (encode_rune r)"
  by simp

lemma decode_runes_encode_append:
  assumes "valid_rune r"
  shows "decode_runes (encode_rune r @ s) = r # decode_runes s"
    and "valid_utf8 (encode_rune r @ s) \<longleftrightarrow> valid_utf8 s"
proof -
  obtain c cs where e: "encode_rune r = c # cs" by (cases "encode_rune r") auto
  have d: "decode_rune (c # cs @ s) = (r, length (encode_rune r))"
    using decode_encode_rune [OF assms, of s] e by simp
  have "length (encode_rune RuneError) = 3"
    by (simp add: encode_rune_def RuneError_def valid_rune_def)
  then have "\<not> (r = RuneError \<and> length (encode_rune r) = 1)" by auto
  with d e show "decode_runes (encode_rune r @ s) = r # decode_runes s"
    and "valid_utf8 (encode_rune r @ s) \<longleftrightarrow> valid_utf8 s"
    by (simp_all del: decode_rune.simps)
qed

lemma decode_runes_encode_runes:
  "\<forall>r \<in> set rs. valid_rune r \<Longrightarrow> decode_runes (encode_runes rs) = rs"
  by (induction rs) (simp_all add: decode_runes_encode_append)

lemma valid_encode_runes_append:
  "\<forall>r \<in> set rs. valid_rune r \<Longrightarrow> valid_utf8 (encode_runes rs @ s) \<longleftrightarrow> valid_utf8 s"
  by (induction rs) (simp_all add: decode_runes_encode_append)

lemma valid_utf8_encode: "valid_utf8 s \<Longrightarrow> encode_runes (decode_runes s) = s"
proof (induction s rule: valid_utf8.induct)
  case 1
  then show ?case by simp
next
  case (2 c cs)
  obtain r n where d: "decode_rune (c # cs) = (r, n)" by fastforce
  with 2 decode_rune_cases [OF d] show ?case by (auto simp del: decode_rune.simps)
qed

lemma valid_utf8_iff: "valid_utf8 s \<longleftrightarrow> (\<exists>rs. (\<forall>r \<in> set rs. valid_rune r) \<and> s = encode_runes rs)"
proof
  assume "valid_utf8 s"
  then show "\<exists>rs. (\<forall>r \<in> set rs. valid_rune r) \<and> s = encode_runes rs"
    using valid_utf8_encode decode_runes_valid by metis
next
  assume "\<exists>rs. (\<forall>r \<in> set rs. valid_rune r) \<and> s = encode_runes rs"
  then show "valid_utf8 s" using valid_encode_runes_append [of _ "[]"] by auto
qed

lemma valid_utf8_append: "valid_utf8 s \<Longrightarrow> valid_utf8 (s @ t) \<longleftrightarrow> valid_utf8 t"
  by (metis valid_utf8_iff valid_encode_runes_append)

lemma valid_utf8_encode_runes [simp]: "\<forall>r \<in> set rs. valid_rune r \<Longrightarrow> valid_utf8 (encode_runes rs)"
  by (auto simp: valid_utf8_iff)

text \<open>\<open>strings.ToValidUTF8\<close>: every run of invalid bytes becomes one \<open>replacement\<close>.\<close>

fun to_valid_from :: "bool \<Rightarrow> string \<Rightarrow> string \<Rightarrow> string" where
  "to_valid_from invalid [] repl = []"
| "to_valid_from invalid (c # cs) repl =
     (if byte c < 128 then c # to_valid_from False cs repl
      else case decode_rune (c # cs) of (r, n) \<Rightarrow>
        if n = 1 then (if invalid then [] else repl) @ to_valid_from True cs repl
        else take n (c # cs) @ to_valid_from False (drop (n - 1) cs) repl)"

definition to_valid_utf8 :: "string \<Rightarrow> string \<Rightarrow> string" where
  "to_valid_utf8 s repl = to_valid_from False s repl"

lemma valid_to_valid_from: "valid_utf8 repl \<Longrightarrow> valid_utf8 (to_valid_from b s repl)"
proof (induction b s repl rule: to_valid_from.induct)
  case (1 invalid repl)
  then show ?case by simp
next
  case (2 invalid c cs repl)
  obtain r n where d: "decode_rune (c # cs) = (r, n)" by fastforce
  consider "byte c < 128" | "128 \<le> byte c" "n = 1" | "128 \<le> byte c" "n \<noteq> 1" by linarith
  then show ?case
  proof cases
    case 1
    with 2 show ?thesis by (simp add: RuneError_def)
  next
    case 2
    with "2.IH"(2) "2.prems" d show ?thesis
      by (simp add: valid_utf8_append del: decode_rune.simps)
  next
    case 3
    with decode_rune_cases [OF d] have v: "valid_rune r"
      and e: "c # cs = encode_rune r @ drop (n - 1) cs" and n: "n = length (encode_rune r)" by auto
    have "take n (c # cs) = encode_rune r" by (subst e) (simp add: n)
    with 3 v d "2.IH"(3) "2.prems" show ?thesis
      by (simp add: decode_runes_encode_append del: decode_rune.simps)
  qed
qed

lemma valid_to_valid_utf8: "valid_utf8 repl \<Longrightarrow> valid_utf8 (to_valid_utf8 s repl)"
  by (simp add: to_valid_utf8_def valid_to_valid_from)

lemma to_valid_from_valid: "valid_utf8 s \<Longrightarrow> to_valid_from b s repl = s"
proof (induction b s repl rule: to_valid_from.induct)
  case (1 invalid repl)
  then show ?case by simp
next
  case (2 invalid c cs repl)
  obtain r n where d: "decode_rune (c # cs) = (r, n)" by fastforce
  show ?case
  proof (cases "byte c < 128")
    case True
    with 2 show ?thesis by (simp add: RuneError_def)
  next
    case False
    with decode_rune_cases [OF d] 2(4) d have "n \<noteq> 1" and e: "c # cs = encode_rune r @ drop (n - 1) cs"
      and n: "n = length (encode_rune r)"
      by (auto simp: encode_rune_def split: if_splits)
    have "take n (c # cs) = encode_rune r" by (subst e) (simp add: n)
    then have "take n (c # cs) @ drop (n - 1) cs = c # cs" using e by simp
    with False d 2(3,4) \<open>n \<noteq> 1\<close> show ?thesis by (simp del: decode_rune.simps)
  qed
qed

text \<open>\<open>strings.ToValidUTF8\<close> leaves a valid string alone.\<close>

lemma to_valid_utf8_valid: "valid_utf8 s \<Longrightarrow> to_valid_utf8 s repl = s"
  by (simp add: to_valid_utf8_def to_valid_from_valid)

section \<open>White space\<close>

text \<open>\<open>unicode.IsSpace\<close>: the code points with property \<open>White_Space\<close>.\<close>

definition is_space :: "rune \<Rightarrow> bool" where
  "is_space r \<longleftrightarrow> (9 \<le> r \<and> r \<le> 13) \<or> r = 32 \<or> r = 133 \<or> r = 160 \<or> r = 5760 \<or>
     (8192 \<le> r \<and> r \<le> 8202) \<or> r = 8232 \<or> r = 8233 \<or> r = 8239 \<or> r = 8287 \<or> r = 12288"

text \<open>\<open>strings.TrimLeftFunc(s, unicode.IsSpace)\<close>.\<close>

fun trim_left :: "string \<Rightarrow> string" where
  "trim_left [] = []"
| "trim_left (c # cs) =
     (case decode_rune (c # cs) of (r, n) \<Rightarrow>
        if is_space r then trim_left (drop (n - 1) cs) else c # cs)"

text \<open>
  \<open>utf8.DecodeLastRuneInString\<close>: go back at most four bytes to the start of a code point and decode
  there; the code point counts only if it ends at the end of the string.
\<close>

definition rune_start :: "char \<Rightarrow> bool" where
  "rune_start c \<longleftrightarrow> byte c < 128 \<or> 192 \<le> byte c"

definition whole_rune :: "string \<Rightarrow> rune \<times> nat" where
  "whole_rune u = (case decode_rune u of (r, n) \<Rightarrow> if n = length u then (r, n) else (RuneError, 1))"

fun back_scan :: "nat \<Rightarrow> string \<Rightarrow> string \<Rightarrow> rune \<times> nat" where
  "back_scan 0 _ acc = (RuneError, 1)"
| "back_scan (Suc k) [] acc = (RuneError, 1)"
| "back_scan (Suc k) (c # before) acc =
     (if rune_start c then whole_rune (c # acc) else back_scan k before (c # acc))"

text \<open>The argument is the string reversed: its last byte comes first.\<close>

fun decode_last_rev :: "string \<Rightarrow> rune \<times> nat" where
  "decode_last_rev [] = (RuneError, 0)"
| "decode_last_rev (c # before) = (if byte c < 128 then (byte c, 1) else back_scan 3 before [c])"

definition decode_last_rune :: "string \<Rightarrow> rune \<times> nat" where
  "decode_last_rune s = decode_last_rev (rev s)"

text \<open>\<open>strings.TrimRightFunc(s, unicode.IsSpace)\<close>, on the reversed string.\<close>

fun trim_right_rev :: "string \<Rightarrow> string" where
  "trim_right_rev [] = []"
| "trim_right_rev (c # cs) =
     (case decode_last_rev (c # cs) of (r, n) \<Rightarrow>
        if is_space r then trim_right_rev (drop (n - 1) cs) else c # cs)"

definition trim_right :: "string \<Rightarrow> string" where
  "trim_right s = rev (trim_right_rev (rev s))"

text \<open>\<open>strings.TrimSpace\<close>.\<close>

definition trim_space :: "string \<Rightarrow> string" where
  "trim_space s = trim_right (trim_left s)"

text \<open>On code points, trimming drops the white space at both ends.\<close>

definition trim_runes :: "rune list \<Rightarrow> rune list" where
  "trim_runes rs = rev (dropWhile is_space (rev (dropWhile is_space rs)))"

lemma RuneError_not_space [simp]: "\<not> is_space RuneError"
  by (simp add: is_space_def RuneError_def)

lemma trim_left_encode:
  "\<forall>r \<in> set rs. valid_rune r \<Longrightarrow> trim_left (encode_runes rs) = encode_runes (dropWhile is_space rs)"
proof (induction rs)
  case Nil
  then show ?case by simp
next
  case (Cons r rs)
  obtain c cs where e: "encode_rune r = c # cs" by (cases "encode_rune r") auto
  have "decode_rune (c # cs @ encode_runes rs) = (r, Suc (length cs))"
    using decode_encode_rune [of r "encode_runes rs"] Cons.prems e by simp
  with Cons e show ?case by (simp del: decode_rune.simps)
qed

text \<open>Every byte of an encoding but the first is a continuation byte.\<close>

lemma encode_rune_shape:
  assumes "valid_rune r"
  shows "(r < 128 \<and> encode_rune r = [mk r]) \<or>
    (\<exists>c cs. encode_rune r = c # cs \<and> 192 \<le> byte c \<and> cs \<noteq> [] \<and> length cs \<le> 3 \<and>
       (\<forall>d \<in> set cs. 128 \<le> byte d \<and> byte d < 192))"
proof -
  have "r div 64 mod 64 < 64" "r div 4096 mod 64 < 64" "r mod 64 < 64" by simp_all
  moreover have "r div 64 < 32" if "r < 2048" using that by linarith
  moreover have "r div 4096 < 16" if "r < 65536" using that by linarith
  moreover have "r div 262144 < 5"
    using assms by (auto simp: valid_rune_def intro: div_less_iff_less_mult [THEN iffD2])
  ultimately show ?thesis
    using assms by (auto simp: encode_rune_def)
qed

lemma back_scan_cont:
  assumes "\<forall>d \<in> set ds. 128 \<le> byte d \<and> byte d < 192" and "length ds < k" and "192 \<le> byte c"
  shows "back_scan k (ds @ c # t) acc = whole_rune (c # rev ds @ acc)"
  using assms
proof (induction ds arbitrary: k acc)
  case Nil
  then show ?case by (cases k) (auto simp: rune_start_def)
next
  case (Cons d ds)
  then obtain j where "k = Suc j" by (cases k) auto
  with Cons show ?case by (auto simp: rune_start_def)
qed

lemma decode_last_rev_encode:
  assumes "valid_rune r"
  shows "decode_last_rev (rev (encode_rune r) @ t) = (r, length (encode_rune r))"
proof -
  have w: "whole_rune (encode_rune r) = (r, length (encode_rune r))"
    using decode_encode_rune [OF assms, of "[]"] by (simp add: whole_rune_def)
  from encode_rune_shape [OF assms] show ?thesis
  proof (elim disjE exE conjE)
    assume "r < 128" "encode_rune r = [mk r]"
    then show ?thesis by simp
  next
    fix c cs
    assume e: "encode_rune r = c # cs" and c: "192 \<le> byte c" and "cs \<noteq> []" and l: "length cs \<le> 3"
      and cont: "\<forall>d \<in> set cs. 128 \<le> byte d \<and> byte d < 192"
    then obtain d ds where cs: "cs = ds @ [d]" by (cases cs rule: rev_cases) auto
    have "back_scan 3 (rev ds @ c # t) [d] = whole_rune (c # rev (rev ds) @ [d])"
      by (rule back_scan_cont) (use cont c cs l in auto)
    then show ?thesis using e cs cont w by auto
  qed
qed

lemma trim_right_encode:
  assumes "\<forall>r \<in> set rs. valid_rune r"
  shows "trim_right (encode_runes rs) = encode_runes (rev (dropWhile is_space (rev rs)))"
  using assms
proof (induction rs rule: rev_induct)
  case Nil
  then show ?case by (simp add: trim_right_def)
next
  case (snoc r rs)
  obtain c cs where e: "rev (encode_rune r) = c # cs" by (cases "rev (encode_rune r)") auto
  have l: "length (encode_rune r) = Suc (length cs)" using e by (metis length_Cons length_rev)
  have "decode_last_rev (c # cs @ rev (encode_runes rs)) = (r, Suc (length cs))"
    using decode_last_rev_encode [of r "rev (encode_runes rs)"] snoc.prems e l by simp
  then have "trim_right_rev (c # cs @ rev (encode_runes rs)) =
      (if is_space r then trim_right_rev (rev (encode_runes rs)) else c # cs @ rev (encode_runes rs))"
    by (simp del: decode_last_rev.simps)
  moreover have "rev (encode_runes (rs @ [r])) = c # cs @ rev (encode_runes rs)" using e by simp
  ultimately show ?case
    using snoc by (auto simp: trim_right_def)
qed

lemma set_trim_runes: "set (trim_runes rs) \<subseteq> set rs"
  unfolding trim_runes_def by (auto dest!: set_dropWhileD)

text \<open>\<open>TrimSpace\<close> on a valid string removes the white-space code points at both ends.\<close>

lemma trim_space_encode:
  assumes "\<forall>r \<in> set rs. valid_rune r"
  shows "trim_space (encode_runes rs) = encode_runes (trim_runes rs)"
proof -
  have "\<forall>r \<in> set (dropWhile is_space rs). valid_rune r" using assms by (auto dest: set_dropWhileD)
  then show ?thesis
    using assms by (simp add: trim_space_def trim_left_encode trim_right_encode trim_runes_def)
qed

lemma valid_trim_space: "valid_utf8 s \<Longrightarrow> valid_utf8 (trim_space s)"
  unfolding valid_utf8_iff
  using trim_space_encode set_trim_runes by (metis subset_iff)

subsection \<open>A trimmed string has no white space at its ends\<close>

lemma decode_rune_append:
  assumes "decode_rune (c # cs) = (r, n)" and "r \<noteq> RuneError"
  shows "decode_rune (c # cs @ t) = (r, n)"
proof -
  from decode_rune_cases [OF assms(1)] assms(2) have v: "valid_rune r"
    and e: "c # cs = encode_rune r @ drop (n - 1) cs" and n: "n = length (encode_rune r)" by auto
  have "c # cs @ t = encode_rune r @ drop (n - 1) cs @ t" by (subst append_Cons [symmetric], subst e) simp
  then show ?thesis by (simp only: decode_encode_rune [OF v] n)
qed

lemma trim_left_hd: "trim_left s = c # cs \<Longrightarrow> \<not> is_space (fst (decode_rune (c # cs)))"
proof (induction s rule: trim_left.induct)
  case 1
  then show ?case by simp
next
  case (2 d ds)
  then show ?case by (auto simp del: decode_rune.simps split: prod.splits if_splits)
qed

lemma trim_right_rev_suffix: "suffix (trim_right_rev t) t"
proof (induction t rule: trim_right_rev.induct)
  case 1
  then show ?case by simp
next
  case (2 c cs)
  obtain r n where d: "decode_last_rev (c # cs) = (r, n)" by fastforce
  show ?case
  proof (cases "is_space r")
    case True
    with d have "trim_right_rev (c # cs) = trim_right_rev (drop (n - 1) cs)"
      by (simp del: decode_last_rev.simps)
    moreover have "suffix (trim_right_rev (drop (n - 1) cs)) (drop (n - 1) cs)"
      using 2 d True by simp
    ultimately show ?thesis
      by (metis suffix_ConsI suffix_drop suffix_order.trans)
  next
    case False
    with d show ?thesis by (simp del: decode_last_rev.simps)
  qed
qed

lemma trim_right_prefix: "prefix (trim_right s) s"
  unfolding trim_right_def
  using trim_right_rev_suffix [of "rev s"] by (simp add: suffix_to_prefix)

lemma trim_right_rev_hd: "trim_right_rev t = c # cs \<Longrightarrow> \<not> is_space (fst (decode_last_rev (c # cs)))"
proof (induction t rule: trim_right_rev.induct)
  case 1
  then show ?case by simp
next
  case (2 d ds)
  then show ?case by (auto simp del: decode_last_rev.simps split: prod.splits if_splits)
qed

lemma decode_runes_hd: "hd (decode_runes (c # cs)) = fst (decode_rune (c # cs))"
  by (simp split: prod.splits)

lemma decode_runes_last:
  assumes "s \<noteq> []" and "last (decode_runes s) \<noteq> RuneError"
  shows "\<exists>u. s = u @ encode_rune (last (decode_runes s)) \<and> valid_rune (last (decode_runes s))"
  using assms
proof (induction s rule: decode_runes.induct)
  case 1
  then show ?case by simp
next
  case (2 c cs)
  obtain r n where d: "decode_rune (c # cs) = (r, n)" by fastforce
  let ?t = "drop (n - 1) cs"
  from d have dr: "decode_runes (c # cs) = r # decode_runes ?t" by (simp del: decode_rune.simps)
  show ?case
  proof (cases "?t = []")
    case True
    with dr have l: "last (decode_runes (c # cs)) = r" by simp
    with decode_rune_cases [OF d] 2(3) True show ?thesis by auto
  next
    case False
    with dr have l: "last (decode_runes (c # cs)) = last (decode_runes ?t)" by simp
    obtain u where u: "?t = u @ encode_rune (last (decode_runes ?t))"
      and v: "valid_rune (last (decode_runes ?t))"
      using "2.IH" [OF d [symmetric] False] 2(3) l by auto
    have "c # cs = (c # take (n - 1) cs @ u) @ encode_rune (last (decode_runes ?t))"
      using u append_take_drop_id [of "n - 1" cs] by simp
    with l v show ?thesis by metis
  qed
qed

lemma trim_space_ends:
  assumes "trim_space s \<noteq> []"
  shows "\<not> is_space (hd (decode_runes (trim_space s)))"
    and "\<not> is_space (last (decode_runes (trim_space s)))"
proof -
  let ?l = "trim_left s" and ?t = "trim_space s"
  obtain c cs where t: "?t = c # cs" using assms by (cases ?t) auto
  obtain v where v: "?l = ?t @ v"
    using trim_right_prefix [of ?l] by (auto simp: trim_space_def prefix_def)
  have "fst (decode_rune (c # cs)) = RuneError \<or>
      fst (decode_rune (c # cs)) = fst (decode_rune (c # cs @ v))"
    using decode_rune_append [of c cs _ _ v] by (metis fst_conv prod.exhaust)
  moreover have "\<not> is_space (fst (decode_rune (c # cs @ v)))"
    using v t by (intro trim_left_hd [of s]) simp
  ultimately show "\<not> is_space (hd (decode_runes ?t))"
    using t by (auto simp: decode_runes_hd simp del: decode_rune.simps decode_runes.simps)
  show "\<not> is_space (last (decode_runes ?t))"
  proof (cases "last (decode_runes ?t) = RuneError")
    case False
    then obtain u where u: "?t = u @ encode_rune (last (decode_runes ?t))"
      and vr: "valid_rune (last (decode_runes ?t))"
      using decode_runes_last assms by blast
    have "rev ?t = rev (encode_rune (last (decode_runes ?t))) @ rev u" by (subst u) simp
    then have "fst (decode_last_rev (rev ?t)) = last (decode_runes ?t)"
      using decode_last_rev_encode [OF vr, of "rev u"] by simp
    moreover have "rev ?t = trim_right_rev (rev ?l)" by (simp add: trim_space_def trim_right_def)
    ultimately show ?thesis
      using trim_right_rev_hd assms by (metis list.exhaust rev_is_Nil_conv)
  qed simp
qed

lemma trim_runes_ident:
  assumes "rs = [] \<or> (\<not> is_space (hd rs) \<and> \<not> is_space (last rs))"
  shows "trim_runes rs = rs"
proof (cases rs rule: rev_cases)
  case Nil
  then show ?thesis by (simp add: trim_runes_def)
next
  case (snoc ys y)
  then have "dropWhile is_space rs = rs" using assms by (auto intro: dropWhile_ident)
  then show ?thesis using assms snoc by (simp add: trim_runes_def)
qed

lemma trim_runes_decode_trim_space:
  "trim_runes (decode_runes (trim_space s)) = decode_runes (trim_space s)"
  using trim_space_ends [of s] by (intro trim_runes_ident) auto

section \<open>Mapping code points and lower case\<close>

text \<open>\<open>strings.Map\<close>: the mapping drops a code point by returning a negative one (\<open>None\<close> here).\<close>

definition map_runes :: "(rune \<Rightarrow> rune option) \<Rightarrow> string \<Rightarrow> string" where
  "map_runes f s = encode_runes (List.map_filter f (decode_runes s))"

text \<open>\<open>unicode.ToLower\<close> with the table \<open>ul\<close> beyond ASCII, and \<open>strings.ToLower\<close> with its ASCII path.\<close>

definition lower_rune :: "(rune \<Rightarrow> rune) \<Rightarrow> rune \<Rightarrow> rune" where
  "lower_rune ul r = (if r < 128 then (if 65 \<le> r \<and> r \<le> 90 then r + 32 else r) else ul r)"

definition is_upper_byte :: "char \<Rightarrow> bool" where
  "is_upper_byte c \<longleftrightarrow> 65 \<le> byte c \<and> byte c \<le> 90"

definition lower_byte :: "char \<Rightarrow> char" where
  "lower_byte c = (if is_upper_byte c then mk (byte c + 32) else c)"

definition to_lower :: "(rune \<Rightarrow> rune) \<Rightarrow> string \<Rightarrow> string" where
  "to_lower ul s =
     (if list_all (\<lambda>c. byte c < 128) s
      then (if list_ex is_upper_byte s then map lower_byte s else s)
      else map_runes (\<lambda>r. Some (lower_rune ul r)) s)"

text \<open>What the server relies on of Unicode's lower-case table, for the code points beyond ASCII.\<close>

definition unicode_lower_ok :: "(rune \<Rightarrow> rune) \<Rightarrow> bool" where
  "unicode_lower_ok ul \<longleftrightarrow>
     (\<forall>r. 128 \<le> r \<longrightarrow> valid_rune r \<longrightarrow> valid_rune (ul r)) \<and>
     (\<forall>r. 128 \<le> r \<longrightarrow> lower_rune ul (ul r) = ul r) \<and>
     (\<forall>r. 128 \<le> r \<longrightarrow> is_space (ul r) = is_space r)"

lemma map_filter_Some: "List.map_filter (\<lambda>x. Some (f x)) xs = map f xs"
  by (induction xs) (simp_all add: List.map_filter_def)

lemma ascii_decode: "\<forall>c \<in> set s. byte c < 128 \<Longrightarrow> decode_runes s = map byte s"
  by (induction s) simp_all

lemma ascii_encode: "\<forall>r \<in> set rs. r < 128 \<Longrightarrow> encode_runes rs = map mk rs"
  by (induction rs) (simp_all add: encode_rune_def)

text \<open>The ASCII path of \<open>strings.ToLower\<close> computes what mapping every code point computes.\<close>

lemma to_lower_eq: "to_lower ul s = encode_runes (map (lower_rune ul) (decode_runes s))"
proof (cases "list_all (\<lambda>c. byte c < 128) s")
  case True
  then have a: "\<forall>c \<in> set s. byte c < 128" by (simp add: list_all_iff)
  have l: "lower_rune ul (byte c) < 128" if "byte c < 128" for c
    using that by (auto simp: lower_rune_def)
  have "encode_runes (map (lower_rune ul) (decode_runes s)) = map (mk \<circ> lower_rune ul \<circ> byte) s"
    using a l by (simp add: ascii_decode ascii_encode)
  also have "\<dots> = map lower_byte s"
    using a by (auto simp: lower_rune_def lower_byte_def is_upper_byte_def)
  also have "\<dots> = to_lower ul s"
    using True by (auto simp: to_lower_def lower_byte_def list_ex_iff intro: map_idI)
  finally show ?thesis by simp
next
  case False
  then show ?thesis by (simp add: to_lower_def map_runes_def map_filter_Some)
qed

lemma lower_rune_valid: "unicode_lower_ok ul \<Longrightarrow> valid_rune r \<Longrightarrow> valid_rune (lower_rune ul r)"
  by (cases "r < 128") (simp_all add: lower_rune_def unicode_lower_ok_def valid_rune_def [of "_ + _"])

lemma lower_rune_idem: "unicode_lower_ok ul \<Longrightarrow> lower_rune ul (lower_rune ul r) = lower_rune ul r"
  by (cases "r < 128") (simp_all add: lower_rune_def [of ul r] unicode_lower_ok_def, simp add: lower_rune_def)

lemma lower_rune_space: "unicode_lower_ok ul \<Longrightarrow> is_space (lower_rune ul r) = is_space r"
  by (cases "r < 128") (simp_all add: lower_rune_def unicode_lower_ok_def, simp add: is_space_def)

lemma trim_runes_map:
  "(\<And>r. is_space (f r) = is_space r) \<Longrightarrow> trim_runes (map f rs) = map f (trim_runes rs)"
  by (simp add: trim_runes_def dropWhile_map rev_map comp_def)

lemma decode_to_lower:
  "unicode_lower_ok ul \<Longrightarrow> decode_runes (to_lower ul s) = map (lower_rune ul) (decode_runes s)"
  by (auto simp: to_lower_eq lower_rune_valid decode_runes_valid intro!: decode_runes_encode_runes)

lemma valid_to_lower: "unicode_lower_ok ul \<Longrightarrow> valid_utf8 (to_lower ul s)"
  by (auto simp: to_lower_eq intro!: valid_utf8_encode_runes lower_rune_valid dest: decode_runes_valid)

lemma to_lower_idem: "unicode_lower_ok ul \<Longrightarrow> to_lower ul (to_lower ul s) = to_lower ul s"
  by (simp add: to_lower_eq [of ul "to_lower ul s"] decode_to_lower lower_rune_idem comp_def)
    (simp add: to_lower_eq)

text \<open>Trimming then lowering twice is the same as once.\<close>

lemma to_lower_trim_idem:
  assumes "unicode_lower_ok ul"
  shows "to_lower ul (trim_space (to_lower ul (trim_space s))) = to_lower ul (trim_space s)"
proof -
  let ?rs = "decode_runes (trim_space s)"
  have v: "\<forall>r \<in> set (map (lower_rune ul) ?rs). valid_rune r"
    using assms by (auto intro: lower_rune_valid dest: decode_runes_valid)
  have "trim_space (to_lower ul (trim_space s)) = encode_runes (map (lower_rune ul) (trim_runes ?rs))"
    by (simp add: to_lower_eq trim_space_encode [OF v] trim_runes_map lower_rune_space assms)
  also have "\<dots> = to_lower ul (trim_space s)"
    by (simp add: trim_runes_decode_trim_space to_lower_eq)
  finally show ?thesis using to_lower_idem [OF assms] by simp
qed

section \<open>Splitting, joining and searching\<close>

text \<open>\<open>strings.HasPrefix\<close>, \<open>strings.HasSuffix\<close>, \<open>strings.TrimSuffix\<close>.\<close>

definition has_prefix :: "string \<Rightarrow> string \<Rightarrow> bool" where
  "has_prefix s p \<longleftrightarrow> take (length p) s = p"

definition has_suffix :: "string \<Rightarrow> string \<Rightarrow> bool" where
  "has_suffix s p \<longleftrightarrow> length p \<le> length s \<and> drop (length s - length p) s = p"

definition trim_suffix :: "string \<Rightarrow> string \<Rightarrow> string" where
  "trim_suffix s p = (if has_suffix s p then take (length s - length p) s else s)"

text \<open>\<open>strings.Split\<close> at a one-byte separator and \<open>strings.Join\<close>.\<close>

fun split_on :: "char \<Rightarrow> string \<Rightarrow> string list" where
  "split_on d [] = [[]]"
| "split_on d (c # cs) =
     (if c = d then [] # split_on d cs
      else (case split_on d cs of [] \<Rightarrow> [[c]] | x # xs \<Rightarrow> (c # x) # xs))"

fun join_with :: "string \<Rightarrow> string list \<Rightarrow> string" where
  "join_with sep [] = []"
| "join_with sep [x] = x"
| "join_with sep (x # y # ys) = x @ sep @ join_with sep (y # ys)"

text \<open>\<open>strings.SplitN(s, d, 2)\<close>: one or two parts.\<close>

fun split2 :: "char \<Rightarrow> string \<Rightarrow> string list" where
  "split2 d [] = [[]]"
| "split2 d (c # cs) =
     (if c = d then [[], cs]
      else (case split2 d cs of [] \<Rightarrow> [[c]] | x # xs \<Rightarrow> (c # x) # xs))"

text \<open>\<open>strings.ContainsAny\<close> for a set of ASCII bytes.\<close>

definition contains_any :: "string \<Rightarrow> string \<Rightarrow> bool" where
  "contains_any s cs \<longleftrightarrow> list_ex (\<lambda>c. c \<in> set cs) s"

lemma split_on_ne [simp]: "split_on d s \<noteq> []"
  by (cases s) (auto split: list.splits)

lemma join_split: "join_with [d] (split_on d s) = s"
proof (induction s)
  case Nil
  then show ?case by simp
next
  case (Cons c s)
  obtain x xs where sp: "split_on d s = x # xs" by (cases "split_on d s") auto
  with Cons show ?case by (cases xs) auto
qed

lemma split_on_free: "x \<in> set (split_on d s) \<Longrightarrow> d \<notin> set x"
proof (induction s arbitrary: x)
  case Nil
  then show ?case by simp
next
  case (Cons c s)
  obtain y ys where "split_on d s = y # ys" by (cases "split_on d s") auto
  with Cons show ?case by (auto split: if_splits)
qed

lemma split_on_no_sep: "d \<notin> set s \<Longrightarrow> split_on d s = [s]"
  by (induction s) auto

lemma split_on_append:
  "d \<notin> set x \<Longrightarrow> split_on d (x @ d # s) = x # split_on d s"
  by (induction x) auto

text \<open>Pieces without the separator survive a join followed by a split.\<close>

lemma split_join:
  "\<lbrakk>xs \<noteq> []; \<forall>x \<in> set xs. d \<notin> set x\<rbrakk> \<Longrightarrow> split_on d (join_with [d] xs) = xs"
  by (induction "[d]" xs rule: join_with.induct) (simp_all add: split_on_no_sep split_on_append)

lemma split2_append: "d \<notin> set a \<Longrightarrow> split2 d (a @ d # b) = [a, b]"
  by (induction a) auto

lemma split2_parts: "split2 d s = [a, b] \<Longrightarrow> s = a @ d # b \<and> d \<notin> set a"
proof (induction s arbitrary: a)
  case Nil
  then show ?case by simp
next
  case (Cons c s)
  show ?case
  proof (cases "c = d")
    case True
    with Cons.prems show ?thesis by auto
  next
    case False
    with Cons.prems obtain a' where a: "a = c # a'" and "split2 d s = [a', b]"
      by (auto split: list.splits)
    with Cons.IH [of a'] False show ?thesis by auto
  qed
qed

lemma has_suffix_append: "has_suffix (a @ p) p"
  by (simp add: has_suffix_def)

lemma trim_suffix_append [simp]: "trim_suffix (a @ p) p = a"
  by (simp add: trim_suffix_def has_suffix_append)

lemma has_suffix_iff: "has_suffix s p \<longleftrightarrow> (\<exists>a. s = a @ p)"
proof
  assume "has_suffix s p"
  then have "s = take (length s - length p) s @ p"
    by (metis append_take_drop_id has_suffix_def)
  then show "\<exists>a. s = a @ p" ..
qed (auto simp: has_suffix_append)

section \<open>Hexadecimal\<close>

text \<open>\<open>hex.EncodeToString\<close>: two lower-case digits per byte.\<close>

definition hex_digit :: "nat \<Rightarrow> char" where
  "hex_digit n = (if n < 10 then mk (48 + n) else mk (87 + n))"

definition hex_encode :: "string \<Rightarrow> string" where
  "hex_encode s = concat (map (\<lambda>c. [hex_digit (byte c div 16), hex_digit (byte c mod 16)]) s)"

definition is_hex :: "char \<Rightarrow> bool" where
  "is_hex c \<longleftrightarrow> (48 \<le> byte c \<and> byte c \<le> 57) \<or> (97 \<le> byte c \<and> byte c \<le> 102)"

lemma is_hex_digit: "n < 16 \<Longrightarrow> is_hex (hex_digit n)"
  by (auto simp: is_hex_def hex_digit_def)

lemma length_hex_encode [simp]: "length (hex_encode s) = 2 * length s"
  by (induction s) (simp_all add: hex_encode_def)

lemma hex_encode_hex: "c \<in> set (hex_encode s) \<Longrightarrow> is_hex c"
proof -
  assume "c \<in> set (hex_encode s)"
  then obtain d where "c = hex_digit (byte d div 16) \<or> c = hex_digit (byte d mod 16)"
    by (auto simp: hex_encode_def)
  moreover have "byte d div 16 < 16" using byte_less [of d] by linarith
  ultimately show "is_hex c" by (auto intro: is_hex_digit)
qed

lemma hex_digit_inj: "m < 16 \<Longrightarrow> n < 16 \<Longrightarrow> hex_digit m = hex_digit n \<Longrightarrow> m = n"
  by (auto simp: hex_digit_def dest!: arg_cong [of _ _ byte] split: if_splits)

lemma hex_encode_inj: "hex_encode s = hex_encode t \<Longrightarrow> s = t"
proof (induction s arbitrary: t)
  case Nil
  then show ?case by (cases t) (simp_all add: hex_encode_def)
next
  case (Cons c s)
  then obtain d t' where t: "t = d # t'" by (cases t) (simp_all add: hex_encode_def)
  have lt: "byte c div 16 < 16" "byte d div 16 < 16" using byte_less [of c] byte_less [of d] by linarith+
  from Cons.prems t have "hex_digit (byte c div 16) = hex_digit (byte d div 16)"
    and "hex_digit (byte c mod 16) = hex_digit (byte d mod 16)" and r: "hex_encode s = hex_encode t'"
    by (simp_all add: hex_encode_def)
  with lt have "byte c div 16 = byte d div 16" and "byte c mod 16 = byte d mod 16"
    by (auto intro: hex_digit_inj)
  then have "byte c = byte d" by (metis div_mult_mod_eq)
  with Cons.IH [OF r] t show ?case by (simp add: byte_inj)
qed

section \<open>ASCII\<close>

lemma valid_utf8_ascii: "\<forall>c \<in> set s. byte c < 128 \<Longrightarrow> valid_utf8 s \<and> length (decode_runes s) = length s"
  by (induction s) (auto simp: RuneError_def)

lemma is_hex_ascii: "is_hex c \<Longrightarrow> byte c < 128"
  by (auto simp: is_hex_def)

lemma trim_space_ascii:
  assumes "s \<noteq> []" and "byte (hd s) < 128" "\<not> is_space (byte (hd s))" and "byte (last s) < 128" "\<not> is_space (byte (last s))"
  shows "trim_space s = s"
proof -
  obtain c cs where c: "s = c # cs" using assms(1) by (cases s) simp_all
  have d: "decode_rune (c # cs) = (byte c, 1)" using assms(2) by (simp add: c)
  have "\<not> is_space (byte c)" using assms(3) by (simp add: c)
  then have "trim_left s = s" unfolding c trim_left.simps d prod.case by (rule if_not_P)
  moreover obtain d ds where r: "rev s = d # ds" using assms(1) by (cases "rev s") simp_all
  then have "last s = d" by (metis hd_rev list.sel(1))
  then have "trim_right_rev (d # ds) = d # ds" using assms(4,5) by simp
  then have "trim_right s = s" unfolding trim_right_def r by (metis r rev_rev_ident)
  ultimately show ?thesis by (simp add: trim_space_def)
qed

end
