(* ===== verification/Go_Numbers.thy ===== *)
theory Go_Numbers
  imports Go_Strings
begin

text \<open>
  Decimal numbers as Go's \<open>strconv\<close> and \<open>fmt\<close> read and print them: \<open>strconv.ParseInt(s, 10, 64)\<close> and
  \<open>strconv.Atoi\<close> (a sign is allowed, leading zeros are allowed, everything else is an error, as is a
  value outside 64 bits), \<open>strconv.FormatInt\<close> and the verbs \<open>%d\<close> and \<open>%03d\<close>.
\<close>

section \<open>Printing\<close>

fun format_nat :: "nat \<Rightarrow> string" where
  "format_nat n = (if n < 10 then [mk (48 + n)] else format_nat (n div 10) @ [mk (48 + n mod 10)])"

declare format_nat.simps [simp del]

definition format_int :: "int \<Rightarrow> string" where
  "format_int i = (if i < 0 then ''-'' @ format_nat (nat (- i)) else format_nat (nat i))"

text \<open>\<open>%03d\<close>: zeros between the sign and the digits up to a total width of three.\<close>

definition format_03d :: "int \<Rightarrow> string" where
  "format_03d i =
     (let d = format_nat (nat \<bar>i\<bar>); sgn = (if i < 0 then ''-'' else [])
      in sgn @ replicate (3 - length sgn - length d) (mk 48) @ d)"

section \<open>Parsing\<close>

definition is_digit :: "char \<Rightarrow> bool" where
  "is_digit c \<longleftrightarrow> 48 \<le> byte c \<and> byte c \<le> 57"

fun digits_val :: "nat \<Rightarrow> string \<Rightarrow> nat option" where
  "digits_val acc [] = Some acc"
| "digits_val acc (c # cs) = (if is_digit c then digits_val (10 * acc + (byte c - 48)) cs else None)"

definition signed :: "string \<Rightarrow> bool \<times> string" where
  "signed s =
     (case s of [] \<Rightarrow> (False, [])
      | c # cs \<Rightarrow> if byte c = 43 then (False, cs) else if byte c = 45 then (True, cs) else (False, s))"

definition parse_int64 :: "string \<Rightarrow> int option" where
  "parse_int64 s =
     (case signed s of (neg, ds) \<Rightarrow>
        if ds = [] then None
        else (case digits_val 0 ds of None \<Rightarrow> None
              | Some n \<Rightarrow>
                  let i = (if neg then - int n else int n)
                  in if in_int64 i then Some i else None))"

section \<open>Printing then parsing\<close>

lemma digits_val_append:
  "digits_val acc (s @ t) = (case digits_val acc s of None \<Rightarrow> None | Some n \<Rightarrow> digits_val n t)"
  by (induction s arbitrary: acc) auto

lemma digits_val_format_nat: "digits_val 0 (format_nat n) = Some n"
proof (induction n rule: format_nat.induct)
  case (1 n)
  show ?case
  proof (cases "n < 10")
    case True
    then show ?thesis by (simp add: format_nat.simps [of n] is_digit_def)
  next
    case False
    have "digits_val (n div 10) [mk (48 + n mod 10)] = Some (10 * (n div 10) + n mod 10)"
      by (simp add: is_digit_def)
    with 1 False show ?thesis by (simp add: format_nat.simps [of n] digits_val_append)
  qed
qed

lemma format_nat_inj: "format_nat m = format_nat n \<Longrightarrow> m = n"
  using digits_val_format_nat by (metis option.inject)

lemma format_nat_digits: "c \<in> set (format_nat n) \<Longrightarrow> is_digit c"
proof (induction n rule: format_nat.induct)
  case (1 n)
  then show ?case
    by (cases "n < 10") (auto simp: format_nat.simps [of n] is_digit_def)
qed

lemma format_nat_ne [simp]: "format_nat n \<noteq> []"
  by (simp add: format_nat.simps [of n])

lemma signed_digits: "s \<noteq> [] \<Longrightarrow> is_digit (hd s) \<Longrightarrow> signed s = (False, s)"
  by (cases s) (auto simp: signed_def is_digit_def)

lemma parse_format_int: "in_int64 i \<Longrightarrow> parse_int64 (format_int i) = Some i"
proof (cases "i < 0")
  case True
  assume "in_int64 i"
  moreover have "signed (format_int i) = (True, format_nat (nat (- i)))"
    using True by (simp add: format_int_def signed_def byte_def)
  ultimately show ?thesis using True by (simp add: parse_int64_def digits_val_format_nat)
next
  case False
  assume "in_int64 i"
  moreover have "signed (format_int i) = (False, format_nat (nat i))"
    using False format_nat_digits [of "hd (format_nat (nat i))" "nat i"]
    by (simp add: format_int_def signed_digits)
  ultimately show ?thesis using False by (simp add: parse_int64_def digits_val_format_nat)
qed

lemma parse_int64_range: "parse_int64 s = Some i \<Longrightarrow> in_int64 i"
  by (auto simp: parse_int64_def Let_def split: prod.splits if_splits option.splits)

lemma format_int_inj: "in_int64 i \<Longrightarrow> in_int64 j \<Longrightarrow> format_int i = format_int j \<Longrightarrow> i = j"
  using parse_format_int by (metis option.inject)

lemma format_int_ne [simp]: "format_int i \<noteq> []"
  by (simp add: format_int_def)

end
