(* ===== verification/Config.thy ===== *)
theory Config
  imports Go_Numbers
begin

text \<open>
  \<open>internal/config/config.go\<close>: the configuration record, how it is read from the environment
  (\<open>env k\<close> is \<open>os.Getenv(k)\<close>, the empty string for an unset variable) and the session lifetime as a
  \<open>time.Duration\<close>, a 64-bit number of nanoseconds.
\<close>

record config =
  DatabaseURL :: string
  DataDir :: string
  PublicBaseURL :: string
  MaxMessageBytes :: int
  SessionCookieName :: string
  SessionTTLHours :: int
  NormalUserPSK :: string
  AdminPSK :: string
  WorkerIngestPSK :: string
  ServerAddr :: string
  AppEnv :: string

type_synonym environment = "string \<Rightarrow> string"

definition getEnv :: "environment \<Rightarrow> string \<Rightarrow> string \<Rightarrow> string" where
  "getEnv env key defaultValue = (if env key \<noteq> [] then env key else defaultValue)"

definition getEnvInt :: "environment \<Rightarrow> string \<Rightarrow> int \<Rightarrow> int" where
  "getEnvInt env key defaultValue =
     (if env key \<noteq> []
      then (case parse_int64 (env key) of Some i \<Rightarrow> i | None \<Rightarrow> defaultValue)
      else defaultValue)"

definition Load :: "environment \<Rightarrow> config" where
  "Load env = \<lparr>
     DatabaseURL = getEnv env ''DATABASE_URL'' [],
     DataDir = getEnv env ''DATA_DIR'' ''./data'',
     PublicBaseURL = getEnv env ''PUBLIC_BASE_URL'' ''http://localhost:8080'',
     MaxMessageBytes = getEnvInt env ''MAX_MESSAGE_BYTES'' 26214400,
     SessionCookieName = getEnv env ''SESSION_COOKIE_NAME'' ''lite_mail_session'',
     SessionTTLHours = getEnvInt env ''SESSION_TTL_HOURS'' 24,
     NormalUserPSK = getEnv env ''NORMAL_USER_PSK'' [],
     AdminPSK = getEnv env ''ADMIN_PSK'' [],
     WorkerIngestPSK = getEnv env ''WORKER_INGEST_PSK'' [],
     ServerAddr = getEnv env ''SERVER_ADDR'' '':8080'',
     AppEnv = getEnv env ''APP_ENV'' ''production''\<rparr>"

text \<open>The zero value \<open>config.Config{}\<close>.\<close>

definition zero_config :: config where
  "zero_config = \<lparr>DatabaseURL = [], DataDir = [], PublicBaseURL = [], MaxMessageBytes = 0,
     SessionCookieName = [], SessionTTLHours = 0, NormalUserPSK = [], AdminPSK = [],
     WorkerIngestPSK = [], ServerAddr = [], AppEnv = []\<rparr>"

definition time_hour :: int where
  "time_hour = 3600000000000"

definition SessionTTL :: "config \<Rightarrow> int" where
  "SessionTTL c = wrap64 (SessionTTLHours c * time_hour)"

section \<open>Facts about the loaded configuration\<close>

lemma getEnvInt_in_int64: "in_int64 d \<Longrightarrow> in_int64 (getEnvInt env k d)"
  by (auto simp: getEnvInt_def dest: parse_int64_range split: option.splits)

lemma getEnvInt_format:
  "env k = format_int i \<Longrightarrow> in_int64 i \<Longrightarrow> getEnvInt env k d = i"
  by (simp add: getEnvInt_def parse_format_int)

lemma Load_in_int64: "in_int64 (MaxMessageBytes (Load env))" "in_int64 (SessionTTLHours (Load env))"
  using getEnvInt_in_int64 [of 26214400] getEnvInt_in_int64 [of 24]
  by (simp_all add: Load_def in_int64_iff)

lemma SessionTTL_exact:
  "0 \<le> SessionTTLHours c \<Longrightarrow> SessionTTLHours c \<le> 2562047 \<Longrightarrow>
   SessionTTL c = SessionTTLHours c * time_hour"
  by (simp add: SessionTTL_def time_hour_def in_int64_iff)

lemma SessionTTL_overflow:
  "2562048 \<le> SessionTTLHours c \<Longrightarrow> SessionTTLHours c \<le> 5124095 \<Longrightarrow> SessionTTL c < 0"
  unfolding SessionTTL_def by (rule wrap64_upper) (simp_all add: time_hour_def)

end
