(* ===== verification/Http.thy ===== *)
theory Http
  imports Go_Numbers
begin

text \<open>
  What the handlers see of \<open>net/http\<close>, \<open>io\<close> and \<open>encoding/json\<close>: body readers, requests, the
  response writer with its header map, and JSON values. A handler takes the request, the response
  writer as the middlewares before it left it, and the state it works on, and returns the response
  and the new state.
\<close>

section \<open>Readers\<close>

text \<open>An \<open>io.Reader\<close>: the bytes it delivers, then end of file or an error.\<close>

record reader =
  rd_bytes :: string
  rd_err :: "string option"

text \<open>\<open>io.ReadAll\<close>: the bytes read, and the error if there was one.\<close>

definition read_all :: "reader \<Rightarrow> string \<times> string option" where
  "read_all r = (rd_bytes r, rd_err r)"

text \<open>\<open>io.LimitReader\<close>: end of file after \<open>n\<close> bytes; the error of the underlying reader shows
  only if it comes before that.\<close>

definition limit_reader :: "int \<Rightarrow> reader \<Rightarrow> reader" where
  "limit_reader n r =
     (if n \<le> int (length (rd_bytes r)) then \<lparr>rd_bytes = take (nat n) (rd_bytes r), rd_err = None\<rparr>
      else r)"

text \<open>\<open>http.MaxBytesReader\<close>: more than \<open>n\<close> bytes is an error after the first \<open>n\<close>.\<close>

definition max_bytes_reader :: "int \<Rightarrow> reader \<Rightarrow> reader" where
  "max_bytes_reader n r =
     (if int (length (rd_bytes r)) \<le> n then r
      else \<lparr>rd_bytes = take (nat n) (rd_bytes r), rd_err = Some ''http: request body too large''\<rparr>)"

section \<open>Requests and responses\<close>

text \<open>JSON values as \<open>encoding/json\<close> writes them; \<open>JTime\<close> is a \<open>time.Time\<close>, written in RFC 3339.\<close>

datatype json =
    JStr string | JInt int | JBool bool | JTime int | JArr "json list" | JObj "(string \<times> json) list"

record cookie =
  ck_name :: string
  ck_value :: string
  ck_http_only :: bool
  ck_secure :: bool
  ck_same_site_lax :: bool
  ck_path :: string
  ck_max_age :: int
  ck_expires :: int

text \<open>
  \<open>rq_header\<close> is \<open>r.Header.Get\<close> (the empty string for an absent header), \<open>rq_query\<close> is
  \<open>r.URL.Query().Get\<close>, \<open>rq_param\<close> is \<open>chi.URLParam\<close>; \<open>rq_request_id\<close> is the request ID in the
  context, if the request passed the \<open>RequestID\<close> middleware.
\<close>

record request =
  rq_method :: string
  rq_path :: string
  rq_header :: "string \<Rightarrow> string"
  rq_remote_addr :: string
  rq_content_length :: int
  rq_body :: reader
  rq_cookies :: "(string \<times> string) list"
  rq_query :: "string \<Rightarrow> string"
  rq_param :: "string \<Rightarrow> string"
  rq_request_id :: "string option"

text \<open>The response writer before the body is written: the header map and the cookies added to it.\<close>

record writer =
  w_header :: "string \<rightharpoonup> string"
  w_cookies :: "cookie list"

datatype payload = Json json | Bytes string | NoBody

record response =
  rs_status :: int
  rs_writer :: writer
  rs_body :: payload

type_synonym 's handler = "request \<Rightarrow> writer \<Rightarrow> 's \<Rightarrow> response \<times> 's"

definition fresh_writer :: writer where
  "fresh_writer = \<lparr>w_header = Map.empty, w_cookies = []\<rparr>"

text \<open>The names \<open>net/http\<close> accepts for a cookie: tokens of RFC 7230.\<close>

definition is_token_char :: "char \<Rightarrow> bool" where
  "is_token_char c =
     (let b = byte c in 48 \<le> b \<and> b \<le> 57 \<or> 65 \<le> b \<and> b \<le> 90 \<or> 94 \<le> b \<and> b \<le> 122 \<or>
        b \<in> {33, 35, 36, 37, 38, 39, 42, 43, 45, 46, 124, 126})"

definition is_token :: "string \<Rightarrow> bool" where
  "is_token s \<longleftrightarrow> s \<noteq> [] \<and> list_all is_token_char s"

text \<open>
  \<open>w.Header().Set(k, v)\<close>, \<open>w.Header().Del(k)\<close>, and \<open>http.SetCookie(w, c)\<close>, which drops a cookie whose name is
  not a token.
\<close>

definition set_header :: "string \<Rightarrow> string \<Rightarrow> writer \<Rightarrow> writer" where
  "set_header k v w = w\<lparr>w_header := (w_header w)(k \<mapsto> v)\<rparr>"

definition del_header :: "string \<Rightarrow> writer \<Rightarrow> writer" where
  "del_header k w = w\<lparr>w_header := (w_header w)(k := None)\<rparr>"

definition add_cookie :: "cookie \<Rightarrow> writer \<Rightarrow> writer" where
  "add_cookie c w = (if is_token (ck_name c) then w\<lparr>w_cookies := w_cookies w @ [c]\<rparr> else w)"

text \<open>\<open>r.Cookie(name)\<close>: the first cookie of that name.\<close>

fun find_cookie :: "string \<Rightarrow> (string \<times> string) list \<Rightarrow> string option" where
  "find_cookie n [] = None"
| "find_cookie n ((m, v) # cs) = (if m = n then Some v else find_cookie n cs)"

text \<open>\<open>writeJSON\<close>, the same function in the packages \<open>ingest\<close>, \<open>auth\<close> and \<open>api\<close>.\<close>

definition writeJSON :: "writer \<Rightarrow> int \<Rightarrow> json \<Rightarrow> response" where
  "writeJSON w status body =
     \<lparr>rs_status = status, rs_writer = set_header ''Content-Type'' ''application/json'' w, rs_body = Json body\<rparr>"

definition json_error :: "string \<Rightarrow> json" where
  "json_error msg = JObj [(''error'', JStr msg)]"

text \<open>\<open>http.Error\<close> and \<open>http.NotFound\<close>.\<close>

definition http_error :: "writer \<Rightarrow> string \<Rightarrow> int \<Rightarrow> response" where
  "http_error w msg status =
     \<lparr>rs_status = status,
      rs_writer =
        set_header ''X-Content-Type-Options'' ''nosniff''
          (set_header ''Content-Type'' ''text/plain; charset=utf-8'' (del_header ''Content-Length'' w)),
      rs_body = Bytes (msg @ ''\<newline>'')\<rparr>"

definition http_not_found :: "writer \<Rightarrow> response" where
  "http_not_found w = http_error w ''404 page not found'' 404"

definition http_internal_error :: "writer \<Rightarrow> response" where
  "http_internal_error w = http_error w ''Internal Server Error'' 500"

lemma response_status_simps [simp]:
  "rs_status (writeJSON w st j) = st"
  "rs_body (writeJSON w st j) = Json j"
  "rs_status (http_error w m st) = st"
  "rs_status (http_not_found w) = 404"
  "rs_status (http_internal_error w) = 500"
  by (simp_all add: writeJSON_def http_error_def http_not_found_def http_internal_error_def)

lemma set_header_get [simp]:
  "w_header (set_header k v w) = (w_header w)(k \<mapsto> v)"
  "w_header (del_header k w) = (w_header w)(k := None)"
  "w_header (add_cookie c w) = w_header w"
  "w_cookies (set_header k v w) = w_cookies w"
  "w_cookies (del_header k w) = w_cookies w"
  "w_cookies (add_cookie c w) = w_cookies w @ (if is_token (ck_name c) then [c] else [])"
  by (simp_all add: set_header_def del_header_def add_cookie_def)

lemma writeJSON_writer [simp]:
  "rs_writer (writeJSON w st j) = set_header ''Content-Type'' ''application/json'' w"
  by (simp add: writeJSON_def)

lemma http_error_cookies [simp]: "w_cookies (rs_writer (http_error w m st)) = w_cookies w"
  by (simp add: http_error_def)

text \<open>A request with nothing in it, for the concrete evaluations.\<close>

definition blank_request :: request where
  "blank_request = \<lparr>rq_method = ''GET'', rq_path = ''/'', rq_header = (\<lambda>name. []), rq_remote_addr = ''192.0.2.1:1234'',
     rq_content_length = 0, rq_body = \<lparr>rd_bytes = [], rd_err = None\<rparr>, rq_cookies = [], rq_query = (\<lambda>name. []),
     rq_param = (\<lambda>name. []), rq_request_id = None\<rparr>"

end
