(* ===== verification/Externals.thy ===== *)
theory Externals
  imports Http
begin

text \<open>
  The code the server calls and does not contain: the mail and MIME parsers of Go's standard library
  and of \<open>golang.org/x/net/html/charset\<close>, \<open>jaytaylor.com/html2text\<close>, SHA-256, the JSON decoder, the
  Unicode tables, and the collation and full-text search of MariaDB. Each is a field of the record
  \<open>ext\<close>, an argument of every definition that reaches it. No field has a definition here; what a
  theorem needs of one is a named predicate on it.
\<close>

text \<open>\<open>mail.Header\<close>, a map from canonical header names to the values in order of appearance.\<close>

type_synonym mime_header = "string \<Rightarrow> string list"

text \<open>\<open>header.Get(name)\<close>.\<close>

definition header_get :: "mime_header \<Rightarrow> string \<Rightarrow> string" where
  "header_get h name = (case h name of [] \<Rightarrow> [] | v # _ \<Rightarrow> v)"

text \<open>
  A parse error is the text of the Go error, \<open>Inl\<close>. \<open>x_media\<close> is \<open>mime.ParseMediaType\<close> (media type,
  parameters with the empty string for an absent one, error); \<open>x_parts boundary body\<close> is what the
  loop over \<open>multipart.Reader.NextPart\<close> sees: the parts in order and the error that ends it, \<open>None\<close>
  for \<open>io.EOF\<close>; \<open>x_charset label\<close> is \<open>charset.NewReaderLabel\<close> followed by \<open>io.ReadAll\<close>, \<open>None\<close> for an
  unknown label and \<open>Some None\<close> for a read error. A time is a number of nanoseconds; the zero
  \<open>time.Time\<close> is \<open>None\<close>.
\<close>

record ext =
  x_lower :: "rune \<Rightarrow> rune"
  x_sha256 :: "string \<Rightarrow> string"
  x_login_json :: "reader \<Rightarrow> (string \<times> string) option"
  x_read_message :: "string \<Rightarrow> string + mime_header \<times> string"
  x_address :: "string \<Rightarrow> string + string"
  x_address_list :: "string \<Rightarrow> string + string list"
  x_date :: "mime_header \<Rightarrow> string + int option"
  x_media :: "string \<Rightarrow> string \<times> (string \<Rightarrow> string) \<times> string option"
  x_parts :: "string \<Rightarrow> reader \<Rightarrow> (mime_header \<times> reader) list \<times> string option"
  x_quoted_printable :: "reader \<Rightarrow> reader"
  x_base64 :: "reader \<Rightarrow> reader"
  x_charset :: "string \<Rightarrow> string \<Rightarrow> string option option"
  x_decode_header :: "string \<Rightarrow> string + string"
  x_html2text :: "string \<Rightarrow> string + string"
  x_collate :: "string \<Rightarrow> string"

text \<open>SHA-256 gives 32 bytes.\<close>

definition sha256_ok :: "ext \<Rightarrow> bool" where
  "sha256_ok E \<longleftrightarrow> (\<forall>s. length (x_sha256 E s) = 32)"

text \<open>
  A collation key decides equality in MariaDB (\<open>utf8mb4_unicode_ci\<close> ignores case and accents). Two
  different lower-case hexadecimal strings have different keys.
\<close>

definition collate_ok :: "ext \<Rightarrow> bool" where
  "collate_ok E \<longleftrightarrow>
     (\<forall>s t. list_all is_hex s \<longrightarrow> list_all is_hex t \<longrightarrow> x_collate E s = x_collate E t \<longrightarrow> s = t)"

text \<open>
  Instances for the concrete evaluations: a Latin-1 lower-case table, and external parsers that
  accept nothing but plain messages.
\<close>

definition latin1_lower :: "rune \<Rightarrow> rune" where
  "latin1_lower r = (if 192 \<le> r \<and> r \<le> 222 \<and> r \<noteq> 215 then r + 32 else r)"

lemma latin1_lower_ok: "unicode_lower_ok latin1_lower"
  by (auto simp: unicode_lower_ok_def lower_rune_def latin1_lower_def valid_rune_def is_space_def)

definition plain_ext :: ext where
  "plain_ext =
     \<lparr>x_lower = latin1_lower,
      x_sha256 = (\<lambda>s. take 32 (s @ replicate 32 (CHR 0x00))),
      x_login_json = (\<lambda>r. Some (rd_bytes r, ''Alice@example.org'')),
      x_read_message = (\<lambda>raw. Inr ((\<lambda>name. if name = ''To'' then [''Alice@example.org''] else []), raw)),
      x_address = Inr,
      x_address_list = (\<lambda>v. Inr [v]),
      x_date = (\<lambda>h. Inl ''mail: header not in message''),
      x_media = (\<lambda>v. (v, \<lambda>p. [], if v = [] then Some ''mime: no media type'' else None)),
      x_parts = (\<lambda>boundary body. ([], None)),
      x_quoted_printable = id,
      x_base64 = id,
      x_charset = (\<lambda>label s. None),
      x_decode_header = Inr,
      x_html2text = Inr,
      x_collate = id\<rparr>"

lemma plain_ext_ok: "sha256_ok plain_ext" "collate_ok plain_ext" "x_lower plain_ext = latin1_lower"
  by (auto simp: plain_ext_def sha256_ok_def collate_ok_def min_def)

end
