(* ===== verification/Session.thy ===== *)
theory Session
  imports Config Externals
begin

text \<open>
  \<open>internal/auth/session.go\<close>: sessions, the in-memory session store and the session cookies. The
  interface \<open>SessionStore\<close> of the source is the locale \<open>session_store\<close>; \<open>CookieSessionStore\<close> is its
  interpretation. The store keeps values, not pointers: \<open>Create\<close> and \<open>Get\<close> of the source copy the
  session (\<open>cloneSession\<close>), so no caller shares a record with the store, and the mutex makes every
  operation atomic.
\<close>

record session =
  s_email :: string
  s_admin :: bool
  s_expires :: int
  s_token :: string

datatype session_error = ErrSessionNotFound | ErrRandom string

record cookie_session_store =
  cs_cookie_name :: string
  cs_sessions :: "string \<rightharpoonup> session"

definition NewCookieSessionStore :: "string \<Rightarrow> cookie_session_store" where
  "NewCookieSessionStore cookieName =
     \<lparr>cs_cookie_name = (if cookieName = [] then ''lite_mail_session'' else cookieName),
      cs_sessions = Map.empty\<rparr>"

text \<open>\<open>rnd\<close> is what \<open>rand.Read\<close> puts into the 32-byte buffer, or its error.\<close>

type_synonym random = "string + string"

definition rand_ok :: "random \<Rightarrow> bool" where
  "rand_ok rnd \<longleftrightarrow> (case rnd of Inl e \<Rightarrow> True | Inr b \<Rightarrow> length b = 32)"

definition GenerateToken :: "random \<Rightarrow> session_error + string" where
  "GenerateToken rnd = (case rnd of Inl e \<Rightarrow> Inl (ErrRandom e) | Inr b \<Rightarrow> Inr (hex_encode b))"

definition cloneSession :: "session \<Rightarrow> session" where
  "cloneSession s = s"

text \<open>\<open>Create\<close> returns the session with the token it was stored under, which the source writes
  through the pointer.\<close>

definition store_Create :: "random \<Rightarrow> session \<Rightarrow> cookie_session_store \<Rightarrow>
    (session_error, session, cookie_session_store) outcome" where
  "store_Create rnd s st =
     andthen
       (if s_token s = [] then
          (case GenerateToken rnd of Inl e \<Rightarrow> (Inl e, st) | Inr t \<Rightarrow> (Inr (s\<lparr>s_token := t\<rparr>), st))
        else (Inr s, st))
       (\<lambda>s' st'. (Inr s', st'\<lparr>cs_sessions := (cs_sessions st')(s_token s' \<mapsto> cloneSession s')\<rparr>))"

definition store_Get :: "string \<Rightarrow> cookie_session_store \<Rightarrow> session_error + session" where
  "store_Get token st =
     (if token = [] then Inl ErrSessionNotFound
      else (case cs_sessions st token of None \<Rightarrow> Inl ErrSessionNotFound
            | Some s \<Rightarrow> Inr (cloneSession s)))"

definition store_Delete :: "string \<Rightarrow> cookie_session_store \<Rightarrow> cookie_session_store" where
  "store_Delete token st = st\<lparr>cs_sessions := (cs_sessions st)(token := None)\<rparr>"

section \<open>Cookies\<close>

definition sessionCookieName :: "config option \<Rightarrow> string" where
  "sessionCookieName cfg =
     (case cfg of None \<Rightarrow> ''lite_mail_session''
      | Some c \<Rightarrow> if SessionCookieName c = [] then ''lite_mail_session'' else SessionCookieName c)"

definition sessionMaxAge :: "config option \<Rightarrow> int" where
  "sessionMaxAge cfg =
     (case cfg of None \<Rightarrow> 24 * 3600
      | Some c \<Rightarrow> if SessionTTLHours c \<le> 0 then 24 * 3600 else wrap64 (SessionTTLHours c * 3600))"

definition cookie_secure :: "config option \<Rightarrow> bool" where
  "cookie_secure cfg = (case cfg of None \<Rightarrow> True | Some c \<Rightarrow> AppEnv c \<noteq> ''development'')"

definition NewSessionCookie :: "config option \<Rightarrow> string \<Rightarrow> int \<Rightarrow> cookie" where
  "NewSessionCookie cfg token expiresAt =
     \<lparr>ck_name = sessionCookieName cfg, ck_value = token, ck_http_only = True,
      ck_secure = cookie_secure cfg, ck_same_site_lax = True, ck_path = ''/'',
      ck_max_age = sessionMaxAge cfg, ck_expires = expiresAt\<rparr>"

definition ExpiredSessionCookie :: "config option \<Rightarrow> cookie" where
  "ExpiredSessionCookie cfg =
     \<lparr>ck_name = sessionCookieName cfg, ck_value = [], ck_http_only = True,
      ck_secure = cookie_secure cfg, ck_same_site_lax = True, ck_path = ''/'',
      ck_max_age = - 1, ck_expires = 0\<rparr>"

section \<open>The session store interface\<close>

text \<open>
  What a client of \<open>SessionStore\<close> may rely on. \<open>invar\<close> is the provider's own invariant; \<open>get\<close> never
  finds the empty token, a stored session is found under its own token only.
\<close>

locale session_store =
  fixes create :: "random \<Rightarrow> session \<Rightarrow> 's \<Rightarrow> (session_error, session, 's) outcome"
    and get :: "string \<Rightarrow> 's \<Rightarrow> session_error + session"
    and delete :: "string \<Rightarrow> 's \<Rightarrow> 's"
    and invar :: "'s \<Rightarrow> bool"
  assumes create_ok: "\<lbrakk>invar st; rand_ok rnd; create rnd s st = (Inr s', st')\<rbrakk> \<Longrightarrow>
      s_token s' \<noteq> [] \<and> s' = s\<lparr>s_token := s_token s'\<rparr> \<and> invar st' \<and>
      (\<forall>t. get t st' = (if t = s_token s' then Inr s' else get t st))"
    and create_err: "create rnd s st = (Inl e, st') \<Longrightarrow> st' = st"
    and get_empty: "get [] st = Inl ErrSessionNotFound"
    and get_token: "\<lbrakk>invar st; get t st = Inr s\<rbrakk> \<Longrightarrow> s_token s = t"
    and get_delete: "invar st \<Longrightarrow> get t (delete u st) = (if t = u then Inl ErrSessionNotFound else get t st)"
    and delete_invar: "invar st \<Longrightarrow> invar (delete u st)"
begin

lemma create_get:
  assumes "invar st" and "rand_ok rnd" and "create rnd s st = (Inr s', st')"
  shows "get (s_token s') st' = Inr s'"
  using create_ok [OF assms] by simp

lemma create_invar: "\<lbrakk>invar st; rand_ok rnd\<rbrakk> \<Longrightarrow> invar (snd (create rnd s st))"
  by (cases "create rnd s st"; cases "fst (create rnd s st)") (auto dest: create_err create_ok)

lemma delete_gone: "invar st \<Longrightarrow> get t (delete t st) = Inl ErrSessionNotFound"
  by (simp add: get_delete)

lemma delete_others: "invar st \<Longrightarrow> t \<noteq> u \<Longrightarrow> get t (delete u st) = get t st"
  by (simp add: get_delete)

end

section \<open>The in-memory store implements it\<close>

text \<open>Every session is stored under its own token, and no token is empty.\<close>

definition store_inv :: "cookie_session_store \<Rightarrow> bool" where
  "store_inv st \<longleftrightarrow> cs_sessions st [] = None \<and> (\<forall>t s. cs_sessions st t = Some s \<longrightarrow> s_token s = t)"

lemma hex_encode_Nil_iff [simp]: "hex_encode s = [] \<longleftrightarrow> s = []"
  by (metis length_0_conv length_hex_encode mult_is_0 zero_neq_numeral)

lemma GenerateToken_ok: "rand_ok rnd \<Longrightarrow> GenerateToken rnd = Inr t \<Longrightarrow> length t = 64 \<and> list_all is_hex t"
  by (auto simp: rand_ok_def GenerateToken_def list_all_iff hex_encode_hex split: sum.splits)

lemma NewCookieSessionStore_inv [inv_intros]: "store_inv (NewCookieSessionStore n)"
  by (simp add: store_inv_def NewCookieSessionStore_def)

lemma store_Create_ok:
  assumes "store_inv st" and "rand_ok rnd" and "store_Create rnd s st = (Inr s', st')"
  shows "s_token s' \<noteq> [] \<and> s' = s\<lparr>s_token := s_token s'\<rparr> \<and> store_inv st' \<and>
    (\<forall>t. store_Get t st' = (if t = s_token s' then Inr s' else store_Get t st))"
proof -
  have tok: "s_token s' \<noteq> []" and upd: "s' = s\<lparr>s_token := s_token s'\<rparr>"
    and st': "st' = st\<lparr>cs_sessions := (cs_sessions st)(s_token s' \<mapsto> s')\<rparr>"
    using assms(2,3) GenerateToken_ok [OF assms(2)]
    by (fastforce simp: store_Create_def cloneSession_def split: if_splits sum.splits)+
  have "store_inv st'" using assms(1) tok by (auto simp: store_inv_def st')
  with tok upd show ?thesis by (auto simp: store_Get_def st' cloneSession_def)
qed

lemma store_Create_err: "store_Create rnd s st = (Inl e, st') \<Longrightarrow> st' = st"
  by (auto simp: store_Create_def split: if_splits sum.splits)

lemma store_Delete_inv [inv_intros]: "store_inv st \<Longrightarrow> store_inv (store_Delete t st)"
  by (simp add: store_inv_def store_Delete_def)

interpretation css: session_store store_Create store_Get store_Delete store_inv
proof
  show "store_Get [] st = Inl ErrSessionNotFound" for st by (simp add: store_Get_def)
  show "s_token s = t" if "store_inv st" "store_Get t st = Inr s" for st t s
    using that by (auto simp: store_inv_def store_Get_def cloneSession_def split: if_splits option.splits)
  show "store_Get t (store_Delete u st) = (if t = u then Inl ErrSessionNotFound else store_Get t st)" for t u st
    by (simp add: store_Get_def store_Delete_def)
qed (fact store_Create_ok store_Create_err store_Delete_inv)+

end
