(* ===== verification/Auth.thy ===== *)
theory Auth
  imports Session
begin

text \<open>
  \<open>internal/auth/handler.go\<close> and \<open>internal/auth/middleware.go\<close>: login with a pre-shared key, logout,
  and the middlewares that let a request through with the session of its cookie. The handlers take
  the operations of the session store they use as arguments, as the source takes a \<open>SessionStore\<close>;
  \<open>now\<close> is \<open>time.Now()\<close> in nanoseconds. Log lines are not modelled.
\<close>

unbundle bit_operations_syntax

section \<open>Constant-time comparison\<close>

text \<open>\<open>subtle.ConstantTimeCompare\<close>: the lengths must agree, then all bytes are compared.\<close>

fun xor_acc :: "nat \<Rightarrow> string \<Rightarrow> string \<Rightarrow> nat" where
  "xor_acc v (x # xs) (y # ys) = xor_acc (v OR (byte x XOR byte y)) xs ys"
| "xor_acc v _ _ = v"

definition ConstantTimeCompare :: "string \<Rightarrow> string \<Rightarrow> int" where
  "ConstantTimeCompare x y =
     (if length x \<noteq> length y then 0 else if xor_acc 0 x y = 0 then 1 else 0)"

lemma nat_or_eq_0: "(a OR b = 0) \<longleftrightarrow> a = 0 \<and> b = (0::nat)"
  by (metis bit_eq_iff bit_0_eq bit_or_iff bot_apply bot_bool_def)

lemma nat_xor_eq_0: "(a XOR b = 0) \<longleftrightarrow> a = (b::nat)"
  by (metis bit_eq_iff bit_0_eq bit_xor_iff bot_apply bot_bool_def)

lemma xor_acc_0: "length x = length y \<Longrightarrow> xor_acc v x y = 0 \<longleftrightarrow> v = 0 \<and> x = y"
proof (induction v x y rule: xor_acc.induct)
  case (1 v x xs y ys)
  then show ?case by (auto simp: nat_or_eq_0 nat_xor_eq_0 dest: byte_inj)
qed auto

lemma ConstantTimeCompare_eq [simp]: "ConstantTimeCompare x y = 1 \<longleftrightarrow> x = y"
  by (auto simp: ConstantTimeCompare_def xor_acc_0)

section \<open>Login and logout\<close>

definition sessionTTL :: "config option \<Rightarrow> int" where
  "sessionTTL cfg =
     (case cfg of None \<Rightarrow> 24 * time_hour
      | Some c \<Rightarrow> if SessionTTLHours c \<le> 0 then 24 * time_hour else SessionTTL c)"

text \<open>The session a login request with key \<open>psk\<close> and address \<open>email\<close> gets, before its expiry and
  token are set: the \<open>switch\<close> of \<open>LoginHandler\<close>.\<close>

definition login_session :: "(rune \<Rightarrow> rune) \<Rightarrow> config \<Rightarrow> string \<Rightarrow> string \<Rightarrow> session option" where
  "login_session ul cfg psk email =
     (if AdminPSK cfg \<noteq> [] \<and> ConstantTimeCompare psk (AdminPSK cfg) = 1
      then Some \<lparr>s_email = ''admin'', s_admin = True, s_expires = 0, s_token = []\<rparr>
      else if NormalUserPSK cfg \<noteq> [] \<and> ConstantTimeCompare psk (NormalUserPSK cfg) = 1
      then (let e = to_lower ul (trim_space email)
            in if e = [] then None
               else Some \<lparr>s_email = e, s_admin = False, s_expires = 0, s_token = []\<rparr>)
      else None)"

definition login_response :: "session \<Rightarrow> json" where
  "login_response s =
     JObj [(''status'', JStr ''ok''), (''is_admin'', JBool (s_admin s)), (''email'', JStr (s_email s))]"

definition LoginHandler :: "ext \<Rightarrow> (random \<Rightarrow> session \<Rightarrow> 's \<Rightarrow> (session_error, session, 's) outcome) \<Rightarrow>
    config option \<Rightarrow> int \<Rightarrow> random \<Rightarrow> 's handler" where
  "LoginHandler E create config now rnd r w st =
     (if rq_method r \<noteq> ''POST'' then (writeJSON w 405 (json_error ''method not allowed''), st)
      else (case x_login_json E (rq_body r) of
        None \<Rightarrow> (writeJSON w 400 (json_error ''invalid json''), st)
      | Some (psk, email) \<Rightarrow>
          let cfg = (case config of None \<Rightarrow> zero_config | Some c \<Rightarrow> c) in
          (case login_session (x_lower E) cfg psk email of
             None \<Rightarrow> (writeJSON w 401 (json_error ''invalid credentials''), st)
           | Some s \<Rightarrow>
               (case create rnd (s\<lparr>s_expires := now + sessionTTL (Some cfg)\<rparr>) st of
                  (Inl e, st') \<Rightarrow> (writeJSON w 500 (json_error ''failed to create session''), st')
                | (Inr s', st') \<Rightarrow>
                    (writeJSON (add_cookie (NewSessionCookie (Some cfg) (s_token s') (s_expires s')) w)
                       200 (login_response s'), st')))))"

definition LogoutHandler :: "(string \<Rightarrow> 's \<Rightarrow> 's) \<Rightarrow> config option \<Rightarrow> 's handler" where
  "LogoutHandler delete config r w st =
     (if rq_method r \<noteq> ''POST'' then (writeJSON w 405 (json_error ''method not allowed''), st)
      else
        (writeJSON (add_cookie (ExpiredSessionCookie config) w) 200 (JObj [(''status'', JStr ''ok'')]),
         case find_cookie (sessionCookieName config) (rq_cookies r) of
           None \<Rightarrow> st | Some v \<Rightarrow> delete v st))"

section \<open>Middleware\<close>

text \<open>
  A protected handler gets the session from the context: \<open>SessionFromContext\<close> is its first argument,
  \<open>None\<close> for nil.
\<close>

type_synonym 's authed_handler = "session option \<Rightarrow> 's handler"

definition auth_required :: "writer \<Rightarrow> response" where
  "auth_required w = writeJSON w 401 (json_error ''authentication required'')"

definition RequireAuth :: "(string \<Rightarrow> 's \<Rightarrow> session_error + session) \<Rightarrow> (string \<Rightarrow> 's \<Rightarrow> 's) \<Rightarrow>
    config option \<Rightarrow> int \<Rightarrow> 's authed_handler \<Rightarrow> 's handler" where
  "RequireAuth get delete cfg now next r w st =
     (case find_cookie (sessionCookieName cfg) (rq_cookies r) of
        None \<Rightarrow> (auth_required w, st)
      | Some v \<Rightarrow>
          (case get v st of
             Inl e \<Rightarrow> (auth_required w, st)
           | Inr s \<Rightarrow>
               if now > s_expires s
               then (auth_required (add_cookie (ExpiredSessionCookie cfg) w), delete (s_token s) st)
               else next (Some s) r w st))"

definition RequireAdmin :: "'s authed_handler \<Rightarrow> 's authed_handler" where
  "RequireAdmin next session r w st =
     (case session of
        None \<Rightarrow> (writeJSON w 403 (json_error ''admin access required''), st)
      | Some s \<Rightarrow>
          if \<not> s_admin s then (writeJSON w 403 (json_error ''admin access required''), st)
          else next session r w st)"

definition CanAccessEmail :: "session option \<Rightarrow> string \<Rightarrow> bool" where
  "CanAccessEmail session email =
     (case session of None \<Rightarrow> False | Some s \<Rightarrow> s_admin s \<or> s_email s = email)"

section \<open>Who gets a session\<close>

lemma login_session_iff:
  "login_session ul cfg psk email = Some s \<longleftrightarrow>
     (AdminPSK cfg \<noteq> [] \<and> psk = AdminPSK cfg \<and>
        s = \<lparr>s_email = ''admin'', s_admin = True, s_expires = 0, s_token = []\<rparr>) \<or>
     ((AdminPSK cfg = [] \<or> psk \<noteq> AdminPSK cfg) \<and> NormalUserPSK cfg \<noteq> [] \<and> psk = NormalUserPSK cfg \<and>
        to_lower ul (trim_space email) \<noteq> [] \<and>
        s = \<lparr>s_email = to_lower ul (trim_space email), s_admin = False, s_expires = 0, s_token = []\<rparr>)"
  by (auto simp: login_session_def Let_def split: if_splits)

lemma login_session_admin:
  "login_session ul cfg psk email = Some s \<Longrightarrow> s_admin s \<longleftrightarrow> AdminPSK cfg \<noteq> [] \<and> psk = AdminPSK cfg"
  by (auto simp: login_session_iff)

lemma sessionTTL_default: "sessionTTL None = 86400000000000" "SessionTTLHours c \<le> 0 \<Longrightarrow> sessionTTL (Some c) = 86400000000000"
  by (simp_all add: sessionTTL_def time_hour_def)

lemma LoginHandler_ok:
  assumes "LoginHandler E create config now rnd r w st = (res, st')" and "rs_status res = 200"
  defines "cfg \<equiv> (case config of None \<Rightarrow> zero_config | Some c \<Rightarrow> c)"
  obtains psk email s s' where "rq_method r = ''POST''" "x_login_json E (rq_body r) = Some (psk, email)"
    and "login_session (x_lower E) cfg psk email = Some s"
    and "create rnd (s\<lparr>s_expires := now + sessionTTL (Some cfg)\<rparr>) st = (Inr s', st')"
    and "res = writeJSON (add_cookie (NewSessionCookie (Some cfg) (s_token s') (s_expires s')) w)
       200 (login_response s')"
  using assms
  by (auto simp: LoginHandler_def Let_def split: if_splits option.splits prod.splits sum.splits)

text \<open>A configured cookie name that is not a token: the login is answered with 200 and sets no cookie.\<close>

lemma login_without_cookie:
  assumes "LoginHandler E create config now rnd r w st = (res, st')" and "rs_status res = 200"
    and "\<not> is_token (sessionCookieName (Some (case config of None \<Rightarrow> zero_config | Some c \<Rightarrow> c)))"
  shows "w_cookies (rs_writer res) = w_cookies w"
  using assms(1,2) by (rule LoginHandler_ok) (use assms(3) in \<open>simp add: NewSessionCookie_def\<close>)

section \<open>Sessions over any session store\<close>

context session_store
begin

lemma auth_gate:
  "(rs_status (fst (RequireAuth get delete cfg now next r w st)) = 401) \<or>
   (\<exists>v s. find_cookie (sessionCookieName cfg) (rq_cookies r) = Some v \<and> get v st = Inr s \<and>
      now \<le> s_expires s \<and> RequireAuth get delete cfg now next r w st = next (Some s) r w st)"
  by (auto simp: RequireAuth_def auth_required_def split: option.splits sum.splits)

lemma auth_pass:
  assumes "find_cookie (sessionCookieName cfg) (rq_cookies r) = Some v" and "get v st = Inr s"
    and "now \<le> s_expires s"
  shows "RequireAuth get delete cfg now next r w st = next (Some s) r w st"
  using assms by (simp add: RequireAuth_def)

lemma login_opens:
  assumes inv: "invar st" and rnd: "rand_ok rnd"
    and login: "LoginHandler E create (Some c) now rnd r w st = (res, st')" "rs_status res = 200"
    and name: "is_token (sessionCookieName (Some c))"
  shows "\<exists>psk email s0 s. x_login_json E (rq_body r) = Some (psk, email) \<and>
     login_session (x_lower E) c psk email = Some s0 \<and> s_email s = s_email s0 \<and> s_admin s = s_admin s0 \<and>
     s_expires s = now + sessionTTL (Some c) \<and> invar st' \<and>
     s_token s = ck_value (last (w_cookies (rs_writer res))) \<and> get (s_token s) st' = Inr s"
proof -
  from login obtain psk email s0 s where j: "x_login_json E (rq_body r) = Some (psk, email)"
    and l: "login_session (x_lower E) c psk email = Some s0"
    and cr: "create rnd (s0\<lparr>s_expires := now + sessionTTL (Some c)\<rparr>) st = (Inr s, st')"
    and res: "res = writeJSON (add_cookie (NewSessionCookie (Some c) (s_token s) (s_expires s)) w)
       200 (login_response s)"
    by (rule LoginHandler_ok) simp
  note ok = create_ok [OF inv rnd cr]
  then have "s_expires s = now + sessionTTL (Some c)" "s_email s = s_email s0" "s_admin s = s_admin s0"
    by (metis session.select_convs session.surjective session.update_convs)+
  moreover have "s_token s = ck_value (last (w_cookies (rs_writer res)))" using res name by (simp add: NewSessionCookie_def)
  ultimately show ?thesis using j l ok by metis
qed

lemma login_then_request:
  assumes "invar st" and "rand_ok rnd"
    and "LoginHandler E create (Some c) now rnd r w st = (res, st')" "rs_status res = 200"
    and "is_token (sessionCookieName (Some c))"
    and cookie: "find_cookie (sessionCookieName (Some c)) (rq_cookies r2) =
      Some (ck_value (last (w_cookies (rs_writer res))))"
    and fresh: "now2 \<le> now + sessionTTL (Some c)"
  shows "\<exists>psk email s. x_login_json E (rq_body r) = Some (psk, email) \<and>
     (\<exists>s0. login_session (x_lower E) c psk email = Some s0 \<and>
        s_email s = s_email s0 \<and> s_admin s = s_admin s0) \<and>
     s_expires s = now + sessionTTL (Some c) \<and>
     RequireAuth get delete (Some c) now2 next r2 w2 st' = next (Some s) r2 w2 st'"
proof -
  obtain psk email s0 s where s: "x_login_json E (rq_body r) = Some (psk, email)"
    "login_session (x_lower E) c psk email = Some s0" "s_email s = s_email s0" "s_admin s = s_admin s0"
    "s_expires s = now + sessionTTL (Some c)" "s_token s = ck_value (last (w_cookies (rs_writer res)))"
    "get (s_token s) st' = Inr s"
    using login_opens [OF assms(1-5)] by blast
  have "RequireAuth get delete (Some c) now2 next r2 w2 st' = next (Some s) r2 w2 st'"
    by (rule auth_pass) (use cookie fresh s in simp_all)
  with s show ?thesis by blast
qed

lemma deleted_rejected:
  assumes "invar st" and "find_cookie (sessionCookieName cfg) (rq_cookies r) = Some v"
  shows "RequireAuth get delete cfg now next r w (delete v st) = (auth_required w, delete v st)"
  using assms by (simp add: RequireAuth_def delete_gone)

lemma logout_rejects:
  assumes "invar st" and "rq_method r = ''POST''"
    and "find_cookie (sessionCookieName cfg) (rq_cookies r) = Some v"
    and "find_cookie (sessionCookieName cfg) (rq_cookies r2) = Some v"
  shows "RequireAuth get delete cfg now next r2 w2 (snd (LogoutHandler delete cfg r w st)) =
     (auth_required w2, snd (LogoutHandler delete cfg r w st))"
  using deleted_rejected [OF assms(1,4)] assms(2,3) by (simp add: LogoutHandler_def)

lemma expired_step:
  assumes "invar st" and "find_cookie (sessionCookieName cfg) (rq_cookies r) = Some v"
    and "get v st = Inr s" and "s_expires s < now"
  shows "RequireAuth get delete cfg now next r w st =
     (auth_required (add_cookie (ExpiredSessionCookie cfg) w), delete v st)"
  using assms get_token [OF assms(1,3)] by (simp add: RequireAuth_def)

end

section \<open>Histories of the session store\<close>

text \<open>
  The requests that reach the session store, in the order the mutex serialises them. A protected
  request runs its handler, which does not touch the store.
\<close>

datatype auth_event =
    EvLogin int random request
  | EvLogout request
  | EvRequest int request

fun auth_step :: "ext \<Rightarrow> config option \<Rightarrow> auth_event \<Rightarrow> cookie_session_store \<Rightarrow> cookie_session_store" where
  "auth_step E cfg (EvLogin now rnd r) st =
     snd (LoginHandler E store_Create cfg now rnd r fresh_writer st)"
| "auth_step E cfg (EvLogout r) st = snd (LogoutHandler store_Delete cfg r fresh_writer st)"
| "auth_step E cfg (EvRequest now r) st =
     snd (RequireAuth store_Get store_Delete cfg now
       (\<lambda>s r w st. (http_not_found w, st)) r fresh_writer st)"

fun event_rand_ok :: "auth_event \<Rightarrow> bool" where
  "event_rand_ok (EvLogin now rnd r) = rand_ok rnd"
| "event_rand_ok _ = True"

inductive auth_history :: "ext \<Rightarrow> config option \<Rightarrow> auth_event list \<Rightarrow> cookie_session_store \<Rightarrow> bool"
  for E cfg where
  start: "auth_history E cfg [] (NewCookieSessionStore (sessionCookieName cfg))"
| step: "\<lbrakk>auth_history E cfg evs st; event_rand_ok ev\<rbrakk> \<Longrightarrow>
     auth_history E cfg (evs @ [ev]) (auth_step E cfg ev st)"

text \<open>A login event that could have produced the session \<open>s\<close>.\<close>

definition granted_by :: "ext \<Rightarrow> config option \<Rightarrow> auth_event \<Rightarrow> session \<Rightarrow> bool" where
  "granted_by E cfg ev s \<longleftrightarrow>
     (\<exists>now rnd r psk email s0. ev = EvLogin now rnd r \<and> rq_method r = ''POST'' \<and>
        x_login_json E (rq_body r) = Some (psk, email) \<and>
        login_session (x_lower E) (case cfg of None \<Rightarrow> zero_config | Some c \<Rightarrow> c) psk email = Some s0 \<and>
        s_email s = s_email s0 \<and> s_admin s = s_admin s0)"

lemma LoginHandler_store:
  assumes "store_inv st" and "rand_ok rnd"
  shows "store_inv (snd (LoginHandler E store_Create cfg now rnd r w st)) \<and>
    (\<forall>t s. store_Get t (snd (LoginHandler E store_Create cfg now rnd r w st)) = Inr s \<longrightarrow>
       store_Get t st = Inr s \<or> granted_by E cfg (EvLogin now rnd r) s)"
proof -
  obtain res st' where eq: "LoginHandler E store_Create cfg now rnd r w st = (res, st')" by fastforce
  show ?thesis
  proof (cases "rs_status res = 200")
    case True
    let ?c = "case cfg of None \<Rightarrow> zero_config | Some c \<Rightarrow> c"
    from eq True obtain psk email s0 s1 where m: "rq_method r = ''POST''"
      and j: "x_login_json E (rq_body r) = Some (psk, email)"
      and l: "login_session (x_lower E) ?c psk email = Some s0"
      and cr: "store_Create rnd (s0\<lparr>s_expires := now + sessionTTL (Some ?c)\<rparr>) st = (Inr s1, st')"
      by (rule LoginHandler_ok)
    note ok = css.create_ok [OF assms cr]
    then have "s_email s1 = s_email s0" "s_admin s1 = s_admin s0"
      by (metis session.select_convs session.surjective session.update_convs)+
    with m j l have "granted_by E cfg (EvLogin now rnd r) s1" by (auto simp: granted_by_def)
    with ok eq show ?thesis by (auto split: if_splits)
  next
    case False
    with eq have "st' = st"
      by (auto simp: LoginHandler_def Let_def split: if_splits option.splits prod.splits sum.splits
          dest: store_Create_err)
    with eq assms show ?thesis by simp
  qed
qed

lemma auth_step_store:
  assumes "store_inv st" and "event_rand_ok ev"
  shows "store_inv (auth_step E cfg ev st) \<and>
    (\<forall>t s. store_Get t (auth_step E cfg ev st) = Inr s \<longrightarrow> store_Get t st = Inr s \<or> granted_by E cfg ev s)"
proof (cases ev)
  case (EvLogin now rnd r)
  then show ?thesis using LoginHandler_store assms by simp
next
  case (EvLogout r)
  then show ?thesis
    using assms by (auto simp: LogoutHandler_def css.get_delete inv_intros split: option.splits if_splits)
next
  case (EvRequest now r)
  then show ?thesis
    using assms by (auto simp: RequireAuth_def css.get_delete inv_intros
        split: option.splits if_splits sum.splits)
qed

lemma auth_history_sessions:
  assumes "auth_history E cfg evs st"
  shows "store_inv st \<and> (\<forall>t s. store_Get t st = Inr s \<longrightarrow> (\<exists>ev \<in> set evs. granted_by E cfg ev s))"
  using assms
proof (induction rule: auth_history.induct)
  case start
  then show ?case
    by (simp add: NewCookieSessionStore_inv) (simp add: NewCookieSessionStore_def store_Get_def)
next
  case (step evs st ev)
  with auth_step_store [of st ev E cfg] show ?case by fastforce
qed

section \<open>Properties\<close>

text \<open>A configuration with keys, and the requests of a user who logs in and of one with a cookie.\<close>

definition demo_config :: config where
  "demo_config = zero_config\<lparr>NormalUserPSK := ''user-key'', AdminPSK := ''admin-key'', WorkerIngestPSK := ''worker-key'',
     SessionTTLHours := 1, DataDir := ''data''\<rparr>"

definition demo_login :: "string \<Rightarrow> request" where
  "demo_login psk = blank_request\<lparr>rq_method := ''POST'', rq_body := \<lparr>rd_bytes = psk, rd_err = None\<rparr>\<rparr>"

definition demo_random :: random where
  "demo_random = Inr (replicate 32 (CHR ''A''))"

definition demo_cookie :: "string \<Rightarrow> request" where
  "demo_cookie token = blank_request\<lparr>rq_cookies := [(''lite_mail_session'', token)]\<rparr>"

text \<open>
  Property C21: logging in opens a session. After a login that is answered with 200, and with a cookie name
  that is a token, a request that brings the cookie of that answer reaches the protected handler until the session lifetime is over, with
  the role and the address the key and the form stand for.
\<close>

theorem login_opens_session:
  assumes "store_inv st" and "rand_ok rnd"
    and "LoginHandler E store_Create (Some c) now rnd r w st = (res, st')" and "rs_status res = 200"
    and "is_token (sessionCookieName (Some c))"
    and "find_cookie (sessionCookieName (Some c)) (rq_cookies r2) = Some (ck_value (last (w_cookies (rs_writer res))))"
    and "now2 \<le> now + sessionTTL (Some c)"
  shows "\<exists>psk email s. x_login_json E (rq_body r) = Some (psk, email) \<and>
     (\<exists>s0. login_session (x_lower E) c psk email = Some s0 \<and> s_email s = s_email s0 \<and> s_admin s = s_admin s0) \<and>
     s_expires s = now + sessionTTL (Some c) \<and>
     RequireAuth store_Get store_Delete (Some c) now2 next r2 w2 st' = next (Some s) r2 w2 st'"
  by (rule css.login_then_request [OF assms])

definition demo_answer :: "string \<Rightarrow> response \<times> cookie_session_store" where
  "demo_answer psk = LoginHandler plain_ext store_Create (Some demo_config) 0 demo_random (demo_login psk)
     fresh_writer (NewCookieSessionStore [])"

definition demo_token :: string where
  "demo_token = hex_encode (replicate 32 (CHR ''A''))"

lemma demo_lower: "to_lower latin1_lower (trim_space ''Alice@example.org'') = ''alice@example.org''"
  by code_simp

lemma demo_keys:
  "login_session latin1_lower demo_config ''user-key'' ''Alice@example.org'' =
     Some \<lparr>s_email = ''alice@example.org'', s_admin = False, s_expires = 0, s_token = []\<rparr>"
  "login_session latin1_lower demo_config ''admin-key'' ''Alice@example.org'' =
     Some \<lparr>s_email = ''admin'', s_admin = True, s_expires = 0, s_token = []\<rparr>"
  by (simp_all add: login_session_iff demo_lower) (simp_all add: demo_config_def zero_config_def)

lemma demo_token_nonempty: "demo_token \<noteq> []"
  unfolding length_greater_0_conv [symmetric] demo_token_def by simp

lemma demo_create: "s_token s = [] \<Longrightarrow> store_Create demo_random s st =
    (Inr (s\<lparr>s_token := demo_token\<rparr>), st\<lparr>cs_sessions := (cs_sessions st)(demo_token \<mapsto> s\<lparr>s_token := demo_token\<rparr>)\<rparr>)"
  by (simp add: store_Create_def demo_random_def GenerateToken_def demo_token_def cloneSession_def)

lemmas demo_login_simps = LoginHandler_def demo_login_def demo_keys demo_create plain_ext_def

lemma demo_cookie_name: "is_token (sessionCookieName (Some demo_config))"
proof -
  have "sessionCookieName (Some demo_config) = ''lite_mail_session''"
    by (simp add: sessionCookieName_def demo_config_def zero_config_def)
  moreover have "is_token ''lite_mail_session''" by code_simp
  ultimately show ?thesis by simp
qed

lemma demo_answer_result:
  "rs_status (fst (demo_answer ''user-key'')) = 200"
  "ck_value (last (w_cookies (rs_writer (fst (demo_answer ''user-key''))))) = demo_token"
  using demo_cookie_name by (simp_all add: demo_answer_def demo_login_simps NewSessionCookie_def)

lemma demo_random_ok [simp]: "rand_ok demo_random"
  by (simp add: rand_ok_def demo_random_def)

definition demo_next :: "cookie_session_store authed_handler" where
  "demo_next s r w st = (writeJSON w 200 (JBool (s = None)), st)"

theorem login_opens_session_witness:
  "rs_status (fst (RequireAuth store_Get store_Delete (Some demo_config) 3600000000000 demo_next
      (demo_cookie demo_token) fresh_writer (snd (demo_answer ''user-key'')))) = 200"
proof -
  have c: "find_cookie (sessionCookieName (Some demo_config)) (rq_cookies (demo_cookie demo_token)) =
      Some (ck_value (last (w_cookies (rs_writer (fst (demo_answer ''user-key''))))))"
    unfolding demo_answer_result(2)
    by (simp add: demo_cookie_def sessionCookieName_def demo_config_def zero_config_def)
  have t: "3600000000000 \<le> (0::int) + sessionTTL (Some demo_config)" by code_simp
  have "\<exists>s. RequireAuth store_Get store_Delete (Some demo_config) 3600000000000 demo_next
      (demo_cookie demo_token) fresh_writer (snd (demo_answer ''user-key'')) =
    demo_next (Some s) (demo_cookie demo_token) fresh_writer (snd (demo_answer ''user-key''))"
    using login_opens_session [OF NewCookieSessionStore_inv demo_random_ok
      trans [OF demo_answer_def [symmetric] prod.collapse [symmetric]] demo_answer_result(1) demo_cookie_name c t] by blast
  then show ?thesis by (auto simp: demo_next_def)
qed

text \<open>
  Logging out ends the session. After a logout with a cookie, every request with that cookie
  is answered with 401 and its handler does not run, whoever holds the token.
\<close>

theorem logout_revokes:
  assumes "store_inv st" and "rq_method r = ''POST''"
    and "find_cookie (sessionCookieName cfg) (rq_cookies r) = Some v"
    and "find_cookie (sessionCookieName cfg) (rq_cookies r2) = Some v"
  shows "RequireAuth store_Get store_Delete cfg now next r2 w2 (snd (LogoutHandler store_Delete cfg r w st)) =
     (auth_required w2, snd (LogoutHandler store_Delete cfg r w st))"
  by (rule css.logout_rejects [OF assms])

definition demo_session :: session where
  "demo_session = \<lparr>s_email = ''alice@example.org'', s_admin = False, s_expires = 100, s_token = ''t0''\<rparr>"

definition demo_store :: cookie_session_store where
  "demo_store = \<lparr>cs_cookie_name = ''lite_mail_session'', cs_sessions = [''t0'' \<mapsto> demo_session]\<rparr>"

lemma demo_store_inv: "store_inv demo_store"
  by (simp add: store_inv_def demo_store_def demo_session_def)

theorem logout_revokes_witness:
  "rs_status (fst (RequireAuth store_Get store_Delete None 50 (\<lambda>s r w st. (writeJSON w 200 (JBool True), st))
    (demo_cookie ''t0'') fresh_writer
    (snd (LogoutHandler store_Delete None ((demo_cookie ''t0'')\<lparr>rq_method := ''POST''\<rparr>) fresh_writer demo_store)))) = 401"
  using logout_revokes [OF demo_store_inv, of "(demo_cookie ''t0'')\<lparr>rq_method := ''POST''\<rparr>" None "''t0''" "demo_cookie ''t0''"]
  by (simp add: demo_cookie_def sessionCookieName_def auth_required_def)

text \<open>
  An expired session is refused and forgotten. A request with the cookie of a session whose
  lifetime is over is answered with 401, the browser is told to drop the cookie, and the session leaves
  the store.
\<close>

theorem expired_session_removed:
  assumes "store_inv st" and "find_cookie (sessionCookieName cfg) (rq_cookies r) = Some v"
    and "store_Get v st = Inr s" and "s_expires s < now"
  shows "RequireAuth store_Get store_Delete cfg now next r w st =
     (auth_required (add_cookie (ExpiredSessionCookie cfg) w), store_Delete v st) \<and>
     store_Get v (store_Delete v st) = Inl ErrSessionNotFound"
  using css.expired_step [OF assms] css.delete_gone [OF assms(1)] by simp

theorem expired_session_removed_witness:
  "store_Get ''t0'' (snd (RequireAuth store_Get store_Delete None 101 (\<lambda>s r w st. (writeJSON w 200 (JBool True), st))
    (demo_cookie ''t0'') fresh_writer demo_store)) = Inl ErrSessionNotFound"
  using expired_session_removed [OF demo_store_inv, of None "demo_cookie ''t0''" "''t0''" demo_session 101
      "\<lambda>s r w st. (writeJSON w 200 (JBool True), st)" fresh_writer]
  by (simp add: demo_cookie_def sessionCookieName_def demo_store_def store_Get_def cloneSession_def demo_session_def)

text \<open>
  Property C23: where sessions come from. After any sequence of logins, logouts and requests, every session
  in the store was granted by one of the logins in it, with the address and role of that login; an
  administrator session by a login that presented the configured administrator key.
\<close>

theorem sessions_come_from_logins:
  assumes "auth_history E (Some c) evs st" and "store_Get t st = Inr s"
  shows "(\<exists>ev \<in> set evs. granted_by E (Some c) ev s) \<and>
    (s_admin s \<longrightarrow> (\<exists>now rnd r email. EvLogin now rnd r \<in> set evs \<and> AdminPSK c \<noteq> [] \<and>
       x_login_json E (rq_body r) = Some (AdminPSK c, email)))"
proof -
  obtain ev where ev: "ev \<in> set evs" and g: "granted_by E (Some c) ev s"
    using auth_history_sessions [OF assms(1)] assms(2) by blast
  from g obtain now rnd r psk email s0 where "ev = EvLogin now rnd r" "x_login_json E (rq_body r) = Some (psk, email)"
    "login_session (x_lower E) c psk email = Some s0" "s_admin s = s_admin s0"
    by (auto simp: granted_by_def)
  then show ?thesis using ev g login_session_admin by metis
qed

theorem sessions_come_from_logins_witness:
  "\<exists>st s. auth_history plain_ext (Some demo_config) [EvLogin 0 demo_random (demo_login ''admin-key'')] st \<and>
    store_Get demo_token st = Inr s \<and> s_admin s \<and>
    granted_by plain_ext (Some demo_config) (EvLogin 0 demo_random (demo_login ''admin-key'')) s"
proof -
  let ?e = "EvLogin 0 demo_random (demo_login ''admin-key'')"
  let ?st = "NewCookieSessionStore (sessionCookieName (Some demo_config))"
  have h: "auth_history plain_ext (Some demo_config) [?e] (auth_step plain_ext (Some demo_config) ?e ?st)"
    using auth_history.step [OF auth_history.start, of ?e] by simp
  let ?s = "\<lparr>s_email = ''admin'', s_admin = True, s_expires = sessionTTL (Some demo_config), s_token = demo_token\<rparr>"
  have "store_Get demo_token (auth_step plain_ext (Some demo_config) ?e ?st) = Inr ?s"
    by (simp add: demo_login_simps store_Get_def demo_token_nonempty cloneSession_def)
  then show ?thesis using h sessions_come_from_logins [OF h] by fastforce
qed

text \<open>
  The key comparison: the accumulating loop of \<open>subtle.ConstantTimeCompare\<close> gives 1 for
  equal keys and 0 for all others, of equal or different length.
\<close>

theorem constant_time_compare: "ConstantTimeCompare x y = (if x = y then 1 else 0)"
  using ConstantTimeCompare_eq [of x y] by (auto simp: ConstantTimeCompare_def)

text \<open>
  A lifetime of 2562048 hours or more does not fit a \<open>time.Duration\<close>: the login succeeds, and the session it
  opens is over before the next request.
\<close>

theorem session_ttl_overflow:
  assumes "store_inv st" and "rand_ok rnd"
    and "LoginHandler E store_Create (Some c) now rnd r w st = (res, st')" and "rs_status res = 200"
    and "is_token (sessionCookieName (Some c))"
    and "find_cookie (sessionCookieName (Some c)) (rq_cookies r2) = Some (ck_value (last (w_cookies (rs_writer res))))"
    and "2562048 \<le> SessionTTLHours c" and "SessionTTLHours c \<le> 5124095" and "now \<le> now2"
  shows "rs_status (fst (RequireAuth store_Get store_Delete (Some c) now2 next r2 w2 st')) = 401"
proof -
  obtain s where s: "s_expires s = now + sessionTTL (Some c)" "s_token s = ck_value (last (w_cookies (rs_writer res)))"
    "store_Get (s_token s) st' = Inr s" "store_inv st'"
    using css.login_opens [OF assms(1-5)] by blast
  have "sessionTTL (Some c) < 0" using SessionTTL_overflow [OF assms(7,8)] assms(7) by (simp add: sessionTTL_def)
  then have "s_expires s < now2" using s(1) assms(9) by simp
  then show ?thesis
    using css.expired_step [OF s(4) _ s(3), of "Some c" r2] assms(6) s(2) by (simp add: auth_required_def)
qed

end
