(* ===== verification/Database.thy ===== *)
theory Database
  imports Externals
begin

text \<open>
  The mailbox tables of \<open>internal/db/migrations/001_create_mailbox_tables.up.sql\<close> and the SQL
  statements of the packages \<open>ingest\<close> and \<open>api\<close>, with the constraints the schema puts on them:
  column widths, \<open>ENUM\<close> values, \<open>utf8mb4\<close> text, foreign keys, unique indexes and \<open>AUTO_INCREMENT\<close> (a
  counter that a rollback does not reset). Rows are kept in insertion order. Text is compared with
  the collation key \<open>x_collate\<close>. Like the file system, the database takes a queue of faults: every
  statement consumes the next one, and a \<open>DLost\<close> fault means that the statement was carried out but
  its acknowledgement never arrived.
\<close>

record message_row =
  m_id :: int
  m_cloudflare_id :: string
  m_hash :: string
  m_sender :: string
  m_subject :: "string option"
  m_date :: int
  m_received :: int
  m_text :: "string option"
  m_html :: "string option"
  m_raw_path :: string
  m_status :: string
  m_error :: "string option"

record recipient_row =
  r_id :: int
  r_message :: int
  r_email :: string
  r_type :: string
  r_received :: int

record attachment_row =
  a_id :: int
  a_message :: int
  a_key :: string
  a_filename :: "string option"
  a_mime :: string
  a_size :: int
  a_hash :: string

record ingest_row =
  e_id :: int
  e_cloudflare_id :: string
  e_hash :: string
  e_status :: string

datatype db_fault = DNone | DFail | DLost

record tables =
  db_messages :: "message_row list"
  db_recipients :: "recipient_row list"
  db_attachments :: "attachment_row list"
  db_events :: "ingest_row list"

record database =
  db_tables :: tables
  db_next_message :: int
  db_next_recipient :: int
  db_next_attachment :: int
  db_next_event :: int
  db_faults :: "db_fault list"

text \<open>\<open>sql.ErrNoRows\<close>, a failure of the connection, a statement the server refuses.\<close>

datatype db_error = ErrNoRows | ErrConn | ErrStatement

type_synonym 'a db_result = "(db_error, 'a, database) outcome"

definition empty_tables :: tables where
  "empty_tables = \<lparr>db_messages = [], db_recipients = [], db_attachments = [], db_events = []\<rparr>"

definition empty_database :: "db_fault list \<Rightarrow> database" where
  "empty_database faults = \<lparr>db_tables = empty_tables, db_next_message = 1, db_next_recipient = 1,
     db_next_attachment = 1, db_next_event = 1, db_faults = faults\<rparr>"

definition next_db_fault :: "database \<Rightarrow> db_fault \<times> database" where
  "next_db_fault db =
     (case db_faults db of [] \<Rightarrow> (DNone, db) | f # rest \<Rightarrow> (f, db\<lparr>db_faults := rest\<rparr>))"

text \<open>A statement: it is refused, lost on the way there, lost on the way back, or carried out.\<close>

definition exec_stmt :: "(database \<Rightarrow> 'a db_result) \<Rightarrow> database \<Rightarrow> 'a db_result" where
  "exec_stmt f db0 =
     (case next_db_fault db0 of (flt, db) \<Rightarrow>
        (case flt of
           DNone \<Rightarrow> f db
         | DFail \<Rightarrow> (Inl ErrConn, db)
         | DLost \<Rightarrow> (Inl ErrConn, snd (f db))))"

section \<open>Column types\<close>

definition same_text :: "ext \<Rightarrow> string \<Rightarrow> string \<Rightarrow> bool" where
  "same_text E s t \<longleftrightarrow> x_collate E s = x_collate E t"

text \<open>\<open>VARCHAR(n)\<close> counts characters; text that is not UTF-8 is refused in strict mode.\<close>

definition varchar_ok :: "nat \<Rightarrow> string \<Rightarrow> bool" where
  "varchar_ok n s \<longleftrightarrow> valid_utf8 s \<and> length (decode_runes s) \<le> n"

definition text_ok :: "nat \<Rightarrow> string \<Rightarrow> bool" where
  "text_ok n s \<longleftrightarrow> valid_utf8 s \<and> length s < n"

abbreviation longtext_bytes :: nat where
  "longtext_bytes \<equiv> 4294967296"

abbreviation text_bytes :: nat where
  "text_bytes \<equiv> 65536"

text \<open>\<open>DATETIME\<close> keeps whole seconds.\<close>

definition datetime :: "int \<Rightarrow> int" where
  "datetime t = t div 1000000000 * 1000000000"

definition message_ok :: "message_row \<Rightarrow> bool" where
  "message_ok m \<longleftrightarrow> varchar_ok 255 (m_cloudflare_id m) \<and> varchar_ok 64 (m_hash m) \<and>
     varchar_ok 500 (m_sender m) \<and> pred_option (varchar_ok 1000) (m_subject m) \<and>
     pred_option (text_ok longtext_bytes) (m_text m) \<and> pred_option (text_ok longtext_bytes) (m_html m) \<and>
     varchar_ok 1000 (m_raw_path m) \<and> m_status m \<in> {''success'', ''partial'', ''failed''} \<and>
     pred_option (text_ok text_bytes) (m_error m)"

definition recipient_ok :: "recipient_row \<Rightarrow> bool" where
  "recipient_ok r \<longleftrightarrow> varchar_ok 500 (r_email r) \<and> r_type r \<in> {''to'', ''cc'', ''bcc''}"

definition attachment_ok :: "attachment_row \<Rightarrow> bool" where
  "attachment_ok a \<longleftrightarrow> varchar_ok 500 (a_key a) \<and> pred_option (varchar_ok 500) (a_filename a) \<and>
     varchar_ok 255 (a_mime a) \<and> in_int64 (a_size a) \<and> varchar_ok 64 (a_hash a)"

definition event_ok :: "ingest_row \<Rightarrow> bool" where
  "event_ok e \<longleftrightarrow> varchar_ok 255 (e_cloudflare_id e) \<and> varchar_ok 64 (e_hash e) \<and>
     e_status e \<in> {''accepted'', ''duplicate'', ''rejected''}"

section \<open>Inserts\<close>

text \<open>
  The id of a new row is the counter of its table. A row that breaks a column type is refused before
  it gets an id; one that breaks a unique index or a foreign key has used it up.
\<close>

definition insert_message :: "message_row \<Rightarrow> database \<Rightarrow> int db_result" where
  "insert_message m db =
     (let n = db_next_message db; m' = m\<lparr>m_id := n, m_date := datetime (m_date m), m_received := datetime (m_received m)\<rparr>
      in if \<not> message_ok m' \<or> int64_max < n then (Inl ErrStatement, db)
         else (Inr n, db\<lparr>db_tables := (db_tables db)\<lparr>db_messages := db_messages (db_tables db) @ [m']\<rparr>,
                         db_next_message := n + 1\<rparr>))"

definition message_exists :: "int \<Rightarrow> tables \<Rightarrow> bool" where
  "message_exists i t \<longleftrightarrow> list_ex (\<lambda>m. m_id m = i) (db_messages t)"

definition insert_recipient :: "recipient_row \<Rightarrow> database \<Rightarrow> unit db_result" where
  "insert_recipient r db =
     (let n = db_next_recipient db; r' = r\<lparr>r_id := n, r_received := datetime (r_received r)\<rparr>;
          db1 = db\<lparr>db_next_recipient := n + 1\<rparr>
      in if \<not> recipient_ok r' \<or> int64_max < n then (Inl ErrStatement, db)
         else if \<not> message_exists (r_message r) (db_tables db) then (Inl ErrStatement, db1)
         else (Inr (), db1\<lparr>db_tables := (db_tables db)\<lparr>db_recipients := db_recipients (db_tables db) @ [r']\<rparr>\<rparr>))"

definition insert_attachment :: "ext \<Rightarrow> attachment_row \<Rightarrow> database \<Rightarrow> unit db_result" where
  "insert_attachment E a db =
     (let n = db_next_attachment db; a' = a\<lparr>a_id := n\<rparr>; db1 = db\<lparr>db_next_attachment := n + 1\<rparr>
      in if \<not> attachment_ok a' \<or> int64_max < n then (Inl ErrStatement, db)
         else if \<not> message_exists (a_message a) (db_tables db) \<or>
                 list_ex (\<lambda>b. same_text E (a_key b) (a_key a)) (db_attachments (db_tables db))
         then (Inl ErrStatement, db1)
         else (Inr (), db1\<lparr>db_tables := (db_tables db)\<lparr>db_attachments := db_attachments (db_tables db) @ [a']\<rparr>\<rparr>))"

definition insert_event :: "ext \<Rightarrow> ingest_row \<Rightarrow> database \<Rightarrow> unit db_result" where
  "insert_event E e db =
     (let n = db_next_event db; e' = e\<lparr>e_id := n\<rparr>; db1 = db\<lparr>db_next_event := n + 1\<rparr>
      in if \<not> event_ok e' \<or> int64_max < n then (Inl ErrStatement, db)
         else if list_ex (\<lambda>f. same_text E (e_cloudflare_id f) (e_cloudflare_id e) \<and> same_text E (e_hash f) (e_hash e))
                 (db_events (db_tables db))
         then (Inl ErrStatement, db1)
         else (Inr (), db1\<lparr>db_tables := (db_tables db)\<lparr>db_events := db_events (db_tables db) @ [e']\<rparr>\<rparr>))"

section \<open>Transactions\<close>

definition db_begin :: "database \<Rightarrow> unit db_result" where
  "db_begin = exec_stmt (\<lambda>db. (Inr (), db))"

text \<open>\<open>tx.Rollback()\<close>: the tables of the beginning come back, the counters do not.\<close>

definition db_rollback :: "tables \<Rightarrow> database \<Rightarrow> database" where
  "db_rollback t db = db\<lparr>db_tables := t\<rparr>"

text \<open>\<open>tx.Commit()\<close> with the tables at the beginning of the transaction.\<close>

definition db_commit :: "tables \<Rightarrow> database \<Rightarrow> unit db_result" where
  "db_commit t db0 =
     (case next_db_fault db0 of (flt, db) \<Rightarrow>
        (case flt of
           DNone \<Rightarrow> (Inr (), db)
         | DFail \<Rightarrow> (Inl ErrConn, db_rollback t db)
         | DLost \<Rightarrow> (Inl ErrConn, db)))"

section \<open>Invariant\<close>

text \<open>
  Rows are in the order of their ids, ids are positive and below the counter, children refer to
  messages that exist, and the unique index of \<open>ingest_events\<close> holds.
\<close>

definition ids_ok :: "int list \<Rightarrow> int \<Rightarrow> bool" where
  "ids_ok ids n \<longleftrightarrow> sorted_wrt (<) ids \<and> (\<forall>i \<in> set ids. 0 < i \<and> i < n) \<and> 0 < n"

definition db_inv :: "ext \<Rightarrow> database \<Rightarrow> bool" where
  "db_inv E db \<longleftrightarrow>
     (let t = db_tables db in
        ids_ok (map m_id (db_messages t)) (db_next_message db) \<and>
        ids_ok (map r_id (db_recipients t)) (db_next_recipient db) \<and>
        ids_ok (map a_id (db_attachments t)) (db_next_attachment db) \<and>
        ids_ok (map e_id (db_events t)) (db_next_event db) \<and>
        (\<forall>r \<in> set (db_recipients t). r_message r \<in> m_id ` set (db_messages t)) \<and>
        (\<forall>a \<in> set (db_attachments t). a_message a \<in> m_id ` set (db_messages t)) \<and>
        distinct (map (\<lambda>a. x_collate E (a_key a)) (db_attachments t)) \<and>
        distinct (map (\<lambda>e. (x_collate E (e_cloudflare_id e), x_collate E (e_hash e))) (db_events t)))"

lemma ids_ok_snoc: "ids_ok ids n \<Longrightarrow> ids_ok (ids @ [n]) (n + 1)"
  by (auto simp: ids_ok_def sorted_wrt_append)

lemma ids_ok_bump: "ids_ok ids n \<Longrightarrow> ids_ok ids (n + 1)"
  by (auto simp: ids_ok_def)

lemma ids_ok_distinct: "ids_ok ids n \<Longrightarrow> distinct ids"
  unfolding ids_ok_def using strict_sorted_iff by blast

lemma empty_database_inv [inv_intros]: "db_inv E (empty_database fs)"
  by (simp add: db_inv_def empty_database_def empty_tables_def ids_ok_def)

lemma db_inv_faults [simp]: "db_inv E (db\<lparr>db_faults := f\<rparr>) = db_inv E db"
  by (simp add: db_inv_def)

lemma next_db_fault_keeps:
  "next_db_fault db = (f, db1) \<Longrightarrow> db1 = db\<lparr>db_faults := tl (db_faults db)\<rparr>"
  by (cases db) (auto simp: next_db_fault_def split: list.splits)

lemma exec_stmt_keeps:
  assumes "P db" and "\<And>d. P d \<Longrightarrow> P (snd (f d))" and "\<And>d fs. P d \<Longrightarrow> P (d\<lparr>db_faults := fs\<rparr>)"
  shows "P (snd (exec_stmt f db))"
proof -
  obtain flt db1 where n: "next_db_fault db = (flt, db1)" by fastforce
  have "P db1" using assms(1,3) next_db_fault_keeps [OF n] by simp
  then show ?thesis using assms(2) n by (cases flt) (simp_all add: exec_stmt_def)
qed

lemma insert_message_inv [inv_intros]: "db_inv E db \<Longrightarrow> db_inv E (snd (insert_message m db))"
  by (auto simp: insert_message_def db_inv_def Let_def ids_ok_snoc)

lemma message_exists_iff: "message_exists i t \<longleftrightarrow> i \<in> m_id ` set (db_messages t)"
  by (auto simp: message_exists_def list_ex_iff)

lemma insert_recipient_inv [inv_intros]: "db_inv E db \<Longrightarrow> db_inv E (snd (insert_recipient r db))"
  by (auto simp: insert_recipient_def db_inv_def Let_def ids_ok_snoc ids_ok_bump message_exists_iff)

lemma insert_attachment_inv [inv_intros]: "db_inv E db \<Longrightarrow> db_inv E (snd (insert_attachment E a db))"
  by (auto simp: insert_attachment_def db_inv_def Let_def ids_ok_snoc ids_ok_bump message_exists_iff
      same_text_def list_ex_iff)

lemma insert_event_inv [inv_intros]: "db_inv E db \<Longrightarrow> db_inv E (snd (insert_event E e db))"
  by (auto simp: insert_event_def db_inv_def Let_def ids_ok_snoc ids_ok_bump same_text_def list_ex_iff)

end
