(* ===== verification/Storage.thy ===== *)
theory Storage
  imports Go_Numbers
begin

text \<open>
  \<open>internal/storage/storage.go\<close>: raw messages and attachments as files below a base directory, over a
  model of the calls of \<open>os\<close> and \<open>path/filepath\<close> it makes. A path is what \<open>filepath.Join\<close> returns,
  kept as its cleaned components. The file system takes a queue of faults: every call consumes the
  next one, so a theorem over all queues covers every pattern of failing calls, and a write may fail
  after part of the data reached the disk.
\<close>

section \<open>Paths\<close>

text \<open>Absolute or not, and the components.\<close>

type_synonym path = "bool \<times> string list"

abbreviation slash :: char where
  "slash \<equiv> CHR 0x2F"

abbreviation backslash :: char where
  "backslash \<equiv> CHR 0x5C"

text \<open>\<open>filepath.Clean\<close> on the components; \<open>acc\<close> holds the ones kept so far, last first.\<close>

fun clean_comps :: "bool \<Rightarrow> string list \<Rightarrow> string list \<Rightarrow> string list" where
  "clean_comps rooted acc [] = rev acc"
| "clean_comps rooted acc (c # cs) =
     (if c = [] \<or> c = ''.'' then clean_comps rooted acc cs
      else if c = ''..'' then
        (case acc of
           [] \<Rightarrow> clean_comps rooted (if rooted then [] else [''..'']) cs
         | a # as \<Rightarrow> clean_comps rooted (if a = ''..'' then ''..'' # acc else as) cs)
      else clean_comps rooted (c # acc) cs)"

definition path_of :: "string \<Rightarrow> path" where
  "path_of s =
     (let rooted = (s \<noteq> [] \<and> hd s = slash) in (rooted, clean_comps rooted [] (split_on slash s)))"

definition filepath_Join :: "string list \<Rightarrow> path" where
  "filepath_Join elems = path_of (join_with [slash] (filter (\<lambda>e. e \<noteq> []) elems))"

definition filepath_Dir :: "path \<Rightarrow> path" where
  "filepath_Dir p = (fst p, butlast (snd p))"

definition filepath_Base :: "string \<Rightarrow> string" where
  "filepath_Base p =
     (if p = [] then ''.''
      else let q = rev (dropWhile (\<lambda>c. c = slash) (rev p))
           in if q = [] then [slash] else last (split_on slash q))"

section \<open>The file system\<close>

datatype fs_fault = FNone | FFail | FPartial nat

record filesystem =
  fs_files :: "path \<Rightarrow> string option"
  fs_dirs :: "path \<Rightarrow> bool"
  fs_faults :: "fs_fault list"

definition next_fault :: "filesystem \<Rightarrow> fs_fault \<times> filesystem" where
  "next_fault fs =
     (case fs_faults fs of [] \<Rightarrow> (FNone, fs) | f # rest \<Rightarrow> (f, fs\<lparr>fs_faults := rest\<rparr>))"

text \<open>The working directory and the root are always there.\<close>

definition is_dir :: "path \<Rightarrow> filesystem \<Rightarrow> bool" where
  "is_dir p fs \<longleftrightarrow> snd p = [] \<or> fs_dirs fs p"

datatype stat_result = StatFound | StatNotExist | StatError

definition file_above :: "path \<Rightarrow> filesystem \<Rightarrow> bool" where
  "file_above p fs \<longleftrightarrow> list_ex (\<lambda>n. fs_files fs (fst p, take n (snd p)) \<noteq> None) [0..<length (snd p)]"

text \<open>\<open>os.Stat\<close>: a file where a directory of the path should be is an error, but not \<open>os.ErrNotExist\<close>.\<close>

definition os_Stat :: "path \<Rightarrow> filesystem \<Rightarrow> stat_result \<times> filesystem" where
  "os_Stat p fs0 =
     (case next_fault fs0 of (f, fs) \<Rightarrow>
        if f \<noteq> FNone \<or> file_above p fs then (StatError, fs)
        else if is_dir p fs \<or> fs_files fs p \<noteq> None then (StatFound, fs)
        else (StatNotExist, fs))"

text \<open>\<open>os.MkdirAll\<close>: every missing directory on the way; a file on the way is an error.\<close>

definition dir_prefix :: "path \<Rightarrow> path \<Rightarrow> bool" where
  "dir_prefix q p \<longleftrightarrow> fst q = fst p \<and> take (length (snd q)) (snd p) = snd q"

definition os_MkdirAll :: "path \<Rightarrow> filesystem \<Rightarrow> bool \<times> filesystem" where
  "os_MkdirAll p fs0 =
     (case next_fault fs0 of (f, fs) \<Rightarrow>
        if f \<noteq> FNone \<or> list_ex (\<lambda>n. fs_files fs (fst p, take n (snd p)) \<noteq> None) [0..<Suc (length (snd p))]
        then (False, fs)
        else (True, fs\<lparr>fs_dirs := (\<lambda>q. fs_dirs fs q \<or> dir_prefix q p)\<rparr>))"

text \<open>\<open>os.WriteFile\<close> truncates, then writes; a failure in between leaves a prefix behind.\<close>

definition os_WriteFile :: "path \<Rightarrow> string \<Rightarrow> filesystem \<Rightarrow> bool \<times> filesystem" where
  "os_WriteFile p data fs0 =
     (case next_fault fs0 of (f, fs) \<Rightarrow>
        if f = FFail \<or> is_dir p fs \<or> \<not> is_dir (filepath_Dir p) fs then (False, fs)
        else (case f of
           FPartial n \<Rightarrow> (False, fs\<lparr>fs_files := (fs_files fs)(p \<mapsto> take n data)\<rparr>)
         | _ \<Rightarrow> (True, fs\<lparr>fs_files := (fs_files fs)(p \<mapsto> data)\<rparr>)))"

definition os_ReadFile :: "path \<Rightarrow> filesystem \<Rightarrow> string option \<times> filesystem" where
  "os_ReadFile p fs0 =
     (case next_fault fs0 of (f, fs) \<Rightarrow> if f \<noteq> FNone then (None, fs) else (fs_files fs p, fs))"

section \<open>Storage\<close>

datatype storage_error =
    BaseDirRequired | CreateRawDir | CreateAttachmentsDir
  | InvalidKey | StatRaw | CreateRawMIMEDir | WriteRaw | ReadRaw
  | BadMessageID | CreateAttachmentDir | WriteAttachment | ReadAttachmentErr

type_synonym 'a storage_result = "(storage_error, 'a, filesystem) outcome"

definition NewStorage :: "string \<Rightarrow> filesystem \<Rightarrow> string storage_result" where
  "NewStorage baseDir fs =
     (if trim_space baseDir = [] then (Inl BaseDirRequired, fs)
      else (case os_MkdirAll (filepath_Join [baseDir, ''raw'']) fs of
        (False, fs1) \<Rightarrow> (Inl CreateRawDir, fs1)
      | (True, fs1) \<Rightarrow>
          (case os_MkdirAll (filepath_Join [baseDir, ''attachments'']) fs1 of
             (False, fs2) \<Rightarrow> (Inl CreateAttachmentsDir, fs2)
           | (True, fs2) \<Rightarrow> (Inr baseDir, fs2))))"

definition validateKey :: "string \<Rightarrow> bool" where
  "validateKey key \<longleftrightarrow> \<not> (key = [] \<or> filepath_Base key \<noteq> key \<or> contains_any key [slash, backslash])"

definition raw_path :: "string \<Rightarrow> string \<Rightarrow> path" where
  "raw_path base key = filepath_Join [base, ''raw'', key]"

definition attachment_path :: "string \<Rightarrow> int \<Rightarrow> string \<Rightarrow> path" where
  "attachment_path base messageID key = filepath_Join [base, ''attachments'', format_int messageID, key]"

definition SaveRawMIME :: "string \<Rightarrow> string \<Rightarrow> string \<Rightarrow> filesystem \<Rightarrow> unit storage_result" where
  "SaveRawMIME base contentHash data fs =
     (if \<not> validateKey contentHash then (Inl InvalidKey, fs)
      else let path = raw_path base contentHash in
        (case os_Stat path fs of
           (StatFound, fs1) \<Rightarrow> (Inr (), fs1)
         | (StatError, fs1) \<Rightarrow> (Inl StatRaw, fs1)
         | (StatNotExist, fs1) \<Rightarrow>
             (case os_MkdirAll (filepath_Dir path) fs1 of
                (False, fs2) \<Rightarrow> (Inl CreateRawMIMEDir, fs2)
              | (True, fs2) \<Rightarrow>
                  (case os_WriteFile path data fs2 of
                     (False, fs3) \<Rightarrow> (Inl WriteRaw, fs3)
                   | (True, fs3) \<Rightarrow> (Inr (), fs3)))))"

definition ReadRawMIME :: "string \<Rightarrow> string \<Rightarrow> filesystem \<Rightarrow> string storage_result" where
  "ReadRawMIME base contentHash fs =
     (if \<not> validateKey contentHash then (Inl InvalidKey, fs)
      else (case os_ReadFile (raw_path base contentHash) fs of
        (None, fs1) \<Rightarrow> (Inl ReadRaw, fs1)
      | (Some data, fs1) \<Rightarrow> (Inr data, fs1)))"

definition SaveAttachment :: "string \<Rightarrow> int \<Rightarrow> string \<Rightarrow> string \<Rightarrow> filesystem \<Rightarrow> unit storage_result" where
  "SaveAttachment base messageID safeKey data fs =
     (if messageID \<le> 0 then (Inl BadMessageID, fs)
      else if \<not> validateKey safeKey then (Inl InvalidKey, fs)
      else (case os_MkdirAll (filepath_Join [base, ''attachments'', format_int messageID]) fs of
        (False, fs1) \<Rightarrow> (Inl CreateAttachmentDir, fs1)
      | (True, fs1) \<Rightarrow>
          (case os_WriteFile (attachment_path base messageID safeKey) data fs1 of
             (False, fs2) \<Rightarrow> (Inl WriteAttachment, fs2)
           | (True, fs2) \<Rightarrow> (Inr (), fs2))))"

definition ReadAttachment :: "string \<Rightarrow> int \<Rightarrow> string \<Rightarrow> filesystem \<Rightarrow> string storage_result" where
  "ReadAttachment base messageID safeKey fs =
     (if messageID \<le> 0 then (Inl BadMessageID, fs)
      else if \<not> validateKey safeKey then (Inl InvalidKey, fs)
      else (case os_ReadFile (attachment_path base messageID safeKey) fs of
        (None, fs1) \<Rightarrow> (Inl ReadAttachmentErr, fs1)
      | (Some data, fs1) \<Rightarrow> (Inr data, fs1)))"

section \<open>Keys and paths\<close>

text \<open>A key that is one component and stays below its directory.\<close>

definition safe_comp :: "string \<Rightarrow> bool" where
  "safe_comp c \<longleftrightarrow> c \<noteq> [] \<and> c \<noteq> ''.'' \<and> c \<noteq> ''..'' \<and> slash \<notin> set c \<and> backslash \<notin> set c"

lemma validateKey_iff: "validateKey key \<longleftrightarrow> key \<noteq> [] \<and> slash \<notin> set key \<and> backslash \<notin> set key"
proof (cases "key = [] \<or> slash \<in> set key")
  case True
  then show ?thesis by (auto simp: validateKey_def contains_any_def list_ex_iff)
next
  case False
  then have "key \<noteq> []" and s: "slash \<notin> set key" by simp_all
  then have "hd (rev key) \<noteq> slash" by (metis hd_in_set rev_is_Nil_conv set_rev)
  then have "rev (dropWhile (\<lambda>c. c = slash) (rev key)) = key" by (simp add: dropWhile_ident)
  then have "filepath_Base key = key"
    using \<open>key \<noteq> []\<close> s by (simp add: filepath_Base_def split_on_no_sep)
  then show ?thesis by (auto simp: validateKey_def contains_any_def list_ex_iff)
qed

lemma safe_comp_validateKey: "safe_comp k \<Longrightarrow> validateKey k"
  by (simp add: safe_comp_def validateKey_iff)

lemma split_on_append_sep: "split_on d (a @ d # b) = split_on d a @ split_on d b"
proof (induction a)
  case Nil
  then show ?case by simp
next
  case (Cons c a)
  obtain x xs where "split_on d a = x # xs" by (cases "split_on d a") auto
  with Cons show ?case by auto
qed

lemma clean_comps_append: "clean_comps rt acc (xs @ ys) = clean_comps rt (rev (clean_comps rt acc xs)) ys"
  by (induction rt acc xs rule: clean_comps.induct) (auto split: list.splits)

lemma clean_comps_safe: "\<forall>c \<in> set ys. safe_comp c \<Longrightarrow> clean_comps rt acc ys = rev acc @ ys"
  by (induction ys arbitrary: acc) (auto simp: safe_comp_def)

lemma join_cons_safe:
  assumes "cs \<noteq> []"
  shows "join_with [slash] (base # cs) = base @ slash # join_with [slash] cs"
  using assms by (cases cs) auto

text \<open>Joining safe components to a base appends them to the cleaned base.\<close>

lemma filepath_Join_safe:
  assumes "base \<noteq> []" and "cs \<noteq> []" and safe: "\<forall>c \<in> set cs. safe_comp c"
  shows "filepath_Join (base # cs) = (fst (path_of base), snd (path_of base) @ cs)"
proof -
  have ne: "\<forall>c \<in> set cs. c \<noteq> []" and ns: "\<forall>c \<in> set cs. slash \<notin> set c"
    using safe by (auto simp: safe_comp_def)
  have f: "filter (\<lambda>e. e \<noteq> []) (base # cs) = base # cs" using assms(1) ne by simp
  have "split_on slash (join_with [slash] (base # cs)) = split_on slash base @ cs"
    using assms(2) ns by (simp add: join_cons_safe split_on_append_sep split_join)
  moreover have "hd (join_with [slash] (base # cs)) = hd base" "join_with [slash] (base # cs) \<noteq> []"
    using assms(1,2) by (simp_all add: join_cons_safe)
  ultimately show ?thesis
    using assms(1) by (simp only: filepath_Join_def f)
      (simp add: path_of_def Let_def clean_comps_append clean_comps_safe [OF safe])
qed

lemma safe_comp_consts [simp]: "safe_comp ''raw''" "safe_comp ''attachments''"
  by (simp_all add: safe_comp_def)

lemma safe_compI:
  assumes "k \<noteq> []" and "\<And>c. c \<in> set k \<Longrightarrow> c \<noteq> slash \<and> c \<noteq> backslash \<and> c \<noteq> CHR ''.''"
  shows "safe_comp k"
proof -
  have "slash \<notin> set k" "backslash \<notin> set k" "CHR ''.'' \<notin> set k" using assms(2) by blast+
  moreover have "k \<noteq> ''.''" "k \<noteq> ''..''" using calculation(3) by (metis list.set_intros(1))+
  ultimately show ?thesis using assms(1) by (simp only: safe_comp_def) simp
qed

lemma digits_no_slash: "is_digit c \<Longrightarrow> c \<noteq> slash \<and> c \<noteq> backslash \<and> c \<noteq> CHR ''.''"
  by (auto simp: is_digit_def byte_def)

lemma safe_comp_format_int: "0 < i \<Longrightarrow> safe_comp (format_int i)"
  using format_nat_digits digits_no_slash by (intro safe_compI) (auto simp: format_int_def)

lemma hex_no_slash: "is_hex c \<Longrightarrow> c \<noteq> slash \<and> c \<noteq> backslash \<and> c \<noteq> CHR ''.''"
  by (auto simp: is_hex_def byte_def)

lemma safe_comp_hex: "k \<noteq> [] \<Longrightarrow> list_all is_hex k \<Longrightarrow> safe_comp k"
  using hex_no_slash by (intro safe_compI) (auto simp: list_all_iff)

lemma raw_path_eq:
  "base \<noteq> [] \<Longrightarrow> safe_comp k \<Longrightarrow> raw_path base k = (fst (path_of base), snd (path_of base) @ [''raw'', k])"
  by (simp add: raw_path_def filepath_Join_safe)

lemma attachment_path_eq:
  "base \<noteq> [] \<Longrightarrow> 0 < i \<Longrightarrow> safe_comp k \<Longrightarrow>
   attachment_path base i k = (fst (path_of base), snd (path_of base) @ [''attachments'', format_int i, k])"
  by (simp add: attachment_path_def filepath_Join_safe safe_comp_format_int)

text \<open>The key \<open>..\<close> leads back to the base.\<close>

lemma filepath_Join_dotdot:
  assumes "base \<noteq> []"
  shows "filepath_Join [base, ''raw'', ''..''] = path_of base"
proof -
  have "split_on slash (join_with [slash] [base, ''raw'', ''..'']) = split_on slash base @ [''raw'', ''..'']"
    by (simp add: split_on_append_sep)
  moreover have "hd (join_with [slash] [base, ''raw'', ''..'']) = hd base" "join_with [slash] [base, ''raw'', ''..''] \<noteq> []"
    using assms by simp_all
  moreover have "filter (\<lambda>e. e \<noteq> []) [base, ''raw'', ''..''] = [base, ''raw'', ''..'']" using assms by simp
  ultimately show ?thesis
    using assms by (simp only: filepath_Join_def) (simp add: path_of_def Let_def clean_comps_append)
qed

section \<open>Effects of the file-system calls\<close>

lemma next_fault_keeps:
  "next_fault fs = (f, fs1) \<Longrightarrow> fs_files fs1 = fs_files fs \<and> fs_dirs fs1 = fs_dirs fs"
  by (auto simp: next_fault_def split: list.splits)

lemma is_dir_cong: "fs_dirs fs = fs_dirs fs' \<Longrightarrow> is_dir p fs = is_dir p fs'"
  by (simp add: is_dir_def)

lemma os_Stat_keeps:
  "os_Stat p fs = (r, fs1) \<Longrightarrow> fs_files fs1 = fs_files fs \<and> fs_dirs fs1 = fs_dirs fs"
  by (auto simp: os_Stat_def split: prod.splits if_splits dest!: next_fault_keeps)

lemma os_Stat_found:
  "os_Stat p fs = (StatFound, fs1) \<Longrightarrow> is_dir p fs \<or> fs_files fs p \<noteq> None"
  "os_Stat p fs = (StatNotExist, fs1) \<Longrightarrow> \<not> is_dir p fs \<and> fs_files fs p = None"
  by (auto simp: os_Stat_def split: prod.splits if_splits dest!: next_fault_keeps simp: is_dir_def)

lemma os_MkdirAll_keeps:
  "os_MkdirAll p fs = (b, fs1) \<Longrightarrow>
     fs_files fs1 = fs_files fs \<and> (\<forall>q. fs_dirs fs1 q \<longrightarrow> fs_dirs fs q \<or> dir_prefix q p)"
  unfolding os_MkdirAll_def
  by (auto simp del: upt_Suc split: prod.splits if_splits dest!: next_fault_keeps)

lemma os_WriteFile_keeps:
  "os_WriteFile p d fs = (b, fs1) \<Longrightarrow> fs_dirs fs1 = fs_dirs fs \<and> (\<forall>q. q \<noteq> p \<longrightarrow> fs_files fs1 q = fs_files fs q)"
  by (auto simp: os_WriteFile_def split: prod.splits if_splits fs_fault.splits dest!: next_fault_keeps)

lemma os_WriteFile_result:
  "os_WriteFile p d fs = (True, fs1) \<Longrightarrow> fs_files fs1 p = Some d"
  "os_WriteFile p d fs = (False, fs1) \<Longrightarrow>
     fs_files fs1 p = fs_files fs p \<or> (\<exists>n. fs_files fs1 p = Some (take n d))"
  by (auto simp: os_WriteFile_def split: prod.splits if_splits fs_fault.splits dest!: next_fault_keeps)

lemma os_ReadFile_keeps:
  "os_ReadFile p fs = (r, fs1) \<Longrightarrow> fs_files fs1 = fs_files fs \<and> fs_dirs fs1 = fs_dirs fs"
  by (auto simp: os_ReadFile_def split: prod.splits if_splits dest!: next_fault_keeps)

lemma os_ReadFile_result:
  "os_ReadFile p fs = (Some d, fs1) \<Longrightarrow> fs_files fs p = Some d"
  by (auto simp: os_ReadFile_def split: prod.splits if_splits dest!: next_fault_keeps)

section \<open>Stores of blobs\<close>

text \<open>
  What the ingest handler relies on and the read handlers see: a successful \<open>put\<close> decides the blob at
  its key (\<open>merge\<close> of the old blob and the new data), a failed one can leave only a prefix of the
  data there, and no \<open>put\<close> touches another key.
\<close>

locale blob_store =
  fixes put :: "'k \<Rightarrow> string \<Rightarrow> 's \<Rightarrow> ('e, unit, 's) outcome"
    and blob :: "'k \<Rightarrow> 's \<Rightarrow> string option"
    and valid :: "'k \<Rightarrow> bool"
    and invar :: "'s \<Rightarrow> bool"
    and merge :: "string option \<Rightarrow> string \<Rightarrow> string"
  assumes put_ok: "\<lbrakk>invar s; valid k; put k d s = (Inr (), s')\<rbrakk> \<Longrightarrow> blob k s' = Some (merge (blob k s) d)"
    and put_err: "\<lbrakk>invar s; valid k; put k d s = (Inl e, s')\<rbrakk> \<Longrightarrow>
      blob k s' = blob k s \<or> (\<exists>n. blob k s' = Some (take n d))"
    and put_other: "\<lbrakk>invar s; valid k; valid k'; k' \<noteq> k\<rbrakk> \<Longrightarrow> blob k' (snd (put k d s)) = blob k' s"
    and put_invar: "\<lbrakk>invar s; valid k\<rbrakk> \<Longrightarrow> invar (snd (put k d s))"
begin

text \<open>Storing a list of blobs under different keys stores every one of them.\<close>

lemma puts_frame:
  assumes "invar s" and "\<forall>(k, d) \<in> set kds. valid k" and "valid k'" and "k' \<notin> fst ` set kds"
  shows "blob k' (snd (foreach (\<lambda>(k, d). put k d) kds s)) = blob k' s \<and>
    invar (snd (foreach (\<lambda>(k, d). put k d) kds s))"
  using assms
proof (induction kds arbitrary: s)
  case Nil
  then show ?case by simp
next
  case (Cons kd kds)
  obtain k d where kd: "kd = (k, d)" by fastforce
  obtain r t where p: "put k d s = (r, t)" by fastforce
  have t: "invar t" "blob k' t = blob k' s"
    using Cons.prems kd put_invar [of s k d] put_other [of s k k' d] p by auto
  show ?case
  proof (cases r)
    case (Inl e)
    with kd p t show ?thesis by simp
  next
    case (Inr u)
    with kd p t Cons.IH [of t] Cons.prems show ?thesis by simp
  qed
qed

lemma puts_ok:
  assumes "invar s" and "\<forall>(k, d) \<in> set kds. valid k" and "distinct (map fst kds)"
    and "foreach (\<lambda>(k, d). put k d) kds s = (Inr (), s')" and "(k, d) \<in> set kds"
  shows "blob k s' = Some (merge (blob k s) d)"
  using assms
proof (induction kds arbitrary: s)
  case Nil
  then show ?case by simp
next
  case (Cons kd kds)
  obtain k1 d1 where kd: "kd = (k1, d1)" by fastforce
  from Cons.prems(4) kd obtain t where p: "put k1 d1 s = (Inr (), t)"
    and f: "foreach (\<lambda>(k, d). put k d) kds t = (Inr (), s')"
    by (auto simp: andthen_Inr_iff)
  have inv: "invar t" using put_invar [of s k1 d1] Cons.prems kd p by simp
  show ?case
  proof (cases "(k, d) = (k1, d1)")
    case True
    then have "k \<notin> fst ` set kds" using Cons.prems(3) kd by auto
    then have "blob k s' = blob k t"
      using puts_frame [OF inv, of kds k] f True Cons.prems(2) kd by auto
    then show ?thesis using put_ok [OF Cons.prems(1) _ p] True Cons.prems(2) kd by simp
  next
    case False
    then have in_kds: "(k, d) \<in> set kds" using Cons.prems(5) kd by auto
    have ne: "k \<noteq> k1" using in_kds Cons.prems(3) kd by (auto simp: rev_image_eqI)
    have vk: "valid k" "valid k1" using in_kds Cons.prems(2) kd by auto
    have "blob k s' = Some (merge (blob k t) d)"
      by (rule Cons.IH [OF inv _ _ f in_kds]) (use Cons.prems kd in auto)
    then show ?thesis using put_other [OF Cons.prems(1) vk(2,1) ne, of d1] p by simp
  qed
qed

end

section \<open>The storage directory\<close>

text \<open>No directory stands where a blob belongs.\<close>

definition storage_inv :: "string \<Rightarrow> filesystem \<Rightarrow> bool" where
  "storage_inv base fs \<longleftrightarrow> base \<noteq> [] \<and>
     (\<forall>k. safe_comp k \<longrightarrow> \<not> fs_dirs fs (raw_path base k)) \<and>
     (\<forall>i k. 0 < i \<longrightarrow> safe_comp k \<longrightarrow> \<not> fs_dirs fs (attachment_path base i k))"

definition raw_blob :: "string \<Rightarrow> string \<Rightarrow> filesystem \<Rightarrow> string option" where
  "raw_blob base k fs = fs_files fs (raw_path base k)"

definition attachment_blob :: "string \<Rightarrow> int \<times> string \<Rightarrow> filesystem \<Rightarrow> string option" where
  "attachment_blob base ik fs = fs_files fs (attachment_path base (fst ik) (snd ik))"

definition valid_attachment_key :: "int \<times> string \<Rightarrow> bool" where
  "valid_attachment_key ik \<longleftrightarrow> 0 < fst ik \<and> in_int64 (fst ik) \<and> safe_comp (snd ik)"

definition keep_first :: "string option \<Rightarrow> string \<Rightarrow> string" where
  "keep_first old d = (case old of Some x \<Rightarrow> x | None \<Rightarrow> d)"

lemma storage_inv_files: "storage_inv base (fs\<lparr>fs_files := f\<rparr>) = storage_inv base fs"
  by (simp add: storage_inv_def)

lemma storage_inv_dirs_cong: "fs_dirs fs = fs_dirs fs' \<Longrightarrow> storage_inv base fs = storage_inv base fs'"
  by (simp add: storage_inv_def)

lemma storage_inv_mkdir:
  assumes inv: "storage_inv base fs"
    and p: "p = (fst (path_of base), snd (path_of base) @ cs)"
    and cs: "length cs \<le> 1 \<or> (length cs = 2 \<and> hd cs = ''attachments'')"
    and m: "os_MkdirAll p fs = (b, fs1)"
  shows "storage_inv base fs1"
proof -
  have base: "base \<noteq> []" using inv by (simp add: storage_inv_def)
  have "\<not> dir_prefix (raw_path base k) p" if "safe_comp k" for k
  proof -
    have "take (length (snd (path_of base)) + 2) (snd (path_of base) @ cs) \<noteq> snd (path_of base) @ [''raw'', k]"
      using cs by (cases cs) auto
    then show ?thesis using p base that by (simp add: dir_prefix_def raw_path_eq)
  qed
  moreover have "\<not> dir_prefix (attachment_path base i k) p" if "safe_comp k" "0 < i" for i k
  proof -
    have "take (length (snd (path_of base)) + 3) (snd (path_of base) @ cs) \<noteq>
        snd (path_of base) @ [''attachments'', format_int i, k]"
      using cs by (auto dest: arg_cong [where f = length])
    then show ?thesis using p base that by (simp add: dir_prefix_def attachment_path_eq)
  qed
  ultimately show ?thesis
    using inv os_MkdirAll_keeps [OF m] unfolding storage_inv_def by blast
qed

lemma not_is_dir_raw: "storage_inv base fs \<Longrightarrow> safe_comp k \<Longrightarrow> \<not> is_dir (raw_path base k) fs"
  by (auto simp: storage_inv_def is_dir_def raw_path_eq)

lemma raw_path_inj:
  "base \<noteq> [] \<Longrightarrow> safe_comp k \<Longrightarrow> safe_comp k' \<Longrightarrow> raw_path base k = raw_path base k' \<longleftrightarrow> k = k'"
  by (simp add: raw_path_eq)

lemma attachment_path_inj:
  assumes "base \<noteq> []" and "valid_attachment_key (i, k)" and "valid_attachment_key (j, l)"
  shows "attachment_path base i k = attachment_path base j l \<longleftrightarrow> i = j \<and> k = l"
  using assms format_int_inj by (auto simp: attachment_path_eq valid_attachment_key_def)

lemma raw_attachment_paths:
  "base \<noteq> [] \<Longrightarrow> safe_comp k \<Longrightarrow> valid_attachment_key (i, l) \<Longrightarrow> raw_path base k \<noteq> attachment_path base i l"
  by (simp add: raw_path_eq attachment_path_eq valid_attachment_key_def)

lemma raw_dir_eq:
  "base \<noteq> [] \<Longrightarrow> safe_comp k \<Longrightarrow>
   filepath_Dir (raw_path base k) = (fst (path_of base), snd (path_of base) @ [''raw''])"
  by (simp add: raw_path_eq filepath_Dir_def butlast_append)

lemma SaveRawMIME_effect:
  assumes inv: "storage_inv base fs" and k: "safe_comp k" and r: "SaveRawMIME base k d fs = (r, fs')"
  shows "storage_inv base fs' \<and> (\<forall>q. q \<noteq> raw_path base k \<longrightarrow> fs_files fs' q = fs_files fs q) \<and>
    (r = Inr () \<longrightarrow> raw_blob base k fs' = Some (keep_first (raw_blob base k fs) d)) \<and>
    (r \<noteq> Inr () \<longrightarrow> raw_blob base k fs' = raw_blob base k fs \<or>
       (\<exists>n. raw_blob base k fs' = Some (take n d)))"
proof -
  let ?p = "raw_path base k"
  have base: "base \<noteq> []" using inv by (simp add: storage_inv_def)
  obtain sr fs1 where st: "os_Stat ?p fs = (sr, fs1)" by fastforce
  note keep1 = os_Stat_keeps [OF st]
  have inv1: "storage_inv base fs1" using inv keep1 storage_inv_dirs_cong by metis
  obtain b fs2 where mk: "os_MkdirAll (filepath_Dir ?p) fs1 = (b, fs2)" by fastforce
  note keep2 = os_MkdirAll_keeps [OF mk]
  have inv2: "storage_inv base fs2"
    by (rule storage_inv_mkdir [OF inv1 raw_dir_eq [OF base k] _ mk]) simp
  obtain c fs3 where wr: "os_WriteFile ?p d fs2 = (c, fs3)" by fastforce
  note keep3 = os_WriteFile_keeps [OF wr]
  have inv3: "storage_inv base fs3" using inv2 keep3 storage_inv_dirs_cong by metis
  have v: "validateKey k" using k by (rule safe_comp_validateKey)
  show ?thesis
  proof (cases sr)
    case StatFound
    with st v r have "r = Inr ()" "fs' = fs1" by (simp_all add: SaveRawMIME_def Let_def)
    moreover have "fs_files fs ?p \<noteq> None"
      using os_Stat_found(1) st StatFound not_is_dir_raw [OF inv k] by blast
    ultimately show ?thesis
      using inv1 keep1 by (auto simp: raw_blob_def keep_first_def)
  next
    case StatError
    with st v r inv1 keep1 show ?thesis by (auto simp: SaveRawMIME_def Let_def raw_blob_def)
  next
    case StatNotExist
    then have none: "fs_files fs ?p = None" using os_Stat_found(2) st by blast
    show ?thesis
    proof (cases b)
      case False
      with StatNotExist st v r mk have "r = Inl CreateRawMIMEDir" "fs' = fs2"
        by (simp_all add: SaveRawMIME_def Let_def)
      then show ?thesis using inv2 keep1 keep2 by (auto simp: raw_blob_def)
    next
      case True
      with StatNotExist st v r mk wr have res: "r = (if c then Inr () else Inl WriteRaw)" "fs' = fs3"
        by (simp_all add: SaveRawMIME_def Let_def split: bool.splits)
      then show ?thesis
        using inv3 keep1 keep2 keep3 none os_WriteFile_result [of ?p d fs2 fs3] wr
        by (cases c) (auto simp: raw_blob_def keep_first_def)
    qed
  qed
qed

lemma SaveAttachment_effect:
  assumes inv: "storage_inv base fs" and ik: "valid_attachment_key (i, k)"
    and r: "SaveAttachment base i k d fs = (r, fs')"
  shows "storage_inv base fs' \<and>
    (\<forall>q. q \<noteq> attachment_path base i k \<longrightarrow> fs_files fs' q = fs_files fs q) \<and>
    (r = Inr () \<longrightarrow> attachment_blob base (i, k) fs' = Some d) \<and>
    (r \<noteq> Inr () \<longrightarrow> attachment_blob base (i, k) fs' = attachment_blob base (i, k) fs \<or>
       (\<exists>n. attachment_blob base (i, k) fs' = Some (take n d)))"
proof -
  let ?p = "attachment_path base i k" and ?dir = "filepath_Join [base, ''attachments'', format_int i]"
  have base: "base \<noteq> []" using inv by (simp add: storage_inv_def)
  have i: "0 < i" and k: "safe_comp k" using ik by (simp_all add: valid_attachment_key_def)
  have dir: "?dir = (fst (path_of base), snd (path_of base) @ [''attachments'', format_int i])"
    using base safe_comp_format_int [OF i] by (simp add: filepath_Join_safe)
  obtain b fs1 where mk: "os_MkdirAll ?dir fs = (b, fs1)" by fastforce
  note keep1 = os_MkdirAll_keeps [OF mk]
  have inv1: "storage_inv base fs1"
    by (rule storage_inv_mkdir [OF inv dir _ mk]) simp
  obtain c fs2 where wr: "os_WriteFile ?p d fs1 = (c, fs2)" by fastforce
  note keep2 = os_WriteFile_keeps [OF wr]
  have inv2: "storage_inv base fs2" using inv1 keep2 storage_inv_dirs_cong by metis
  have v: "validateKey k" using k by (rule safe_comp_validateKey)
  show ?thesis
  proof (cases b)
    case False
    with r mk v i have "r = Inl CreateAttachmentDir" "fs' = fs1" by (simp_all add: SaveAttachment_def)
    then show ?thesis using inv1 keep1 by (auto simp: attachment_blob_def)
  next
    case True
    with r mk wr v i have "r = (if c then Inr () else Inl WriteAttachment)" "fs' = fs2"
      by (simp_all add: SaveAttachment_def split: bool.splits)
    then show ?thesis
      using inv2 keep1 keep2 os_WriteFile_result [of ?p d fs1 fs2] wr
      by (cases c) (auto simp: attachment_blob_def)
  qed
qed

interpretation raw: blob_store "SaveRawMIME base" "raw_blob base" safe_comp "storage_inv base" keep_first
  for base
proof
  fix s k d s'
  assume a: "storage_inv base s" "safe_comp k"
  show "SaveRawMIME base k d s = (Inr (), s') \<Longrightarrow> raw_blob base k s' = Some (keep_first (raw_blob base k s) d)"
    using SaveRawMIME_effect [OF a] by simp
  show "SaveRawMIME base k d s = (Inl e, s') \<Longrightarrow>
      raw_blob base k s' = raw_blob base k s \<or> (\<exists>n. raw_blob base k s' = Some (take n d))" for e
    using SaveRawMIME_effect [OF a] by blast
  show "storage_inv base (snd (SaveRawMIME base k d s))"
    using SaveRawMIME_effect [OF a] by (metis prod.collapse)
  show "raw_blob base k' (snd (SaveRawMIME base k d s)) = raw_blob base k' s"
    if "safe_comp k'" "k' \<noteq> k" for k'
  proof -
    have "raw_path base k' \<noteq> raw_path base k"
      using that a by (simp add: raw_path_inj storage_inv_def)
    then show ?thesis
      unfolding raw_blob_def
      using SaveRawMIME_effect [OF a, of d "fst (SaveRawMIME base k d s)" "snd (SaveRawMIME base k d s)"]
      by (metis prod.collapse)
  qed
qed

interpretation att: blob_store "\<lambda>ik. SaveAttachment base (fst ik) (snd ik)" "attachment_blob base"
  valid_attachment_key "storage_inv base" "\<lambda>old d. d"
  for base
proof
  fix s d s' and ik :: "int \<times> string"
  assume a: "storage_inv base s" "valid_attachment_key ik"
  note eff = SaveAttachment_effect [OF a(1), of "fst ik" "snd ik" d, unfolded prod.collapse, OF a(2)]
  show "SaveAttachment base (fst ik) (snd ik) d s = (Inr (), s') \<Longrightarrow> attachment_blob base ik s' = Some d"
    using eff by simp
  show "SaveAttachment base (fst ik) (snd ik) d s = (Inl e, s') \<Longrightarrow>
      attachment_blob base ik s' = attachment_blob base ik s \<or> (\<exists>n. attachment_blob base ik s' = Some (take n d))" for e
    using eff by blast
  show "storage_inv base (snd (SaveAttachment base (fst ik) (snd ik) d s))"
    using eff by (metis prod.collapse)
  show "attachment_blob base ik' (snd (SaveAttachment base (fst ik) (snd ik) d s)) = attachment_blob base ik' s"
    if v: "valid_attachment_key ik'" and ne: "ik' \<noteq> ik" for ik'
  proof -
    have "attachment_path base (fst ik') (snd ik') \<noteq> attachment_path base (fst ik) (snd ik)"
      using v ne a attachment_path_inj [of base "fst ik'" "snd ik'" "fst ik" "snd ik"]
      by (auto simp: storage_inv_def prod_eq_iff)
    then show ?thesis
      unfolding attachment_blob_def
      using eff [of "fst (SaveAttachment base (fst ik) (snd ik) d s)"] by (metis prod.collapse)
  qed
qed

section \<open>Reading back\<close>

lemma ReadRawMIME_blob:
  assumes "safe_comp k" and "fs_faults fs = []"
  shows "ReadRawMIME base k fs = (case raw_blob base k fs of None \<Rightarrow> Inl ReadRaw | Some d \<Rightarrow> Inr d, fs)"
  using assms
  by (simp add: ReadRawMIME_def safe_comp_validateKey os_ReadFile_def next_fault_def raw_blob_def
      split: option.splits)

lemma ReadAttachment_blob:
  assumes "valid_attachment_key (i, k)" and "fs_faults fs = []"
  shows "ReadAttachment base i k fs =
    (case attachment_blob base (i, k) fs of None \<Rightarrow> Inl ReadAttachmentErr | Some d \<Rightarrow> Inr d, fs)"
  using assms
  by (simp add: ReadAttachment_def valid_attachment_key_def safe_comp_validateKey os_ReadFile_def
      next_fault_def attachment_blob_def split: option.splits)

lemma ReadRawMIME_keeps:
  "ReadRawMIME base k fs = (r, fs') \<Longrightarrow> fs_files fs' = fs_files fs \<and> fs_dirs fs' = fs_dirs fs"
  by (auto simp: ReadRawMIME_def split: if_splits prod.splits option.splits dest!: os_ReadFile_keeps)

lemma ReadAttachment_keeps:
  "ReadAttachment base i k fs = (r, fs') \<Longrightarrow> fs_files fs' = fs_files fs \<and> fs_dirs fs' = fs_dirs fs"
  by (auto simp: ReadAttachment_def split: if_splits prod.splits option.splits dest!: os_ReadFile_keeps)

lemma ReadRawMIME_result: "ReadRawMIME base k fs = (Inr d, fs') \<Longrightarrow> raw_blob base k fs = Some d"
  by (auto simp: ReadRawMIME_def raw_blob_def split: if_splits prod.splits option.splits
      dest!: os_ReadFile_result)

lemma ReadAttachment_result:
  "ReadAttachment base i k fs = (Inr d, fs') \<Longrightarrow> attachment_blob base (i, k) fs = Some d"
  by (auto simp: ReadAttachment_def attachment_blob_def split: if_splits prod.splits option.splits
      dest!: os_ReadFile_result)

section \<open>Writes that fail half-way\<close>

text \<open>No call of the queue stops in the middle of a write.\<close>

definition no_partial :: "filesystem \<Rightarrow> bool" where
  "no_partial fs \<longleftrightarrow> list_all (\<lambda>f. f = FNone \<or> f = FFail) (fs_faults fs)"

lemma next_fault_faults: "next_fault fs = (f, fs1) \<Longrightarrow> fs_faults fs1 = tl (fs_faults fs)"
  by (auto simp: next_fault_def split: list.splits)

lemma os_faults:
  "os_Stat p fs = (sr, fs1) \<Longrightarrow> fs_faults fs1 = tl (fs_faults fs)"
  "os_MkdirAll p fs = (b, fs1) \<Longrightarrow> fs_faults fs1 = tl (fs_faults fs)"
  "os_WriteFile p d fs = (b, fs1) \<Longrightarrow> fs_faults fs1 = tl (fs_faults fs)"
  "os_ReadFile p fs = (x, fs1) \<Longrightarrow> fs_faults fs1 = tl (fs_faults fs)"
  by (auto simp del: upt_Suc simp: os_Stat_def os_MkdirAll_def os_WriteFile_def os_ReadFile_def
      split: prod.splits if_splits fs_fault.splits dest!: next_fault_faults)

lemma no_partial_tl: "no_partial fs \<Longrightarrow> fs_faults fs1 = tl (fs_faults fs) \<Longrightarrow> no_partial fs1"
  by (cases "fs_faults fs") (simp_all add: no_partial_def)

lemma os_WriteFile_no_partial:
  assumes "no_partial fs" and "os_WriteFile p d fs = (False, fs1)"
  shows "fs_files fs1 = fs_files fs"
proof -
  obtain f fs0 where n: "next_fault fs = (f, fs0)" by fastforce
  then have "f = FNone \<or> f = FFail"
    using assms(1) by (auto simp: next_fault_def no_partial_def split: list.splits)
  then show ?thesis
    using assms(2) n next_fault_keeps [OF n] by (auto simp: os_WriteFile_def split: if_splits)
qed

lemma SaveRawMIME_no_partial:
  assumes "no_partial fs" and "SaveRawMIME base k d fs = (r, fs')"
  shows "no_partial fs' \<and> (r \<noteq> Inr () \<longrightarrow> fs_files fs' = fs_files fs)"
proof -
  let ?p = "raw_path base k"
  obtain sr fs1 where st: "os_Stat ?p fs = (sr, fs1)" by fastforce
  obtain b fs2 where mk: "os_MkdirAll (filepath_Dir ?p) fs1 = (b, fs2)" by fastforce
  obtain c fs3 where wr: "os_WriteFile ?p d fs2 = (c, fs3)" by fastforce
  note np1 = no_partial_tl [OF assms(1) os_faults(1) [OF st]]
  note np2 = no_partial_tl [OF np1 os_faults(2) [OF mk]]
  note np3 = no_partial_tl [OF np2 os_faults(3) [OF wr]]
  have "c \<or> fs_files fs3 = fs_files fs2" using os_WriteFile_no_partial [OF np2] wr by (cases c) auto
  with np1 np2 np3 assms st mk wr os_Stat_keeps [OF st] os_MkdirAll_keeps [OF mk] show ?thesis
    by (cases sr; cases b; cases c) (auto simp: SaveRawMIME_def Let_def split: if_splits)
qed

lemma SaveAttachment_no_partial:
  assumes "no_partial fs" and "SaveAttachment base i k d fs = (r, fs')"
  shows "no_partial fs'"
proof -
  obtain b fs1 where mk: "os_MkdirAll (filepath_Join [base, ''attachments'', format_int i]) fs = (b, fs1)" by fastforce
  obtain c fs2 where wr: "os_WriteFile (attachment_path base i k) d fs1 = (c, fs2)" by fastforce
  note np1 = no_partial_tl [OF assms(1) os_faults(2) [OF mk]]
  note np2 = no_partial_tl [OF np1 os_faults(3) [OF wr]]
  from np1 np2 assms mk wr show ?thesis
    by (cases b; cases c) (auto simp: SaveAttachment_def split: if_splits)
qed

lemma SaveRawMIME_stable:
  assumes inv: "storage_inv base fs" and k: "safe_comp k" and r: "SaveRawMIME base k d fs = (r, fs')"
    and b: "raw_blob base k fs = Some d0"
  shows "raw_blob base k fs' = Some d0"
proof -
  let ?p = "raw_path base k"
  obtain sr fs1 where st: "os_Stat ?p fs = (sr, fs1)" by fastforce
  note keep1 = os_Stat_keeps [OF st]
  have f: "fs_files fs ?p = Some d0" using b by (simp add: raw_blob_def)
  have "sr \<noteq> StatNotExist" using os_Stat_found(2) [of ?p fs fs1] st f by auto
  then have "fs_files fs' = fs_files fs1" using st r safe_comp_validateKey [OF k] by (cases sr) (auto simp: SaveRawMIME_def Let_def split: if_splits)
  then show ?thesis using keep1 f by (simp add: raw_blob_def)
qed

section \<open>When saving succeeds\<close>

text \<open>The directories of the storage can be made: no file stands where one of them belongs.\<close>

definition storage_ready :: "string \<Rightarrow> filesystem \<Rightarrow> bool" where
  "storage_ready base fs \<longleftrightarrow> storage_inv base fs \<and> fs_faults fs = [] \<and>
     (\<forall>n. fs_files fs (fst (path_of base), take n (snd (path_of base) @ [''raw''])) = None) \<and>
     (\<forall>i n. fs_files fs (fst (path_of base), take n (snd (path_of base) @ [''attachments'', format_int i])) = None)"

lemma file_above_cong [simp]:
  "file_above p (fs\<lparr>fs_faults := f\<rparr>) = file_above p fs" "file_above p (fs\<lparr>fs_dirs := g\<rparr>) = file_above p fs"
  by (simp_all add: file_above_def)

lemma take_shorter: "n < length xs \<Longrightarrow> take n xs \<noteq> xs"
  by (auto dest: arg_cong [where f = length])

lemma file_above_write [simp]: "file_above p (fs\<lparr>fs_files := (fs_files fs)(p \<mapsto> d)\<rparr>) = file_above p fs"
proof -
  have "(fst p, take n (snd p)) \<noteq> p" if "n < length (snd p)" for n using take_shorter [OF that] by (cases p) simp
  then show ?thesis by (simp add: file_above_def list_ex_iff)
qed

lemma no_file_above_raw:
  assumes "storage_ready base fs" and "safe_comp k"
  shows "\<not> file_above (raw_path base k) fs"
proof -
  let ?b = "snd (path_of base) @ [''raw'']"
  have p: "raw_path base k = (fst (path_of base), ?b @ [k])"
    using assms by (simp add: raw_path_eq storage_ready_def storage_inv_def)
  have none: "fs_files fs (fst (path_of base), take n (?b @ [k])) = None" if "n \<in> set [0..<length (?b @ [k])]" for n
  proof -
    have "n - length ?b = 0" using that by auto
    then have "take n (?b @ [k]) = take n ?b" by (simp only: take_append take_0 append_Nil2)
    then show ?thesis using assms(1) unfolding storage_ready_def by metis
  qed
  show ?thesis
    unfolding file_above_def p fst_conv snd_conv list_ex_iff
  proof (rule notI, elim bexE)
    fix n assume "n \<in> set [0..<length (?b @ [k])]" and ne: "fs_files fs (fst (path_of base), take n (?b @ [k])) \<noteq> None"
    show False using ne none [OF \<open>n \<in> _\<close>] by (rule notE)
  qed
qed

lemma os_MkdirAll_succeeds:
  assumes "fs_faults fs = []" and "\<And>n. fs_files fs (fst p, take n (snd p)) = None"
  shows "\<exists>fs1. os_MkdirAll p fs = (True, fs1) \<and> is_dir p fs1 \<and> fs_faults fs1 = []"
  using assms unfolding os_MkdirAll_def
  by (auto simp del: upt_Suc simp: next_fault_def list_ex_iff is_dir_def dir_prefix_def)

lemma os_WriteFile_succeeds:
  assumes "fs_faults fs = []" and "is_dir (filepath_Dir p) fs" and "\<not> is_dir p fs"
  shows "os_WriteFile p d fs = (True, fs\<lparr>fs_files := (fs_files fs)(p \<mapsto> d)\<rparr>)"
  using assms by (simp add: os_WriteFile_def next_fault_def)

lemma storage_ready_files:
  assumes "storage_ready base fs" and "storage_inv base fs1" and "fs_faults fs1 = []"
    and "\<And>q. q \<noteq> p \<Longrightarrow> fs_files fs1 q = fs_files fs q"
    and "(\<exists>k. safe_comp k \<and> p = raw_path base k) \<or> (\<exists>i k. 0 < i \<and> safe_comp k \<and> p = attachment_path base i k)"
  shows "storage_ready base fs1"
proof -
  let ?b = "snd (path_of base)"
  have base: "base \<noteq> []" using assms(2) by (simp add: storage_inv_def)
  obtain cs where p: "p = (fst (path_of base), ?b @ cs)" and cs: "2 \<le> length cs" "hd cs = ''raw'' \<or> 3 \<le> length cs"
    using assms(5) base by (auto simp: raw_path_eq attachment_path_eq)
  have "p \<noteq> (fst (path_of base), take n (?b @ [''raw'']))" for n
    using p cs by (auto dest!: arg_cong [where f = length])
  moreover have "p \<noteq> (fst (path_of base), take n (?b @ [''attachments'', format_int i]))" for n i
    using p cs by (cases cs) (auto simp: take_append take_Cons' dest: arg_cong [where f = length] split: if_splits)
  ultimately show ?thesis using assms(1-4) unfolding storage_ready_def by metis
qed

lemma SaveRawMIME_succeeds:
  assumes r: "storage_ready base fs" and k: "safe_comp k"
  shows "\<exists>fs'. SaveRawMIME base k d fs = (Inr (), fs') \<and> storage_ready base fs'"
proof -
  let ?p = "raw_path base k"
  have inv: "storage_inv base fs" and nf: "fs_faults fs = []" using r by (simp_all add: storage_ready_def)
  have base: "base \<noteq> []" using inv by (simp add: storage_inv_def)
  have dir: "filepath_Dir ?p = (fst (path_of base), snd (path_of base) @ [''raw''])" by (rule raw_dir_eq [OF base k])
  have st: "os_Stat ?p fs = (if fs_files fs ?p \<noteq> None then StatFound else StatNotExist, fs)"
    using nf not_is_dir_raw [OF inv k] no_file_above_raw [OF r k] by (simp add: os_Stat_def next_fault_def)
  obtain fs1 where mk: "os_MkdirAll (filepath_Dir ?p) fs = (True, fs1)" "is_dir (filepath_Dir ?p) fs1" "fs_faults fs1 = []"
    using os_MkdirAll_succeeds [OF nf, of "filepath_Dir ?p"] r unfolding dir storage_ready_def by auto
  have inv1: "storage_inv base fs1" by (rule storage_inv_mkdir [OF inv dir _ mk(1)]) simp
  note wr = os_WriteFile_succeeds [OF mk(3,2) not_is_dir_raw [OF inv1 k], of d]
  let ?fs' = "if fs_files fs ?p \<noteq> None then fs else fs1\<lparr>fs_files := (fs_files fs1)(?p \<mapsto> d)\<rparr>"
  have "SaveRawMIME base k d fs = (Inr (), ?fs')"
    using st mk(1) wr safe_comp_validateKey [OF k] by (simp add: SaveRawMIME_def Let_def)
  moreover have "storage_ready base ?fs'"
    using r inv1 mk(3) os_MkdirAll_keeps [OF mk(1)] k
    by (auto simp: storage_inv_files intro!: storage_ready_files [OF r, of _ ?p])
  ultimately show ?thesis by blast
qed

lemma SaveAttachment_succeeds:
  assumes r: "storage_ready base fs" and ik: "valid_attachment_key (i, k)"
  shows "\<exists>fs'. SaveAttachment base i k d fs = (Inr (), fs') \<and> storage_ready base fs'"
proof -
  let ?p = "attachment_path base i k"
  have inv: "storage_inv base fs" and nf: "fs_faults fs = []" using r by (simp_all add: storage_ready_def)
  have base: "base \<noteq> []" using inv by (simp add: storage_inv_def)
  have i: "0 < i" and k: "safe_comp k" using ik by (simp_all add: valid_attachment_key_def)
  let ?d = "filepath_Join [base, ''attachments'', format_int i]"
  have dir: "?d = (fst (path_of base), snd (path_of base) @ [''attachments'', format_int i])"
    using base safe_comp_format_int [OF i] by (simp add: filepath_Join_safe)
  obtain fs1 where mk: "os_MkdirAll ?d fs = (True, fs1)" "is_dir ?d fs1" "fs_faults fs1 = []"
    using os_MkdirAll_succeeds [OF nf, of ?d] r unfolding dir storage_ready_def by auto
  have inv1: "storage_inv base fs1" by (rule storage_inv_mkdir [OF inv dir _ mk(1)]) simp
  have "filepath_Dir ?p = ?d" using i k base dir by (simp add: attachment_path_eq filepath_Dir_def butlast_append)
  moreover have "\<not> is_dir ?p fs1" using inv1 i k base by (auto simp: storage_inv_def is_dir_def attachment_path_eq)
  ultimately have wr: "os_WriteFile ?p d fs1 = (True, fs1\<lparr>fs_files := (fs_files fs1)(?p \<mapsto> d)\<rparr>)"
    using os_WriteFile_succeeds mk(2,3) by simp
  then have "SaveAttachment base i k d fs = (Inr (), fs1\<lparr>fs_files := (fs_files fs1)(?p \<mapsto> d)\<rparr>)"
    using mk(1) safe_comp_validateKey [OF k] i by (simp add: SaveAttachment_def)
  moreover have "storage_ready base (fs1\<lparr>fs_files := (fs_files fs1)(?p \<mapsto> d)\<rparr>)"
    using inv1 mk(3) os_MkdirAll_keeps [OF mk(1)] k i
    by (auto simp: storage_inv_files intro!: storage_ready_files [OF r, of _ ?p])
  ultimately show ?thesis by blast
qed

section \<open>Properties\<close>

text \<open>The disk before the first start of the server.\<close>

definition empty_fs :: "fs_fault list \<Rightarrow> filesystem" where
  "empty_fs faults = \<lparr>fs_files = (\<lambda>p. None), fs_dirs = (\<lambda>p. False), fs_faults = faults\<rparr>"

lemma empty_fs_ok: "base \<noteq> [] \<Longrightarrow> storage_inv base (empty_fs faults)" "base \<noteq> [] \<Longrightarrow> storage_ready base (empty_fs [])"
  by (simp_all add: storage_ready_def storage_inv_def empty_fs_def)

lemma raw_put_frame:
  assumes inv: "storage_inv base fs" and k: "safe_comp k" and s: "SaveRawMIME base k d fs = (r, fs')"
  shows "storage_inv base fs'" and "\<And>k'. safe_comp k' \<Longrightarrow> k' \<noteq> k \<Longrightarrow> raw_blob base k' fs' = raw_blob base k' fs"
    and "\<And>ik. valid_attachment_key ik \<Longrightarrow> attachment_blob base ik fs' = attachment_blob base ik fs"
proof -
  note eff = SaveRawMIME_effect [OF inv k s]
  show "storage_inv base fs'" using eff by blast
  show "raw_blob base k' fs' = raw_blob base k' fs" if "safe_comp k'" "k' \<noteq> k" for k'
    using raw.put_other [OF inv k that, of d] s by simp
  show "attachment_blob base ik fs' = attachment_blob base ik fs" if v: "valid_attachment_key ik" for ik
  proof -
    have "base \<noteq> []" using inv by (simp add: storage_inv_def)
    then have "attachment_path base (fst ik) (snd ik) \<noteq> raw_path base k"
      using raw_attachment_paths [of base k "fst ik" "snd ik"] k v by simp
    then show ?thesis using eff unfolding attachment_blob_def by blast
  qed
qed

text \<open>
  Saving a raw message under a content hash. Whatever the disk does, other raw messages
  and all attachments stay as they are; when it succeeds, a later read gives the bytes that are stored
  under the hash, the new ones unless there were some already.
\<close>

theorem raw_store_frame:
  assumes "storage_inv base fs" and "safe_comp k" and "SaveRawMIME base k d fs = (r, fs')"
  shows "storage_inv base fs' \<and>
    (\<forall>k'. safe_comp k' \<and> k' \<noteq> k \<longrightarrow> raw_blob base k' fs' = raw_blob base k' fs) \<and>
    (\<forall>ik. valid_attachment_key ik \<longrightarrow> attachment_blob base ik fs' = attachment_blob base ik fs) \<and>
    (r = Inr () \<longrightarrow> fst (ReadRawMIME base k (fs'\<lparr>fs_faults := []\<rparr>)) = Inr (keep_first (raw_blob base k fs) d))"
proof (intro conjI allI impI)
  show "fst (ReadRawMIME base k (fs'\<lparr>fs_faults := []\<rparr>)) = Inr (keep_first (raw_blob base k fs) d)" if "r = Inr ()"
  proof -
    have "raw_blob base k (fs'\<lparr>fs_faults := []\<rparr>) = Some (keep_first (raw_blob base k fs) d)"
      using raw.put_ok [OF assms(1,2)] assms(3) that by (simp add: raw_blob_def)
    then show ?thesis using ReadRawMIME_blob [OF assms(2), of "fs'\<lparr>fs_faults := []\<rparr>"] by simp
  qed
qed (use raw_put_frame [OF assms] in blast)+

theorem raw_store_frame_witness:
  "\<exists>fs'. SaveRawMIME ''data'' ''ab'' ''hello'' (empty_fs []) = (Inr (), fs') \<and>
    fst (ReadRawMIME ''data'' ''ab'' (fs'\<lparr>fs_faults := []\<rparr>)) = Inr ''hello''"
proof -
  have k: "safe_comp ''ab''" by (simp add: safe_comp_def)
  obtain fs' where s: "SaveRawMIME ''data'' ''ab'' ''hello'' (empty_fs []) = (Inr (), fs')"
    using SaveRawMIME_succeeds [OF empty_fs_ok(2) k] by blast
  have "raw_blob ''data'' ''ab'' (empty_fs []) = None" by (simp add: raw_blob_def empty_fs_def)
  then show ?thesis
    using raw_store_frame [OF empty_fs_ok(1) k s] s by (simp add: keep_first_def)
qed

text \<open>
  Saving an attachment. Whatever the disk does, the attachments under other keys or of
  other messages and all raw messages stay as they are; when it succeeds, a later read gives the bytes.
\<close>

theorem attachment_store_frame:
  assumes "storage_inv base fs" and "valid_attachment_key (i, k)" and "SaveAttachment base i k d fs = (r, fs')"
  shows "storage_inv base fs' \<and>
    (\<forall>ik. valid_attachment_key ik \<and> ik \<noteq> (i, k) \<longrightarrow> attachment_blob base ik fs' = attachment_blob base ik fs) \<and>
    (\<forall>k'. safe_comp k' \<longrightarrow> raw_blob base k' fs' = raw_blob base k' fs) \<and>
    (r = Inr () \<longrightarrow> fst (ReadAttachment base i k (fs'\<lparr>fs_faults := []\<rparr>)) = Inr d)"
proof (intro conjI allI impI)
  note eff = SaveAttachment_effect [OF assms]
  show "storage_inv base fs'" using eff by blast
  show "attachment_blob base ik fs' = attachment_blob base ik fs" if "valid_attachment_key ik \<and> ik \<noteq> (i, k)" for ik
    using att.put_other [OF assms(1,2), of ik d] that assms(3) by simp
  show "raw_blob base k' fs' = raw_blob base k' fs" if "safe_comp k'" for k'
    using eff raw_attachment_paths [OF _ that assms(2)] assms(1) unfolding raw_blob_def storage_inv_def by blast
  show "fst (ReadAttachment base i k (fs'\<lparr>fs_faults := []\<rparr>)) = Inr d" if "r = Inr ()"
    using eff that ReadAttachment_blob [OF assms(2), of "fs'\<lparr>fs_faults := []\<rparr>" base]
    by (simp add: attachment_blob_def)
qed

theorem attachment_store_frame_witness:
  "\<exists>fs'. SaveAttachment ''data'' 7 ''ab'' ''pdf'' (empty_fs []) = (Inr (), fs') \<and>
    fst (ReadAttachment ''data'' 7 ''ab'' (fs'\<lparr>fs_faults := []\<rparr>)) = Inr ''pdf''"
proof -
  have k: "valid_attachment_key (7, ''ab'')" by (simp add: valid_attachment_key_def safe_comp_def in_int64_iff)
  obtain fs' where s: "SaveAttachment ''data'' 7 ''ab'' ''pdf'' (empty_fs []) = (Inr (), fs')"
    using SaveAttachment_succeeds [OF empty_fs_ok(2) k] by blast
  then show ?thesis using attachment_store_frame [OF empty_fs_ok(1) k s] by simp
qed

text \<open>
  Property C25: which storage keys are accepted, and where they lead. A key is accepted exactly when it
  is not empty and has no slash and no backslash; apart from the two dot names the file is then a direct
  child of the directory for its kind. The dot names are accepted too and lead out of it.
\<close>

theorem storage_keys:
  assumes "base \<noteq> []"
  shows "(validateKey key \<longleftrightarrow> key \<noteq> [] \<and> slash \<notin> set key \<and> backslash \<notin> set key) \<and>
    (validateKey key \<and> key \<notin> {''.'', ''..''} \<and> 0 < i \<longrightarrow>
      raw_path base key = (fst (path_of base), snd (path_of base) @ [''raw'', key]) \<and>
      attachment_path base i key = (fst (path_of base), snd (path_of base) @ [''attachments'', format_int i, key])) \<and>
    validateKey ''..'' \<and> raw_path base ''..'' = path_of base"
proof (intro conjI impI)
  show "validateKey key \<longleftrightarrow> key \<noteq> [] \<and> slash \<notin> set key \<and> backslash \<notin> set key" by (rule validateKey_iff)
  show "validateKey ''..''" by (simp add: validateKey_iff)
  show "raw_path base ''..'' = path_of base" unfolding raw_path_def by (rule filepath_Join_dotdot [OF assms])
next
  assume a: "validateKey key \<and> key \<notin> {''.'', ''..''} \<and> 0 < i"
  then have "safe_comp key" by (simp add: validateKey_iff safe_comp_def)
  then show "raw_path base key = (fst (path_of base), snd (path_of base) @ [''raw'', key])"
    and "attachment_path base i key = (fst (path_of base), snd (path_of base) @ [''attachments'', format_int i, key])"
    using a assms raw_path_eq attachment_path_eq by blast+
qed

theorem storage_keys_witness:
  "raw_path ''/srv/mail'' ''c0ffee'' = (True, [''srv'', ''mail'', ''raw'', ''c0ffee'']) \<and> raw_path ''/srv/mail'' ''..'' = path_of ''/srv/mail''"
proof -
  have "validateKey ''c0ffee''" by (simp add: validateKey_iff)
  moreover have "path_of ''/srv/mail'' = (True, [''srv'', ''mail''])" by (simp add: path_of_def Let_def)
  ultimately show ?thesis using storage_keys [of "''/srv/mail''" "''c0ffee''" 1] by simp
qed

lemma os_WriteFile_cut:
  assumes "fs_faults fs = [FPartial n]" and "is_dir (filepath_Dir p) fs" and "\<not> is_dir p fs"
  shows "os_WriteFile p d fs = (False, fs\<lparr>fs_faults := [], fs_files := (fs_files fs)(p \<mapsto> take n d)\<rparr>)"
proof -
  have "is_dir q (fs\<lparr>fs_faults := []\<rparr>) = is_dir q fs" for q by (simp add: is_dir_def)
  then show ?thesis using assms by (simp add: os_WriteFile_def next_fault_def)
qed

text \<open>
  A raw file cut short stays cut short. When the disk fails in the middle of writing a new
  raw message, saving reports the failure; the next attempt with the same message finds a file under
  the hash, reports success and leaves the first \<open>n\<close> bytes as the stored message.
\<close>

theorem truncated_raw_kept:
  assumes ready: "storage_ready base (fs\<lparr>fs_faults := []\<rparr>)" and k: "safe_comp k"
    and new: "raw_blob base k fs = None" and faults: "fs_faults fs = [FNone, FNone, FPartial n]"
  shows "\<exists>fs'. SaveRawMIME base k d fs = (Inl WriteRaw, fs') \<and> SaveRawMIME base k d fs' = (Inr (), fs') \<and>
    raw_blob base k fs' = Some (take n d)"
proof -
  let ?p = "raw_path base k" and ?fs1 = "fs\<lparr>fs_faults := [FNone, FPartial n]\<rparr>"
  have inv: "storage_inv base ?fs1" using ready by (simp add: storage_ready_def storage_inv_def)
  have base: "base \<noteq> []" using inv by (simp add: storage_inv_def)
  have dir: "filepath_Dir ?p = (fst (path_of base), snd (path_of base) @ [''raw''])" by (rule raw_dir_eq [OF base k])
  have above: "\<not> file_above ?p fs" using no_file_above_raw [OF ready k] by simp
  have st: "os_Stat ?p fs = (StatNotExist, ?fs1)"
    using faults new not_is_dir_raw [OF inv k] above by (simp add: os_Stat_def next_fault_def raw_blob_def is_dir_def)
  define fs2 where "fs2 = fs\<lparr>fs_faults := [FPartial n], fs_dirs := (\<lambda>q. fs_dirs fs q \<or> dir_prefix q (filepath_Dir ?p))\<rparr>"
  have "\<forall>m. fs_files fs (fst (filepath_Dir ?p), take m (snd (filepath_Dir ?p))) = None"
    using ready unfolding dir storage_ready_def by simp
  then have mk: "os_MkdirAll (filepath_Dir ?p) ?fs1 = (True, fs2)"
    by (simp del: upt_Suc add: os_MkdirAll_def next_fault_def list_ex_iff fs2_def)
  have inv2: "storage_inv base fs2" by (rule storage_inv_mkdir [OF inv dir _ mk]) simp
  have "is_dir (filepath_Dir ?p) fs2" by (simp add: is_dir_def fs2_def dir_prefix_def)
  then have wr: "os_WriteFile ?p d fs2 = (False, fs2\<lparr>fs_faults := [], fs_files := (fs_files fs2)(?p \<mapsto> take n d)\<rparr>)"
    using os_WriteFile_cut [of fs2 n ?p d] not_is_dir_raw [OF inv2 k] by (simp add: fs2_def)
  let ?fs3 = "fs2\<lparr>fs_faults := [], fs_files := (fs_files fs2)(?p \<mapsto> take n d)\<rparr>"
  have v: "validateKey k" by (rule safe_comp_validateKey [OF k])
  have "SaveRawMIME base k d fs = (Inl WriteRaw, ?fs3)" using st mk wr v by (simp add: SaveRawMIME_def Let_def)
  moreover have "\<not> file_above ?p fs2" using above by (simp add: fs2_def)
  then have "\<not> file_above ?p ?fs3" using file_above_write [of ?p fs2] by (simp add: file_above_def)
  then have "SaveRawMIME base k d ?fs3 = (Inr (), ?fs3)"
    using v by (simp add: SaveRawMIME_def Let_def os_Stat_def next_fault_def)
  moreover have "raw_blob base k ?fs3 = Some (take n d)" by (simp add: raw_blob_def)
  ultimately show ?thesis by blast
qed

theorem truncated_raw_kept_witness:
  "\<exists>fs'. SaveRawMIME ''data'' ''ab'' ''hello'' (empty_fs [FNone, FNone, FPartial 2]) = (Inl WriteRaw, fs') \<and>
    SaveRawMIME ''data'' ''ab'' ''hello'' fs' = (Inr (), fs') \<and> raw_blob ''data'' ''ab'' fs' = Some ''he''"
  using truncated_raw_kept [of "''data''" "empty_fs [FNone, FNone, FPartial 2]" "''ab''" 2 "''hello''"]
  by (simp add: empty_fs_ok(2) [unfolded empty_fs_def] empty_fs_def safe_comp_def raw_blob_def)

end
