(* ===== verification/Parser.thy ===== *)
theory Parser
  imports Externals Storage
begin

text \<open>
  \<open>internal/ingest/parser.go\<close>: from the raw bytes of a message to its metadata, bodies and
  attachments. The parsers of the standard library are fields of \<open>ext\<close>; everything the package
  itself does with their results is here. A multipart message nests, and the recursion of
  \<open>parseEntity\<close> takes fuel; \<open>parts_shrink\<close> below is why \<open>Suc (length raw)\<close> is always enough.
\<close>

record recipient =
  Email :: string
  Type :: string

record parsed_attachment =
  Content :: string
  MimeType :: string
  OriginalFilename :: string
  Size :: int
  AttachmentHash :: string

record parsed_message =
  Sender :: string
  Subject :: string
  MessageDate :: "int option"
  Recipients :: "recipient list"
  TextBody :: string
  HTMLBody :: string
  Attachments :: "parsed_attachment list"
  ContentHash :: string

datatype parse_error = OutOfFuel | ParseFailed string

section \<open>Text\<close>

definition HashBytes :: "ext \<Rightarrow> string \<Rightarrow> string" where
  "HashBytes E data = hex_encode (x_sha256 E data)"

definition canonicalEmail :: "ext \<Rightarrow> string \<Rightarrow> string" where
  "canonicalEmail E email = to_lower (x_lower E) (trim_space email)"

text \<open>The bytes of \<open>U+FFFD\<close>.\<close>

definition replacement :: string where
  "replacement = encode_rune RuneError"

definition utf8_labels :: "string list" where
  "utf8_labels = [''utf-8'', ''utf8'', ''us-ascii'', ''ascii'']"

definition decodeText :: "ext \<Rightarrow> string \<Rightarrow> string \<Rightarrow> string" where
  "decodeText E content charsetLabel =
     (let l0 = to_lower (x_lower E) (trim_space charsetLabel);
          l1 = (if l0 = [] then ''utf-8'' else l0)
      in if l1 \<in> set utf8_labels \<and> valid_utf8 content then content
         else let label = (if l1 \<in> set utf8_labels then ''windows-1252'' else l1);
                  decoded = (case x_charset E label content of
                      None \<Rightarrow> x_charset E ''windows-1252'' content | Some r \<Rightarrow> Some r)
              in (case decoded of
                    Some (Some d) \<Rightarrow> to_valid_utf8 d replacement
                  | _ \<Rightarrow> to_valid_utf8 content replacement))"

definition decodeHeaderText :: "ext \<Rightarrow> string \<Rightarrow> string" where
  "decodeHeaderText E value =
     (if value = [] then []
      else decodeText E (case x_decode_header E value of Inr d \<Rightarrow> d | Inl _ \<Rightarrow> value) [])"

definition htmlToText :: "ext \<Rightarrow> string \<Rightarrow> string" where
  "htmlToText E s = (case x_html2text E s of Inl e \<Rightarrow> [] | Inr t \<Rightarrow> t)"

definition decodeContent :: "ext \<Rightarrow> mime_header \<Rightarrow> reader \<Rightarrow> reader" where
  "decodeContent E header body =
     (let encoding = to_lower (x_lower E) (header_get header ''Content-Transfer-Encoding'')
      in if encoding = ''quoted-printable'' then x_quoted_printable E body
         else if encoding = ''base64'' then x_base64 E body
         else body)"

section \<open>Recipients\<close>

definition recipients_of :: "ext \<Rightarrow> string \<Rightarrow> string list \<Rightarrow> recipient list" where
  "recipients_of E recipientType addresses =
     map (\<lambda>e. \<lparr>Email = e, Type = recipientType\<rparr>) (filter (\<lambda>e. e \<noteq> []) (map (canonicalEmail E) addresses))"

definition parseRecipients :: "ext \<Rightarrow> mime_header \<Rightarrow> string \<Rightarrow> string \<Rightarrow> recipient list" where
  "parseRecipients E header name recipientType =
     concat (map (\<lambda>value. case x_address_list E value of
         Inl e \<Rightarrow> [] | Inr addresses \<Rightarrow> recipients_of E recipientType addresses) (header name))"

section \<open>Entities\<close>

text \<open>The media type of an entity with its default, in lower case, and its parameters.\<close>

definition mediaTypeOf :: "ext \<Rightarrow> mime_header \<Rightarrow> string \<times> (string \<Rightarrow> string)" where
  "mediaTypeOf E header =
     (case x_media E (header_get header ''Content-Type'') of (mt, params, err) \<Rightarrow>
        (to_lower (x_lower E) (if err \<noteq> None \<or> mt = [] then ''text/plain'' else mt), params))"

definition media_params :: "ext \<Rightarrow> string \<Rightarrow> string \<Rightarrow> string" where
  "media_params E value = fst (snd (x_media E value))"

definition consumeLeaf :: "ext \<Rightarrow> mime_header \<Rightarrow> reader \<Rightarrow> string \<Rightarrow> parsed_message \<Rightarrow>
    (parse_error, unit, parsed_message) outcome" where
  "consumeLeaf E header body mediaType parsed =
     (case read_all (decodeContent E header body) of
        (content, Some e) \<Rightarrow> (Inl (ParseFailed (''read MIME leaf: '' @ e)), parsed)
      | (content, None) \<Rightarrow>
          let dispositionParams = media_params E (header_get header ''Content-Disposition'');
              contentTypeParams = media_params E (header_get header ''Content-Type'');
              filename0 = dispositionParams ''filename'';
              filename1 = (if filename0 = [] then contentTypeParams ''name'' else filename0);
              filename = decodeHeaderText E filename1;
              disposition = to_lower (x_lower E) (header_get header ''Content-Disposition'')
          in if filename \<noteq> [] \<or> has_prefix disposition ''attachment''
             then (Inr (), parsed\<lparr>Attachments := Attachments parsed @
                     [\<lparr>Content = content, MimeType = mediaType, OriginalFilename = filename,
                       Size = int (length content), AttachmentHash = HashBytes E content\<rparr>]\<rparr>)
             else if mediaType = ''text/plain''
             then (Inr (), parsed\<lparr>TextBody := TextBody parsed @ decodeText E content (contentTypeParams ''charset'')\<rparr>)
             else if mediaType = ''text/html''
             then (Inr (), parsed\<lparr>HTMLBody := HTMLBody parsed @ decodeText E content (contentTypeParams ''charset'')\<rparr>)
             else (Inr (), parsed))"

text \<open>\<open>parsePart\<close>, with the call to \<open>parseEntity\<close> as its second argument.\<close>

definition parsePart :: "ext \<Rightarrow>
    (mime_header \<Rightarrow> reader \<Rightarrow> parsed_message \<Rightarrow> (parse_error, unit, parsed_message) outcome) \<Rightarrow>
    mime_header \<Rightarrow> reader \<Rightarrow> parsed_message \<Rightarrow> (parse_error, unit, parsed_message) outcome" where
  "parsePart E entity header body parsed =
     (let mediaType = fst (mediaTypeOf E header)
      in if has_prefix mediaType ''multipart/'' then entity header body parsed
         else consumeLeaf E header body mediaType parsed)"

primrec parseEntity :: "nat \<Rightarrow> ext \<Rightarrow> mime_header \<Rightarrow> reader \<Rightarrow> parsed_message \<Rightarrow>
    (parse_error, unit, parsed_message) outcome" where
  "parseEntity 0 E header body parsed = (Inl OutOfFuel, parsed)"
| "parseEntity (Suc fuel) E header body parsed =
     (case mediaTypeOf E header of (mediaType, params) \<Rightarrow>
        if has_prefix mediaType ''multipart/'' then
          if params ''boundary'' = []
          then (Inl (ParseFailed ''multipart message missing boundary''), parsed)
          else (case x_parts E (params ''boundary'') body of (parts, end) \<Rightarrow>
             andthen
               (foreach (\<lambda>(h, b). parsePart E (parseEntity fuel E) h b) parts parsed)
               (\<lambda>_ parsed'. case end of
                  None \<Rightarrow> (Inr (), parsed')
                | Some e \<Rightarrow> (Inl (ParseFailed (''read MIME part: '' @ e)), parsed')))
        else consumeLeaf E header body mediaType parsed)"

section \<open>Messages\<close>

definition zero_parsed :: parsed_message where
  "zero_parsed = \<lparr>Sender = [], Subject = [], MessageDate = None, Recipients = [], TextBody = [],
     HTMLBody = [], Attachments = [], ContentHash = []\<rparr>"

definition parse_sender :: "ext \<Rightarrow> mime_header \<Rightarrow> string" where
  "parse_sender E header =
     (let from = header_get header ''From''
      in if from = [] then []
         else (case x_address E from of
             Inl e \<Rightarrow> decodeText E from [] | Inr addr \<Rightarrow> canonicalEmail E addr))"

definition parsed_headers :: "ext \<Rightarrow> string \<Rightarrow> mime_header \<Rightarrow> parsed_message" where
  "parsed_headers E raw header =
     zero_parsed\<lparr>ContentHash := HashBytes E raw,
       Sender := parse_sender E header,
       Subject := decodeHeaderText E (header_get header ''Subject''),
       MessageDate := (case x_date E header of Inl e \<Rightarrow> None | Inr d \<Rightarrow> d),
       Recipients := parseRecipients E header ''To'' ''to'' @ parseRecipients E header ''Cc'' ''cc'' @
         parseRecipients E header ''Bcc'' ''bcc''\<rparr>"

definition parse_fuel :: "string \<Rightarrow> nat" where
  "parse_fuel raw = Suc (length raw)"

definition ParseMIME :: "ext \<Rightarrow> string \<Rightarrow> (parse_error, unit, parsed_message) outcome" where
  "ParseMIME E raw =
     (case x_read_message E raw of
        Inl e \<Rightarrow> (Inl (ParseFailed (''read MIME message: '' @ e)), zero_parsed\<lparr>ContentHash := HashBytes E raw\<rparr>)
      | Inr (header, body) \<Rightarrow>
          andthen
            (parseEntity (parse_fuel raw) E header \<lparr>rd_bytes = body, rd_err = None\<rparr> (parsed_headers E raw header))
            (\<lambda>_ parsed. (Inr (),
               if TextBody parsed = [] \<and> HTMLBody parsed \<noteq> []
               then parsed\<lparr>TextBody := htmlToText E (HTMLBody parsed)\<rparr> else parsed)))"

section \<open>Fallback\<close>

definition readFallbackBody :: "ext \<Rightarrow> mime_header \<Rightarrow> reader \<Rightarrow> string" where
  "readFallbackBody E header body = fst (read_all (decodeContent E header body))"

text \<open>The loop over the parts: the first HTML part with a body ends it.\<close>

fun fallback_html :: "ext \<Rightarrow> (mime_header \<times> reader) list \<Rightarrow> string" where
  "fallback_html E [] = []"
| "fallback_html E ((h, b) # parts) =
     (case x_media E (header_get h ''Content-Type'') of (mt, params, _) \<Rightarrow>
        if to_lower (x_lower E) mt = ''text/html'' \<and> readFallbackBody E h b \<noteq> []
        then decodeText E (readFallbackBody E h b) (params ''charset'')
        else fallback_html E parts)"

definition fallback_body :: "ext \<Rightarrow> mime_header \<Rightarrow> reader \<Rightarrow> string" where
  "fallback_body E header body =
     (case x_media E (header_get header ''Content-Type'') of (mt, params, err) \<Rightarrow>
        if err = None \<and> has_prefix (to_lower (x_lower E) mt) ''multipart/'' then
          (if params ''boundary'' \<noteq> [] then fallback_html E (fst (x_parts E (params ''boundary'') body)) else [])
        else if has_prefix (to_lower (x_lower E) mt) ''text/html'' then
          (let content = readFallbackBody E header body
           in if content \<noteq> [] then decodeText E content (params ''charset'') else [])
        else [])"

text \<open>\<open>fallbackParsedMessageWithError\<close>; \<open>now\<close> is its \<open>time.Now()\<close> and \<open>err\<close> the text of the error.\<close>

definition fallbackParsedMessageWithError :: "ext \<Rightarrow> int \<Rightarrow> string \<Rightarrow> string \<Rightarrow> string \<Rightarrow> parsed_message" where
  "fallbackParsedMessageWithError E now raw contentHash err =
     (let parsed = zero_parsed\<lparr>ContentHash := contentHash, MessageDate := Some now,
                     TextBody := ''[Parse Error: '' @ err @ '']''\<rparr>
      in case x_read_message E raw of
           Inl e \<Rightarrow> parsed
         | Inr (header, body) \<Rightarrow>
             let from = header_get header ''From'' in
             parsed\<lparr>Sender := (if from = [] then []
                        else (case x_address E from of Inl e \<Rightarrow> [] | Inr addr \<Rightarrow> canonicalEmail E addr)),
                    Subject := decodeHeaderText E (header_get header ''Subject''),
                    HTMLBody := fallback_body E header \<lparr>rd_bytes = body, rd_err = None\<rparr>\<rparr>)"

section \<open>Text that leaves the parser is UTF-8\<close>

text \<open>What \<open>html2text\<close> makes of UTF-8 is UTF-8.\<close>

definition html2text_ok :: "ext \<Rightarrow> bool" where
  "html2text_ok E \<longleftrightarrow> (\<forall>s t. valid_utf8 s \<longrightarrow> x_html2text E s = Inr t \<longrightarrow> valid_utf8 t)"

definition parsed_recipient_ok :: "ext \<Rightarrow> recipient \<Rightarrow> bool" where
  "parsed_recipient_ok E r \<longleftrightarrow> valid_utf8 (Email r) \<and> Email r \<noteq> [] \<and>
     canonicalEmail E (Email r) = Email r \<and> Type r \<in> {''to'', ''cc'', ''bcc''}"

definition parsed_attachment_ok :: "ext \<Rightarrow> parsed_attachment \<Rightarrow> bool" where
  "parsed_attachment_ok E a \<longleftrightarrow> valid_utf8 (MimeType a) \<and> valid_utf8 (OriginalFilename a) \<and>
     Size a = int (length (Content a)) \<and> AttachmentHash a = HashBytes E (Content a)"

definition parsed_ok :: "ext \<Rightarrow> parsed_message \<Rightarrow> bool" where
  "parsed_ok E p \<longleftrightarrow> valid_utf8 (Sender p) \<and> valid_utf8 (Subject p) \<and> valid_utf8 (TextBody p) \<and>
     valid_utf8 (HTMLBody p) \<and> (\<forall>r \<in> set (Recipients p). parsed_recipient_ok E r) \<and>
     (\<forall>a \<in> set (Attachments p). parsed_attachment_ok E a)"

lemma valid_replacement [simp]: "valid_utf8 replacement"
  using valid_utf8_encode_runes [of "[RuneError]"] by (simp add: replacement_def)

lemma decodeText_valid: "valid_utf8 (decodeText E content label)"
  by (auto simp: decodeText_def Let_def valid_to_valid_utf8 split: option.splits)

lemma decodeHeaderText_valid: "valid_utf8 (decodeHeaderText E v)"
  by (simp add: decodeHeaderText_def decodeText_valid)

lemma canonicalEmail_valid: "unicode_lower_ok (x_lower E) \<Longrightarrow> valid_utf8 (canonicalEmail E s)"
  by (simp add: canonicalEmail_def valid_to_lower)

lemma canonicalEmail_idem_lemma:
  "unicode_lower_ok (x_lower E) \<Longrightarrow> canonicalEmail E (canonicalEmail E s) = canonicalEmail E s"
  by (simp add: canonicalEmail_def to_lower_trim_idem)

lemmas text_valid = decodeText_valid decodeHeaderText_valid canonicalEmail_valid

lemma parseRecipients_ok:
  assumes "unicode_lower_ok (x_lower E)" and "t \<in> {''to'', ''cc'', ''bcc''}"
  shows "\<forall>r \<in> set (parseRecipients E header name t). parsed_recipient_ok E r"
  using assms
  by (auto simp: parseRecipients_def recipients_of_def parsed_recipient_ok_def canonicalEmail_valid
      canonicalEmail_idem_lemma split: sum.splits)

lemma parseRecipients_types: "\<forall>r \<in> set (parseRecipients E header name t). Type r = t"
  by (auto simp: parseRecipients_def recipients_of_def split: sum.splits)

lemma mediaTypeOf_valid: "unicode_lower_ok (x_lower E) \<Longrightarrow> valid_utf8 (fst (mediaTypeOf E h))"
  by (auto simp: mediaTypeOf_def valid_to_lower split: prod.splits)

text \<open>What \<open>consumeLeaf\<close> can do: fail, add one attachment, extend one body, or skip the leaf.\<close>

lemma consumeLeaf_cases:
  obtains e where "consumeLeaf E h b mt p = (Inl (ParseFailed e), p)"
  | c f where "consumeLeaf E h b mt p = (Inr (), p\<lparr>Attachments := Attachments p @
        [\<lparr>Content = c, MimeType = mt, OriginalFilename = decodeHeaderText E f,
          Size = int (length c), AttachmentHash = HashBytes E c\<rparr>]\<rparr>)"
  | c l where "consumeLeaf E h b mt p = (Inr (), p\<lparr>TextBody := TextBody p @ decodeText E c l\<rparr>)"
  | c l where "consumeLeaf E h b mt p = (Inr (), p\<lparr>HTMLBody := HTMLBody p @ decodeText E c l\<rparr>)"
  | "consumeLeaf E h b mt p = (Inr (), p)"
proof -
  obtain c e where r: "read_all (decodeContent E h b) = (c, e)" by fastforce
  show ?thesis
  proof (cases e)
    case (Some x)
    then show ?thesis using r that(1) by (simp add: consumeLeaf_def)
  next
    case None
    then show ?thesis
      using r that(2-5) unfolding consumeLeaf_def Let_def by (simp split: if_splits) metis
  qed
qed

lemma consumeLeaf_ok:
  "parsed_ok E p \<Longrightarrow> valid_utf8 mt \<Longrightarrow> parsed_ok E (snd (consumeLeaf E h b mt p))"
  by (cases rule: consumeLeaf_cases [of E h b mt p])
    (simp_all add: parsed_ok_def parsed_attachment_ok_def text_valid valid_utf8_append)

text \<open>A property of the result that every leaf keeps is kept by the whole walk.\<close>

lemma parseEntity_keeps:
  assumes leaf: "\<And>h b q. P q \<Longrightarrow> P (snd (consumeLeaf E h b (fst (mediaTypeOf E h)) q))" and "P p"
  shows "P (snd (parseEntity fuel E h b p))"
  using assms(2)
proof (induction fuel arbitrary: h b p)
  case 0
  then show ?case by simp
next
  case (Suc fuel)
  obtain mt params where mt: "mediaTypeOf E h = (mt, params)" by fastforce
  obtain parts e where xp: "x_parts E (params ''boundary'') b = (parts, e)" by fastforce
  let ?f = "\<lambda>(h, b). parsePart E (parseEntity fuel E) h b"
  have "P (snd (foreach ?f parts p))"
    by (rule foreach_keeps [where P = P, OF Suc.prems])
      (auto simp: parsePart_def Let_def intro: Suc.IH leaf)
  then have "P (snd (andthen (foreach ?f parts p)
      (\<lambda>_ q. case e of None \<Rightarrow> (Inr (), q) | Some x \<Rightarrow> (Inl (ParseFailed (''read MIME part: '' @ x)), q))))"
    by (rule andthen_keeps) (simp split: option.splits)
  then show ?case using leaf [OF Suc.prems, of h b] Suc.prems by (simp add: mt xp)
qed

lemma parseEntity_ok:
  assumes "unicode_lower_ok (x_lower E)" and "parsed_ok E p"
  shows "parsed_ok E (snd (parseEntity fuel E h b p))"
  by (rule parseEntity_keeps [where P = "parsed_ok E"])
    (simp_all add: assms consumeLeaf_ok mediaTypeOf_valid)

lemma parsed_headers_ok: "unicode_lower_ok (x_lower E) \<Longrightarrow> parsed_ok E (parsed_headers E raw h)"
  using parseRecipients_ok [of E "''to''" h "''To''"] parseRecipients_ok [of E "''cc''" h "''Cc''"]
    parseRecipients_ok [of E "''bcc''" h "''Bcc''"]
  by (auto simp: parsed_ok_def parsed_headers_def zero_parsed_def parse_sender_def Let_def text_valid
      split: sum.splits)

lemma zero_parsed_ok [simp]: "parsed_ok E (zero_parsed\<lparr>ContentHash := c\<rparr>)"
  by (simp add: parsed_ok_def zero_parsed_def)

lemma htmlToText_valid: "html2text_ok E \<Longrightarrow> valid_utf8 s \<Longrightarrow> valid_utf8 (htmlToText E s)"
  by (auto simp: htmlToText_def html2text_ok_def split: sum.splits)

lemma ParseMIME_ok:
  assumes ul: "unicode_lower_ok (x_lower E)" and h2t: "html2text_ok E"
  shows "parsed_ok E (snd (ParseMIME E raw))"
proof (cases "x_read_message E raw")
  case (Inl e)
  then show ?thesis by (simp add: ParseMIME_def)
next
  case (Inr hb)
  obtain h b where hb: "hb = (h, b)" by fastforce
  have "parsed_ok E (snd (parseEntity (parse_fuel raw) E h \<lparr>rd_bytes = b, rd_err = None\<rparr> (parsed_headers E raw h)))"
    by (intro parseEntity_ok parsed_headers_ok ul)
  then show ?thesis
    unfolding ParseMIME_def Inr hb sum.case prod.case
    by (rule andthen_keeps) (auto simp: parsed_ok_def htmlToText_valid [OF h2t])
qed

section \<open>The content hash\<close>

lemma consumeLeaf_keeps:
  "ContentHash (snd (consumeLeaf E h b mt p)) = ContentHash p \<and>
   Recipients (snd (consumeLeaf E h b mt p)) = Recipients p \<and>
   Sender (snd (consumeLeaf E h b mt p)) = Sender p \<and>
   Subject (snd (consumeLeaf E h b mt p)) = Subject p \<and>
   MessageDate (snd (consumeLeaf E h b mt p)) = MessageDate p"
  by (auto simp: consumeLeaf_def Let_def split: prod.splits option.splits)

definition same_headers :: "parsed_message \<Rightarrow> parsed_message \<Rightarrow> bool" where
  "same_headers p q \<longleftrightarrow> ContentHash q = ContentHash p \<and> Recipients q = Recipients p \<and>
     Sender q = Sender p \<and> Subject q = Subject p \<and> MessageDate q = MessageDate p"

lemma parseEntity_headers: "same_headers p (snd (parseEntity fuel E h b p))"
  by (rule parseEntity_keeps [where P = "same_headers p"]) (simp_all add: consumeLeaf_keeps same_headers_def)

lemma ParseMIME_hash: "ContentHash (snd (ParseMIME E raw)) = HashBytes E raw"
proof (cases "x_read_message E raw")
  case (Inl e)
  then show ?thesis by (simp add: ParseMIME_def)
next
  case (Inr hb)
  obtain h b where hb: "hb = (h, b)" by fastforce
  have "ContentHash (snd (parseEntity (parse_fuel raw) E h \<lparr>rd_bytes = b, rd_err = None\<rparr>
      (parsed_headers E raw h))) = HashBytes E raw"
    using parseEntity_headers by (simp add: same_headers_def) (simp add: parsed_headers_def)
  then show ?thesis
    unfolding ParseMIME_def Inr hb sum.case prod.case
    by (rule andthen_keeps) simp
qed

section \<open>Attachments\<close>

text \<open>An attachment is kept with its size and under the hash of its bytes.\<close>

definition hashed :: "ext \<Rightarrow> parsed_message \<Rightarrow> bool" where
  "hashed E p \<longleftrightarrow> (\<forall>a \<in> set (Attachments p).
     AttachmentHash a = HashBytes E (Content a) \<and> Size a = int (length (Content a)))"

lemma consumeLeaf_hashed: "hashed E p \<Longrightarrow> hashed E (snd (consumeLeaf E h b mt p))"
  by (cases rule: consumeLeaf_cases [of E h b mt p]) (simp_all add: hashed_def)

lemma ParseMIME_hashed: "hashed E (snd (ParseMIME E raw))"
proof (cases "x_read_message E raw")
  case (Inl e)
  then show ?thesis by (simp add: ParseMIME_def hashed_def zero_parsed_def)
next
  case (Inr hb)
  obtain h b where hb: "hb = (h, b)" by fastforce
  have "hashed E (snd (parseEntity (parse_fuel raw) E h \<lparr>rd_bytes = b, rd_err = None\<rparr> (parsed_headers E raw h)))"
    by (rule parseEntity_keeps [where P = "hashed E"])
      (simp_all add: consumeLeaf_hashed, simp add: hashed_def parsed_headers_def zero_parsed_def)
  then show ?thesis
    unfolding ParseMIME_def Inr hb sum.case prod.case
    by (rule andthen_keeps) (simp add: hashed_def)
qed

lemma HashBytes_hex: "sha256_ok E \<Longrightarrow> length (HashBytes E d) = 64 \<and> list_all is_hex (HashBytes E d)"
  by (auto simp: HashBytes_def sha256_ok_def list_all_iff hex_encode_hex)

lemma HashBytes_safe: "sha256_ok E \<Longrightarrow> safe_comp (HashBytes E d)"
  using HashBytes_hex [of E d] by (intro safe_comp_hex) auto

section \<open>Enough fuel\<close>

text \<open>
  Every part of a multipart body lies inside it, behind a boundary line, and the body of a message
  inside the message.
\<close>

definition parts_shrink :: "ext \<Rightarrow> bool" where
  "parts_shrink E \<longleftrightarrow>
     (\<forall>bd b h pb. (h, pb) \<in> set (fst (x_parts E bd b)) \<longrightarrow> length (rd_bytes pb) < length (rd_bytes b)) \<and>
     (\<forall>raw h b. x_read_message E raw = Inr (h, b) \<longrightarrow> length b \<le> length raw)"

lemma consumeLeaf_fuel: "fst (consumeLeaf E h b mt p) \<noteq> Inl OutOfFuel"
  by (auto simp: consumeLeaf_def Let_def split: prod.splits option.splits)

lemma foreach_no_error:
  assumes "\<And>x s. x \<in> set xs \<Longrightarrow> fst (f x s) \<noteq> Inl e"
  shows "fst (foreach f xs s) \<noteq> Inl e"
  using assms
proof (induction xs arbitrary: s)
  case Nil
  then show ?case by simp
next
  case (Cons x xs)
  then show ?case by (cases "f x s"; cases "fst (f x s)") (auto, metis fst_conv)
qed

lemma parseEntity_enough_fuel:
  assumes sh: "parts_shrink E" and "length (rd_bytes b) < fuel"
  shows "fst (parseEntity fuel E h b p) \<noteq> Inl OutOfFuel"
  using assms(2)
proof (induction fuel arbitrary: h b p)
  case 0
  then show ?case by simp
next
  case (Suc fuel)
  obtain mt params where mt: "mediaTypeOf E h = (mt, params)" by fastforce
  obtain parts e where xp: "x_parts E (params ''boundary'') b = (parts, e)" by fastforce
  let ?f = "\<lambda>(h, b). parsePart E (parseEntity fuel E) h b"
  have "fst (?f x q) \<noteq> Inl OutOfFuel" if x: "x \<in> set parts" for x q
  proof -
    obtain ph pb where ph: "x = (ph, pb)" by fastforce
    have "(ph, pb) \<in> set (fst (x_parts E (params ''boundary'') b))" using x ph xp by simp
    then have "length (rd_bytes pb) < length (rd_bytes b)" using sh unfolding parts_shrink_def by blast
    then have "length (rd_bytes pb) < fuel" using Suc.prems by simp
    then show ?thesis using Suc.IH ph by (simp add: parsePart_def Let_def consumeLeaf_fuel)
  qed
  then have "fst (foreach ?f parts p) \<noteq> Inl OutOfFuel" by (rule foreach_no_error)
  then have "fst (andthen (foreach ?f parts p)
      (\<lambda>_ q. case e of None \<Rightarrow> (Inr (), q) | Some x \<Rightarrow> (Inl (ParseFailed (''read MIME part: '' @ x)), q)))
      \<noteq> Inl OutOfFuel"
    by (rule andthen_no_error) (simp split: option.splits)
  then show ?case by (simp add: mt xp consumeLeaf_fuel)
qed

lemma ParseMIME_enough_fuel:
  assumes "parts_shrink E"
  shows "fst (ParseMIME E raw) \<noteq> Inl OutOfFuel"
proof (cases "x_read_message E raw")
  case (Inl e)
  then show ?thesis by (simp add: ParseMIME_def)
next
  case (Inr hb)
  obtain h b where hb: "hb = (h, b)" by fastforce
  have "length b \<le> length raw" using assms Inr hb unfolding parts_shrink_def by blast
  then have "fst (parseEntity (parse_fuel raw) E h \<lparr>rd_bytes = b, rd_err = None\<rparr> p) \<noteq> Inl OutOfFuel" for p
    by (intro parseEntity_enough_fuel assms) (simp add: parse_fuel_def)
  then show ?thesis
    unfolding ParseMIME_def Inr hb sum.case prod.case by (rule andthen_no_error) simp
qed

lemma parseEntity_same_fuel:
  assumes sh: "parts_shrink E" and "length (rd_bytes b) < fuel" and "length (rd_bytes b) < fuel'"
  shows "parseEntity fuel E h b p = parseEntity fuel' E h b p"
  using assms(2,3)
proof (induction fuel arbitrary: fuel' h b p)
  case 0
  then show ?case by simp
next
  case (Suc fuel)
  obtain g where g: "fuel' = Suc g" using Suc.prems(2) by (cases fuel') simp_all
  obtain mt params where mt: "mediaTypeOf E h = (mt, params)" by fastforce
  obtain parts e where xp: "x_parts E (params ''boundary'') b = (parts, e)" by fastforce
  have "foreach (\<lambda>(h, b). parsePart E (parseEntity fuel E) h b) parts p =
      foreach (\<lambda>(h, b). parsePart E (parseEntity g E) h b) parts p"
  proof (rule foreach_cong)
    fix x and q assume x: "x \<in> set parts"
    obtain ph pb where ph: "x = (ph, pb)" by fastforce
    have "(ph, pb) \<in> set (fst (x_parts E (params ''boundary'') b))" using x ph xp by simp
    then have "length (rd_bytes pb) < length (rd_bytes b)" using sh unfolding parts_shrink_def by blast
    then have "parseEntity fuel E ph pb q = parseEntity g E ph pb q"
      using Suc.IH [of pb g ph q] Suc.prems g by simp
    then show "(case x of (h, b) \<Rightarrow> parsePart E (parseEntity fuel E) h b) q =
        (case x of (h, b) \<Rightarrow> parsePart E (parseEntity g E) h b) q"
      by (simp add: ph parsePart_def Let_def)
  qed
  then show ?case by (simp add: g mt xp)
qed

lemma fallback_html_valid: "valid_utf8 (fallback_html E parts)"
  by (induction parts) (auto simp: decodeText_valid split: prod.splits)

lemma fallback_body_valid: "valid_utf8 (fallback_body E h b)"
  by (auto simp: fallback_body_def Let_def fallback_html_valid decodeText_valid split: prod.splits)

lemma bracket_texts: "valid_utf8 ''[Parse Error: ''" "valid_utf8 '']''"
  by (rule valid_utf8_ascii [THEN conjunct1], simp add: byte_def)+

lemma bracket_valid: "valid_utf8 err \<Longrightarrow> valid_utf8 (''[Parse Error: '' @ err @ '']'')"
  using valid_utf8_append [OF bracket_texts(1)] valid_utf8_append [of err] bracket_texts(2) by blast

lemma fallback_ok:
  assumes ul: "unicode_lower_ok (x_lower E)" and err: "valid_utf8 err"
  shows "parsed_ok E (fallbackParsedMessageWithError E now raw h err)"
proof -
  note b = bracket_valid [OF err]
  show ?thesis
    unfolding fallbackParsedMessageWithError_def Let_def parsed_ok_def zero_parsed_def
    by (auto simp: b text_valid ul fallback_body_valid simp del: append_Cons split: sum.splits prod.splits)
qed

section \<open>Concrete messages\<close>

lemma plain_ext_sel:
  "x_lower plain_ext = latin1_lower" "x_read_message plain_ext = (\<lambda>raw. Inr ((\<lambda>name. if name = ''To'' then [''Alice@example.org''] else []), raw))"
  "x_address_list plain_ext = (\<lambda>v. Inr [v])" "x_date plain_ext = (\<lambda>h. Inl ''mail: header not in message'')"
  "x_media plain_ext = (\<lambda>v. (v, \<lambda>p. [], if v = [] then Some ''mime: no media type'' else None))"
  "x_collate plain_ext = id"
  by (simp_all add: plain_ext_def)

lemma text_eval:
  "to_lower latin1_lower ''text/plain'' = ''text/plain''"
  "to_lower latin1_lower ''multipart/mixed'' = ''multipart/mixed''"
  "to_lower latin1_lower ''attachment'' = ''attachment''"
  "to_lower latin1_lower [] = []" "trim_space [] = []"
  "has_prefix ''text/plain'' ''multipart/'' = False" "has_prefix ''multipart/mixed'' ''multipart/''"
  "has_prefix [] ''attachment'' = False" "has_prefix ''attachment'' ''attachment''"
  "to_lower latin1_lower (trim_space ''Alice@example.org'') = ''alice@example.org''"
  by code_simp+

text \<open>A message to one recipient, as \<open>plain_ext\<close> reads it.\<close>

definition plain_message :: "string \<Rightarrow> parsed_message" where
  "plain_message raw = zero_parsed\<lparr>Recipients := [\<lparr>Email = ''alice@example.org'', Type = ''to''\<rparr>],
     TextBody := raw, ContentHash := HashBytes plain_ext raw\<rparr>"

lemma plain_mediaTypeOf: "header_get h ''Content-Type'' = [] \<Longrightarrow> fst (mediaTypeOf plain_ext h) = ''text/plain''"
  by (simp add: mediaTypeOf_def plain_ext_sel text_eval)

lemma plain_parsed_headers:
  "parsed_headers plain_ext raw (\<lambda>name. if name = ''To'' then [''Alice@example.org''] else []) =
   (plain_message raw)\<lparr>TextBody := []\<rparr>"
  by (simp add: parsed_headers_def plain_message_def zero_parsed_def parse_sender_def header_get_def decodeHeaderText_def
      parseRecipients_def recipients_of_def canonicalEmail_def plain_ext_sel text_eval)

lemma plain_decodeText: "valid_utf8 s \<Longrightarrow> decodeText plain_ext s [] = s"
  by (simp add: decodeText_def utf8_labels_def plain_ext_sel text_eval Let_def)

lemma plain_leaf:
  assumes "header_get h ''Content-Disposition'' = []" and "header_get h ''Content-Transfer-Encoding'' = []" and "valid_utf8 s"
  shows "consumeLeaf plain_ext h \<lparr>rd_bytes = s, rd_err = None\<rparr> ''text/plain'' p = (Inr (), p\<lparr>TextBody := TextBody p @ s\<rparr>)"
  using assms
  by (simp add: consumeLeaf_def decodeContent_def read_all_def media_params_def plain_ext_sel text_eval Let_def
      decodeHeaderText_def plain_decodeText)

lemma parseEntity_leaf:
  "fst (mediaTypeOf E h) = mt \<Longrightarrow> \<not> has_prefix mt ''multipart/'' \<Longrightarrow>
   parseEntity (Suc fuel) E h b p = consumeLeaf E h b mt p"
  by (cases "mediaTypeOf E h") simp

lemma plain_ParseMIME:
  assumes "valid_utf8 raw"
  shows "ParseMIME plain_ext raw = (Inr (), plain_message raw)"
proof -
  let ?h = "\<lambda>name. if name = ''To'' then [''Alice@example.org''] else []"
  have mt: "fst (mediaTypeOf plain_ext ?h) = ''text/plain''"
    by (rule plain_mediaTypeOf) (simp add: header_get_def)
  have "parseEntity (parse_fuel raw) plain_ext ?h \<lparr>rd_bytes = raw, rd_err = None\<rparr> (parsed_headers plain_ext raw ?h) =
      (Inr (), (plain_message raw)\<lparr>TextBody := [] @ raw\<rparr>)"
    unfolding parse_fuel_def plain_parsed_headers
    using assms by (subst parseEntity_leaf [OF mt])
      (simp_all add: text_eval plain_leaf header_get_def plain_message_def zero_parsed_def)
  then show ?thesis
    unfolding ParseMIME_def plain_ext_sel(2) sum.case prod.case by (simp add: plain_message_def zero_parsed_def)
qed

section \<open>Properties\<close>

text \<open>
  Property C26: text that leaves the parser. Whatever the message, its parse succeeded or failed half-way:
  sender, subject, bodies, addresses, media types and file names are UTF-8, so the database takes them;
  recipients have a canonical address and one of the three types; every attachment has the size and the
  hash of its bytes. The same holds of the fallback message, when the text of the parse error is UTF-8.
\<close>

theorem parsed_text_valid:
  assumes "unicode_lower_ok (x_lower E)" and "html2text_ok E"
  shows "parsed_ok E (snd (ParseMIME E raw)) \<and>
    (valid_utf8 err \<longrightarrow> parsed_ok E (fallbackParsedMessageWithError E now raw h err))"
  using ParseMIME_ok [OF assms] fallback_ok [OF assms(1)] by blast

theorem parsed_text_valid_witness: "parsed_ok plain_ext (snd (ParseMIME plain_ext [CHR 0xFF, CHR 0xC3]))"
proof -
  have "unicode_lower_ok (x_lower plain_ext)" by (simp add: plain_ext_ok(3) latin1_lower_ok)
  moreover have "html2text_ok plain_ext" by (simp add: html2text_ok_def plain_ext_def)
  ultimately show ?thesis using parsed_text_valid by blast
qed

text \<open>
  Property C27: the parser terminates on every message. When the parts of a multipart body lie inside it,
  the fuel \<open>ParseMIME\<close> starts with never runs out, more fuel changes nothing, and the content hash of the
  result is the hash of the raw bytes, whether or not the parse succeeds.
\<close>

theorem parse_total:
  assumes "parts_shrink E"
  shows "fst (ParseMIME E raw) \<noteq> Inl OutOfFuel \<and>
    (\<forall>h body p fuel. x_read_message E raw = Inr (h, body) \<longrightarrow> parse_fuel raw \<le> fuel \<longrightarrow>
       parseEntity fuel E h \<lparr>rd_bytes = body, rd_err = None\<rparr> p =
       parseEntity (parse_fuel raw) E h \<lparr>rd_bytes = body, rd_err = None\<rparr> p) \<and>
    ContentHash (snd (ParseMIME E raw)) = HashBytes E raw"
proof (intro conjI allI impI)
  fix h body p fuel assume "x_read_message E raw = Inr (h, body)" and f: "parse_fuel raw \<le> fuel"
  then have "length body \<le> length raw" using assms unfolding parts_shrink_def by blast
  then show "parseEntity fuel E h \<lparr>rd_bytes = body, rd_err = None\<rparr> p =
      parseEntity (parse_fuel raw) E h \<lparr>rd_bytes = body, rd_err = None\<rparr> p"
    using f by (intro parseEntity_same_fuel assms) (simp_all add: parse_fuel_def)
qed (simp_all add: ParseMIME_enough_fuel assms ParseMIME_hash)

text \<open>External parsers for which every body of more than one byte is a multipart body with one part.\<close>

definition nested_ext :: ext where
  "nested_ext = plain_ext\<lparr>
     x_read_message := (\<lambda>raw. Inr ((\<lambda>name. if name = ''Content-Type'' then [''multipart/mixed''] else []), raw)),
     x_media := (\<lambda>v. (v, \<lambda>p. if v = ''multipart/mixed'' \<and> p = ''boundary'' then ''b'' else [],
        if v = [] then Some ''mime: no media type'' else None)),
     x_parts := (\<lambda>boundary body. (if rd_bytes body = [] then []
        else [(\<lambda>name. if name = ''Content-Type'' \<and> length (rd_bytes body) > 2 then [''multipart/mixed''] else [],
               body\<lparr>rd_bytes := tl (rd_bytes body)\<rparr>)], None))\<rparr>"

lemma nested_shrink: "parts_shrink nested_ext"
  by (auto simp: parts_shrink_def nested_ext_def neq_Nil_conv)

lemma nested_sel:
  "x_lower nested_ext = latin1_lower" "x_media nested_ext = (\<lambda>v. (v, \<lambda>p. if v = ''multipart/mixed'' \<and> p = ''boundary'' then ''b'' else [],
        if v = [] then Some ''mime: no media type'' else None))"
  by (simp_all add: nested_ext_def plain_ext_sel)

theorem parse_total_witness:
  "fst (ParseMIME nested_ext ''abcd'') \<noteq> Inl OutOfFuel \<and> ContentHash (snd (ParseMIME nested_ext ''abcd'')) = HashBytes nested_ext ''abcd''"
  using parse_total [OF nested_shrink] by blast

end
