(* ===== verification/Ingest.thy ===== *)
theory Ingest
  imports Auth Database Parser
begin

text \<open>
  \<open>internal/ingest/handler.go\<close>: the handler that takes a raw message from the Cloudflare worker,
  checks for duplicates, parses it, stores the raw bytes and writes the rows of the message in one
  transaction. It works on the file system and the database together, the record \<open>world\<close>. The log
  lines, and the request ID and client address that only they use, are left out.
\<close>

record world =
  wd_fs :: filesystem
  wd_db :: database

datatype ingest_error = StorageErr storage_error | DbErr db_error

type_synonym 'a ingest_result = "(ingest_error, 'a, world) outcome"

definition on_fs :: "(filesystem \<Rightarrow> 'a storage_result) \<Rightarrow> world \<Rightarrow> 'a ingest_result" where
  "on_fs f wd = (case f (wd_fs wd) of (r, fs) \<Rightarrow> (map_sum StorageErr id r, wd\<lparr>wd_fs := fs\<rparr>))"

definition on_db :: "(database \<Rightarrow> 'a db_result) \<Rightarrow> world \<Rightarrow> 'a ingest_result" where
  "on_db f wd = (case f (wd_db wd) of (r, db) \<Rightarrow> (map_sum DbErr id r, wd\<lparr>wd_db := db\<rparr>))"

definition ingestPSKHeader :: string where
  "ingestPSKHeader = ''X-Lite-Mail-Ingest-PSK''"

text \<open>\<open>IngestHandler\<close>: whether there is a database, the base directory of the storage if there is one,
  the configuration if there is one.\<close>

record ingest_handler =
  ih_db :: bool
  ih_storage :: "string option"
  ih_config :: "config option"

section \<open>Duplicates\<close>

text \<open>\<open>SELECT id FROM ingest_events WHERE content_hash = ? LIMIT 1\<close>\<close>

definition select_event :: "ext \<Rightarrow> string \<Rightarrow> database \<Rightarrow> int db_result" where
  "select_event E contentHash db =
     (case find (\<lambda>e. same_text E (e_hash e) contentHash) (db_events (db_tables db)) of
        None \<Rightarrow> (Inl ErrNoRows, db) | Some e \<Rightarrow> (Inr (e_id e), db))"

definition isDuplicate :: "ext \<Rightarrow> string \<Rightarrow> world \<Rightarrow> bool ingest_result" where
  "isDuplicate E contentHash wd =
     (case on_db (exec_stmt (select_event E contentHash)) wd of
        (Inr _, wd1) \<Rightarrow> (Inr True, wd1)
      | (Inl e, wd1) \<Rightarrow> if e = DbErr ErrNoRows then (Inr False, wd1) else (Inl e, wd1))"

section \<open>Persistence\<close>

definition nullableString :: "string \<Rightarrow> string option" where
  "nullableString value = (let v = trim_space value in if v = [] then None else Some v)"

text \<open>
  The clock \<open>clk\<close> gives the readings of \<open>time.Now()\<close> by call site: 0 in the fallback parser, 1 for a
  missing date, 2 for the arrival of the message, \<open>3 + i\<close> for the \<open>i\<close>th recipient.
\<close>

type_synonym clock = "nat \<Rightarrow> int"

definition new_message :: "clock \<Rightarrow> parsed_message \<Rightarrow> string \<Rightarrow> string option \<Rightarrow> message_row" where
  "new_message clk parsed parserStatus parserError =
     \<lparr>m_id = 0, m_cloudflare_id = ContentHash parsed, m_hash = ContentHash parsed,
      m_sender = Sender parsed, m_subject = Some (Subject parsed),
      m_date = (case MessageDate parsed of None \<Rightarrow> clk 1 | Some d \<Rightarrow> d), m_received = clk 2,
      m_text = Some (TextBody parsed), m_html = Some (HTMLBody parsed),
      m_raw_path = ''raw/'' @ ContentHash parsed, m_status = parserStatus, m_error = parserError\<rparr>"

definition new_recipient :: "clock \<Rightarrow> int \<Rightarrow> nat \<times> recipient \<Rightarrow> recipient_row" where
  "new_recipient clk messageID ir =
     \<lparr>r_id = 0, r_message = messageID, r_email = Email (snd ir), r_type = Type (snd ir),
      r_received = clk (3 + fst ir)\<rparr>"

definition new_attachment :: "int \<Rightarrow> parsed_attachment \<Rightarrow> attachment_row" where
  "new_attachment messageID a =
     \<lparr>a_id = 0, a_message = messageID, a_key = AttachmentHash a,
      a_filename = nullableString (OriginalFilename a), a_mime = MimeType a, a_size = Size a,
      a_hash = AttachmentHash a\<rparr>"

definition new_event :: "string \<Rightarrow> ingest_row" where
  "new_event contentHash =
     \<lparr>e_id = 0, e_cloudflare_id = contentHash, e_hash = contentHash, e_status = ''accepted''\<rparr>"

definition persist_recipient :: "clock \<Rightarrow> int \<Rightarrow> nat \<times> recipient \<Rightarrow> world \<Rightarrow> unit ingest_result" where
  "persist_recipient clk messageID ir = on_db (exec_stmt (insert_recipient (new_recipient clk messageID ir)))"

definition persist_attachment :: "ext \<Rightarrow> string \<Rightarrow> int \<Rightarrow> parsed_attachment \<Rightarrow> world \<Rightarrow> unit ingest_result" where
  "persist_attachment E base messageID a wd =
     andthen (on_fs (SaveAttachment base messageID (AttachmentHash a) (Content a)) wd)
       (\<lambda>_. on_db (exec_stmt (insert_attachment E (new_attachment messageID a))))"

text \<open>The statements between \<open>BeginTx\<close> and \<open>Commit\<close>.\<close>

definition persist_tx :: "ext \<Rightarrow> string \<Rightarrow> clock \<Rightarrow> parsed_message \<Rightarrow> string \<Rightarrow> string option \<Rightarrow>
    world \<Rightarrow> int ingest_result" where
  "persist_tx E base clk parsed parserStatus parserError wd =
     andthen (on_db (exec_stmt (insert_message (new_message clk parsed parserStatus parserError))) wd) (\<lambda>messageID wd1.
     andthen (foreach (persist_recipient clk messageID) (enumerate 0 (Recipients parsed)) wd1) (\<lambda>_ wd2.
     andthen (foreach (persist_attachment E base messageID) (Attachments parsed) wd2) (\<lambda>_ wd3.
     andthen (on_db (exec_stmt (insert_event E (new_event (ContentHash parsed)))) wd3) (\<lambda>_ wd4.
     (Inr messageID, wd4)))))"

text \<open>Every return before \<open>Commit\<close> runs the deferred \<open>Rollback\<close>.\<close>

definition persist :: "ext \<Rightarrow> string \<Rightarrow> clock \<Rightarrow> parsed_message \<Rightarrow> string \<Rightarrow> string option \<Rightarrow>
    world \<Rightarrow> int ingest_result" where
  "persist E base clk parsed parserStatus parserError wd =
     andthen (on_db db_begin wd) (\<lambda>_ wd0.
       let t0 = db_tables (wd_db wd0) in
       (case persist_tx E base clk parsed parserStatus parserError wd0 of
          (Inl e, wd1) \<Rightarrow> (Inl e, wd1\<lparr>wd_db := db_rollback t0 (wd_db wd1)\<rparr>)
        | (Inr messageID, wd1) \<Rightarrow>
            andthen (on_db (db_commit t0) wd1) (\<lambda>_ wd2. (Inr messageID, wd2))))"

section \<open>The handler\<close>

definition parse_error_text :: "parse_error \<Rightarrow> string" where
  "parse_error_text e = (case e of OutOfFuel \<Rightarrow> [] | ParseFailed s \<Rightarrow> s)"

text \<open>The message to persist with its parser status and error: lines 110 to 120.\<close>

definition parse_or_fallback :: "ext \<Rightarrow> clock \<Rightarrow> string \<Rightarrow> parsed_message \<times> string \<times> string option" where
  "parse_or_fallback E clk raw =
     (let contentHash = HashBytes E raw;
          (parsed, parserStatus, parserError) =
            (case ParseMIME E raw of
               (Inr _, p) \<Rightarrow> (p, ''success'', None)
             | (Inl e, p) \<Rightarrow>
                 (fallbackParsedMessageWithError E (clk 0) raw contentHash (parse_error_text e), ''failed'',
                  Some (parse_error_text e)))
      in (if ContentHash parsed = [] then parsed\<lparr>ContentHash := contentHash\<rparr> else parsed,
          parserStatus, parserError))"

definition status_json :: "string \<Rightarrow> json" where
  "status_json s = JObj [(''status'', JStr s)]"

text \<open>The part of \<open>ServeHTTP\<close> after the checks on the request.\<close>

definition ingest_raw :: "ext \<Rightarrow> string \<Rightarrow> clock \<Rightarrow> string \<Rightarrow> writer \<Rightarrow> world \<Rightarrow> response \<times> world" where
  "ingest_raw E base clk raw w wd =
     (let contentHash = HashBytes E raw in
      (case isDuplicate E contentHash wd of
         (Inl e, wd1) \<Rightarrow> (writeJSON w 500 (json_error ''check duplicate''), wd1)
       | (Inr True, wd1) \<Rightarrow> (writeJSON w 200 (status_json ''duplicate''), wd1)
       | (Inr False, wd1) \<Rightarrow>
           (case parse_or_fallback E clk raw of (parsed, parserStatus, parserError) \<Rightarrow>
             (case on_fs (SaveRawMIME base contentHash raw) wd1 of
                (Inl e, wd2) \<Rightarrow> (writeJSON w 500 (json_error ''save raw MIME''), wd2)
              | (Inr _, wd2) \<Rightarrow>
                  (case persist E base clk parsed parserStatus parserError wd2 of
                     (Inl e, wd3) \<Rightarrow> (writeJSON w 500 (json_error ''persist message''), wd3)
                   | (Inr messageID, wd3) \<Rightarrow>
                       (writeJSON w 200 (JObj [(''message_id'', JInt messageID), (''status'', JStr ''accepted'')]),
                        wd3))))))"

definition ingest_authorized :: "ingest_handler \<Rightarrow> request \<Rightarrow> bool" where
  "ingest_authorized h r =
     (case ih_config h of None \<Rightarrow> False
      | Some c \<Rightarrow> \<not> (WorkerIngestPSK c = [] \<or>
          ConstantTimeCompare (rq_header r ingestPSKHeader) (WorkerIngestPSK c) \<noteq> 1))"

definition ingest_limit :: "ingest_handler \<Rightarrow> int" where
  "ingest_limit h =
     (case ih_config h of None \<Rightarrow> 26214400
      | Some c \<Rightarrow> if MaxMessageBytes c \<le> 0 then 26214400 else MaxMessageBytes c)"

definition ServeHTTP :: "ext \<Rightarrow> ingest_handler \<Rightarrow> clock \<Rightarrow> world handler" where
  "ServeHTTP E h clk r w wd =
     (if rq_method r \<noteq> ''POST'' then (writeJSON w 405 (json_error ''method not allowed''), wd)
      else if \<not> ingest_authorized h r then (writeJSON w 401 (json_error ''unauthorized''), wd)
      else let limit = ingest_limit h in
        (case read_all (limit_reader (wrap64 (limit + 1)) (rq_body r)) of
           (raw, Some err) \<Rightarrow> (writeJSON w 400 (json_error ''read request body''), wd)
         | (raw, None) \<Rightarrow>
             if int (length raw) > limit then (writeJSON w 413 (json_error ''message too large''), wd)
             else (case ih_storage h of
                 None \<Rightarrow> (writeJSON w 500 (json_error ''ingest dependencies unavailable''), wd)
               | Some base \<Rightarrow>
                   if \<not> ih_db h
                   then (writeJSON w 500 (json_error ''ingest dependencies unavailable''), wd)
                   else ingest_raw E base clk raw w wd)))"

section \<open>The effect of a transaction\<close>

text \<open>
  What a committed transaction adds to the tables, the specification of \<open>persist\<close>: one message, its
  recipients and attachments with consecutive ids, one event.
\<close>

definition stored_message :: "clock \<Rightarrow> parsed_message \<Rightarrow> string \<Rightarrow> string option \<Rightarrow> int \<Rightarrow> message_row" where
  "stored_message clk parsed st err n =
     (let m = new_message clk parsed st err
      in m\<lparr>m_id := n, m_date := datetime (m_date m), m_received := datetime (m_received m)\<rparr>)"

definition stored_recipient :: "clock \<Rightarrow> int \<Rightarrow> int \<Rightarrow> nat \<times> recipient \<Rightarrow> recipient_row" where
  "stored_recipient clk messageID n ir =
     (let r = new_recipient clk messageID ir
      in r\<lparr>r_id := n + int (fst ir), r_received := datetime (r_received r)\<rparr>)"

definition stored_attachment :: "int \<Rightarrow> int \<Rightarrow> nat \<times> parsed_attachment \<Rightarrow> attachment_row" where
  "stored_attachment messageID n ia = (new_attachment messageID (snd ia))\<lparr>a_id := n + int (fst ia)\<rparr>"

definition add_mail :: "clock \<Rightarrow> parsed_message \<Rightarrow> string \<Rightarrow> string option \<Rightarrow> database \<Rightarrow> tables" where
  "add_mail clk parsed st err db =
     (let t = db_tables db; n = db_next_message db in
      \<lparr>db_messages = db_messages t @ [stored_message clk parsed st err n],
       db_recipients = db_recipients t @
         map (stored_recipient clk n (db_next_recipient db)) (enumerate 0 (Recipients parsed)),
       db_attachments = db_attachments t @
         map (stored_attachment n (db_next_attachment db)) (enumerate 0 (Attachments parsed)),
       db_events = db_events t @ [(new_event (ContentHash parsed))\<lparr>e_id := db_next_event db\<rparr>]\<rparr>)"

lemma exec_stmt_InrD:
  assumes "exec_stmt f db = (Inr a, db')"
  shows "f (db\<lparr>db_faults := tl (db_faults db)\<rparr>) = (Inr a, db')"
proof -
  obtain flt db1 where n: "next_db_fault db = (flt, db1)" by fastforce
  with assms have "f db1 = (Inr a, db')" by (cases flt) (simp_all add: exec_stmt_def)
  with next_db_fault_keeps [OF n] show ?thesis by simp
qed

lemma on_db_Inr: "on_db f wd = (Inr a, wd') \<longleftrightarrow> (\<exists>db. f (wd_db wd) = (Inr a, db) \<and> wd' = wd\<lparr>wd_db := db\<rparr>)"
  by (cases "f (wd_db wd)"; cases "fst (f (wd_db wd))") (auto simp: on_db_def)

lemma on_fs_Inr: "on_fs f wd = (Inr a, wd') \<longleftrightarrow> (\<exists>fs. f (wd_fs wd) = (Inr a, fs) \<and> wd' = wd\<lparr>wd_fs := fs\<rparr>)"
  by (cases "f (wd_fs wd)"; cases "fst (f (wd_fs wd))") (auto simp: on_fs_def)

lemma on_db_snd [simp]: "wd_fs (snd (on_db f wd)) = wd_fs wd" "wd_db (snd (on_db f wd)) = snd (f (wd_db wd))"
  by (auto simp: on_db_def split: prod.splits)

lemma on_fs_snd [simp]: "wd_db (snd (on_fs f wd)) = wd_db wd" "wd_fs (snd (on_fs f wd)) = snd (f (wd_fs wd))"
  by (auto simp: on_fs_def split: prod.splits)

lemma exec_message:
  assumes "exec_stmt (insert_message (new_message clk p st err)) db = (Inr n, db')"
  shows "n = db_next_message db \<and>
    db_tables db' = (db_tables db)\<lparr>db_messages := db_messages (db_tables db) @ [stored_message clk p st err n]\<rparr> \<and>
    db_next_recipient db' = db_next_recipient db \<and> db_next_attachment db' = db_next_attachment db \<and>
    db_next_event db' = db_next_event db"
  using exec_stmt_InrD [OF assms] by (auto simp: insert_message_def Let_def stored_message_def split: if_splits)

lemma exec_recipient:
  assumes "exec_stmt (insert_recipient r) db = (Inr u, db')"
  shows "db_tables db' = (db_tables db)\<lparr>db_recipients := db_recipients (db_tables db) @
      [r\<lparr>r_id := db_next_recipient db, r_received := datetime (r_received r)\<rparr>]\<rparr> \<and>
    db_next_recipient db' = db_next_recipient db + 1 \<and> db_next_attachment db' = db_next_attachment db \<and>
    db_next_event db' = db_next_event db"
  using exec_stmt_InrD [OF assms] by (auto simp: insert_recipient_def Let_def split: if_splits)

lemma exec_attachment:
  assumes "exec_stmt (insert_attachment E a) db = (Inr u, db')"
  shows "db_tables db' = (db_tables db)\<lparr>db_attachments := db_attachments (db_tables db) @
      [a\<lparr>a_id := db_next_attachment db\<rparr>]\<rparr> \<and>
    db_next_attachment db' = db_next_attachment db + 1 \<and> db_next_event db' = db_next_event db"
  using exec_stmt_InrD [OF assms] by (auto simp: insert_attachment_def Let_def split: if_splits)

lemma exec_event:
  assumes "exec_stmt (insert_event E e) db = (Inr u, db')"
  shows "db_tables db' = (db_tables db)\<lparr>db_events := db_events (db_tables db) @ [e\<lparr>e_id := db_next_event db\<rparr>]\<rparr>"
  using exec_stmt_InrD [OF assms] by (auto simp: insert_event_def Let_def split: if_splits)

lemma persist_recipient_Inr:
  "persist_recipient clk i ir wd = (Inr u, wd') \<longleftrightarrow>
     (\<exists>db. exec_stmt (insert_recipient (new_recipient clk i ir)) (wd_db wd) = (Inr u, db) \<and> wd' = wd\<lparr>wd_db := db\<rparr>)"
  by (simp add: persist_recipient_def on_db_Inr)

lemma persist_recipients:
  assumes "foreach (persist_recipient clk i) (enumerate k rs) wd = (Inr (), wd')"
    and "db_next_recipient (wd_db wd) = n + int k"
  shows "db_tables (wd_db wd') = (db_tables (wd_db wd))\<lparr>db_recipients := db_recipients (db_tables (wd_db wd)) @
      map (stored_recipient clk i n) (enumerate k rs)\<rparr> \<and>
    db_next_attachment (wd_db wd') = db_next_attachment (wd_db wd) \<and>
    db_next_event (wd_db wd') = db_next_event (wd_db wd) \<and> wd_fs wd' = wd_fs wd"
  using assms
proof (induction rs arbitrary: k wd)
  case Nil
  then show ?case by simp
next
  case (Cons r rs)
  from Cons.prems(1) obtain db where ex: "exec_stmt (insert_recipient (new_recipient clk i (k, r))) (wd_db wd) = (Inr (), db)"
    and f: "foreach (persist_recipient clk i) (enumerate (Suc k) rs) (wd\<lparr>wd_db := db\<rparr>) = (Inr (), wd')"
    by (auto simp: andthen_Inr_iff persist_recipient_Inr)
  note e = exec_recipient [OF ex]
  have k: "db_next_recipient (wd_db (wd\<lparr>wd_db := db\<rparr>)) = n + int (Suc k)" using e Cons.prems(2) by simp
  show ?case
    using Cons.IH [OF f k] e Cons.prems(2) by (simp add: stored_recipient_def Let_def)
qed

lemma persist_attachment_Inr:
  assumes "persist_attachment E base i a wd = (Inr u, wd')"
  obtains fs db where "SaveAttachment base i (AttachmentHash a) (Content a) (wd_fs wd) = (Inr (), fs)"
    and "exec_stmt (insert_attachment E (new_attachment i a)) (wd_db wd) = (Inr (), db)"
    and "wd' = wd\<lparr>wd_fs := fs, wd_db := db\<rparr>"
  using assms by (auto simp: persist_attachment_def andthen_Inr_iff on_db_Inr on_fs_Inr)

lemma persist_attachments:
  assumes "foreach (persist_attachment E base i) as wd = (Inr (), wd')"
    and "db_next_attachment (wd_db wd) = n + int k"
  shows "db_tables (wd_db wd') = (db_tables (wd_db wd))\<lparr>db_attachments := db_attachments (db_tables (wd_db wd)) @
      map (stored_attachment i n) (enumerate k as)\<rparr> \<and> db_next_event (wd_db wd') = db_next_event (wd_db wd)"
  using assms
proof (induction as arbitrary: k wd)
  case Nil
  then show ?case by simp
next
  case (Cons a as)
  from Cons.prems(1) obtain wd1 where p: "persist_attachment E base i a wd = (Inr (), wd1)"
    and f: "foreach (persist_attachment E base i) as wd1 = (Inr (), wd')"
    by (auto simp: andthen_Inr_iff)
  from p obtain fs db where ex: "exec_stmt (insert_attachment E (new_attachment i a)) (wd_db wd) = (Inr (), db)"
    and wd1: "wd1 = wd\<lparr>wd_fs := fs, wd_db := db\<rparr>" by (rule persist_attachment_Inr)
  note e = exec_attachment [OF ex]
  have k: "db_next_attachment (wd_db wd1) = n + int (Suc k)" using e wd1 Cons.prems(2) by simp
  show ?case
    using Cons.IH [OF f k] e wd1 Cons.prems(2) by (simp add: stored_attachment_def)
qed

lemma persist_tx_Inr:
  assumes "persist_tx E base clk p st err wd = (Inr i, wd')"
  obtains wd1 wd2 wd3 where
    "on_db (exec_stmt (insert_message (new_message clk p st err))) wd = (Inr i, wd1)"
    "foreach (persist_recipient clk i) (enumerate 0 (Recipients p)) wd1 = (Inr (), wd2)"
    "foreach (persist_attachment E base i) (Attachments p) wd2 = (Inr (), wd3)"
    "on_db (exec_stmt (insert_event E (new_event (ContentHash p)))) wd3 = (Inr (), wd')"
  using assms by (auto simp: persist_tx_def andthen_Inr_iff)

lemma persist_tx_effect:
  assumes "persist_tx E base clk p st err wd = (Inr i, wd')"
  shows "i = db_next_message (wd_db wd) \<and> db_tables (wd_db wd') = add_mail clk p st err (wd_db wd)"
  using assms
proof (rule persist_tx_Inr)
  fix wd1 wd2 wd3
  assume m: "on_db (exec_stmt (insert_message (new_message clk p st err))) wd = (Inr i, wd1)"
    and r: "foreach (persist_recipient clk i) (enumerate 0 (Recipients p)) wd1 = (Inr (), wd2)"
    and a: "foreach (persist_attachment E base i) (Attachments p) wd2 = (Inr (), wd3)"
    and e: "on_db (exec_stmt (insert_event E (new_event (ContentHash p)))) wd3 = (Inr (), wd')"
  from m obtain db1 where m': "exec_stmt (insert_message (new_message clk p st err)) (wd_db wd) = (Inr i, db1)"
    and wd1: "wd1 = wd\<lparr>wd_db := db1\<rparr>" by (auto simp: on_db_Inr)
  from e obtain db4 where e': "exec_stmt (insert_event E (new_event (ContentHash p))) (wd_db wd3) = (Inr (), db4)"
    and wd': "wd' = wd3\<lparr>wd_db := db4\<rparr>" by (auto simp: on_db_Inr)
  note M = exec_message [OF m'] and V = exec_event [OF e']
  note R = persist_recipients [OF r, of "db_next_recipient (wd_db wd)"]
  note A = persist_attachments [OF a, of "db_next_attachment (wd_db wd)" 0]
  show ?thesis using M R A V by (simp add: wd1 wd' add_mail_def Let_def)
qed

text \<open>Begin, statements, commit: what each outcome of \<open>persist\<close> leaves in the tables.\<close>

lemma db_begin_tables: "db_begin db = (r, db') \<Longrightarrow> \<exists>fs. db' = db\<lparr>db_faults := fs\<rparr>"
proof -
  assume a: "db_begin db = (r, db')"
  have "db_tables (snd (db_begin db)) = db_tables db \<and> (\<exists>fs. snd (db_begin db) = db\<lparr>db_faults := fs\<rparr>)"
    unfolding db_begin_def
    by (rule exec_stmt_keeps [where P = "\<lambda>d. db_tables d = db_tables db \<and> (\<exists>fs. d = db\<lparr>db_faults := fs\<rparr>)"])
      (auto intro: exI [of _ "db_faults db"])
  with a show ?thesis by simp
qed

lemma db_commit_cases:
  assumes "db_commit t db = (r, db')"
  obtains "r = Inr ()" "db_tables db' = db_tables db"
  | "r = Inl ErrConn" "db_tables db' = t"
  | "r = Inl ErrConn" "db_tables db' = db_tables db"
proof -
  obtain flt db1 where n: "next_db_fault db = (flt, db1)" by fastforce
  have "db_tables db1 = db_tables db" using next_db_fault_keeps [OF n] by simp
  with n assms that show ?thesis
    by (cases flt) (auto simp: db_commit_def db_rollback_def)
qed

lemma add_mail_faults [simp]: "add_mail clk p st err (db\<lparr>db_faults := fs\<rparr>) = add_mail clk p st err db"
  by (simp add: add_mail_def)

text \<open>The statements of the transaction, on the database after \<open>BeginTx\<close>, ran to the end.\<close>

definition tx_done :: "ext \<Rightarrow> string \<Rightarrow> clock \<Rightarrow> parsed_message \<Rightarrow> string \<Rightarrow> string option \<Rightarrow> world \<Rightarrow> world \<Rightarrow> bool" where
  "tx_done E base clk p st err wd wd' \<longleftrightarrow>
     (\<exists>fs wd1. persist_tx E base clk p st err (wd\<lparr>wd_db := (wd_db wd)\<lparr>db_faults := fs\<rparr>\<rparr>) =
        (Inr (db_next_message (wd_db wd)), wd1) \<and> wd_fs wd' = wd_fs wd1)"

lemma persist_cases:
  assumes "persist E base clk p st err wd = (r, wd')"
  obtains (committed) "r = Inr (db_next_message (wd_db wd))" "db_tables (wd_db wd') = add_mail clk p st err (wd_db wd)"
      "tx_done E base clk p st err wd wd'"
  | (undone) e where "r = Inl e" "db_tables (wd_db wd') = db_tables (wd_db wd)"
  | (lost) "r = Inl (DbErr ErrConn)" "db_tables (wd_db wd') = add_mail clk p st err (wd_db wd)"
      "tx_done E base clk p st err wd wd'"
proof -
  obtain rb db0 where b: "db_begin (wd_db wd) = (rb, db0)" by fastforce
  then obtain fs where db0: "db0 = (wd_db wd)\<lparr>db_faults := fs\<rparr>" using db_begin_tables by blast
  let ?wd0 = "wd\<lparr>wd_db := db0\<rparr>"
  obtain rt wd1 where tx: "persist_tx E base clk p st err ?wd0 = (rt, wd1)" by fastforce
  show ?thesis
  proof (cases rb)
    case (Inl e)
    with assms b db0 undone show ?thesis by (auto simp: persist_def on_db_def)
  next
    case rb: (Inr u)
    show ?thesis
    proof (cases rt)
      case (Inl e)
      with assms b rb tx undone db0 show ?thesis by (auto simp: persist_def on_db_def db_rollback_def Let_def)
    next
      case (Inr i)
      note eff = persist_tx_effect [OF tx [unfolded Inr]]
      obtain rc db2 where c: "db_commit (db_tables db0) (wd_db wd1) = (rc, db2)" by fastforce
      have r: "r = (case rc of Inl e \<Rightarrow> Inl (DbErr e) | Inr _ \<Rightarrow> Inr i)" "wd_db wd' = db2" "wd_fs wd' = wd_fs wd1"
        using assms b rb tx Inr c by (cases rc; auto simp: persist_def on_db_def Let_def)+
      then have "tx_done E base clk p st err wd wd'"
        using tx Inr db0 eff unfolding tx_done_def by (intro exI [of _ fs] exI [of _ wd1]) simp
      with r eff c db0 that show ?thesis by (cases rule: db_commit_cases [OF c]) auto
    qed
  qed
qed

section \<open>Invariants of the tables\<close>

text \<open>
  Messages and ingest events come in pairs, so the unique index of the events bounds the messages: no
  content hash is stored twice.
\<close>

definition mail_inv :: "ext \<Rightarrow> database \<Rightarrow> bool" where
  "mail_inv E db \<longleftrightarrow> db_inv E db \<and>
     map m_hash (db_messages (db_tables db)) = map e_hash (db_events (db_tables db)) \<and>
     (\<forall>e \<in> set (db_events (db_tables db)). e_cloudflare_id e = e_hash e)"

lemma mail_inv_faults [simp]: "mail_inv E (db\<lparr>db_faults := fs\<rparr>) = mail_inv E db"
  by (simp add: mail_inv_def)

lemma empty_mail_inv [inv_intros]: "mail_inv E (empty_database fs)"
  by (simp add: mail_inv_def empty_database_inv) (simp add: empty_database_def empty_tables_def)

lemma mail_inv_distinct:
  assumes "mail_inv E db"
  shows "distinct (map m_hash (db_messages (db_tables db)))"
proof -
  let ?es = "db_events (db_tables db)"
  have "map (\<lambda>e. (x_collate E (e_cloudflare_id e), x_collate E (e_hash e))) ?es =
      map (\<lambda>h. (x_collate E h, x_collate E h)) (map e_hash ?es)"
    using assms by (simp add: mail_inv_def)
  moreover have "distinct (map (\<lambda>e. (x_collate E (e_cloudflare_id e), x_collate E (e_hash e))) ?es)"
    using assms unfolding mail_inv_def db_inv_def Let_def by blast
  ultimately have "distinct (map (\<lambda>h. (x_collate E h, x_collate E h)) (map e_hash ?es))" by argo
  then have "distinct (map e_hash ?es)" by (simp only: distinct_map)
  then show ?thesis using assms by (simp add: mail_inv_def)
qed

text \<open>During a transaction the tables of its beginning stay usable: a rollback restores them.\<close>

definition tx_inv :: "ext \<Rightarrow> tables \<Rightarrow> database \<Rightarrow> bool" where
  "tx_inv E t0 db \<longleftrightarrow> db_inv E db \<and> db_inv E (db\<lparr>db_tables := t0\<rparr>)"

lemma tx_inv_faults: "tx_inv E t0 db \<Longrightarrow> tx_inv E t0 (db\<lparr>db_faults := fs\<rparr>)"
  unfolding tx_inv_def db_inv_def by simp

lemma insert_old_tables:
  "db_inv E (db\<lparr>db_tables := t0\<rparr>) \<Longrightarrow> db_inv E ((snd (insert_message m db))\<lparr>db_tables := t0\<rparr>)"
  "db_inv E (db\<lparr>db_tables := t0\<rparr>) \<Longrightarrow> db_inv E ((snd (insert_recipient r db))\<lparr>db_tables := t0\<rparr>)"
  "db_inv E (db\<lparr>db_tables := t0\<rparr>) \<Longrightarrow> db_inv E ((snd (insert_attachment E a db))\<lparr>db_tables := t0\<rparr>)"
  "db_inv E (db\<lparr>db_tables := t0\<rparr>) \<Longrightarrow> db_inv E ((snd (insert_event E e db))\<lparr>db_tables := t0\<rparr>)"
  by (auto simp: insert_message_def insert_recipient_def insert_attachment_def insert_event_def
      Let_def db_inv_def ids_ok_bump)

lemma exec_insert_tx_inv:
  assumes "tx_inv E t0 db"
  shows "tx_inv E t0 (snd (exec_stmt (insert_message m) db))"
    and "tx_inv E t0 (snd (exec_stmt (insert_recipient r) db))"
    and "tx_inv E t0 (snd (exec_stmt (insert_attachment E a) db))"
    and "tx_inv E t0 (snd (exec_stmt (insert_event E e) db))"
  by (rule exec_stmt_keeps [where P = "tx_inv E t0", OF assms],
      simp add: tx_inv_def insert_old_tables inv_intros, erule tx_inv_faults)+

lemma persist_attachment_tx_inv:
  "tx_inv E t0 (wd_db wd) \<Longrightarrow> tx_inv E t0 (wd_db (snd (persist_attachment E base i a wd)))"
  unfolding persist_attachment_def
  by (rule andthen_keeps [where P = "\<lambda>wd. tx_inv E t0 (wd_db wd)"]) (simp_all add: exec_insert_tx_inv)

lemma persist_tx_inv:
  assumes "tx_inv E t0 (wd_db wd)"
  shows "tx_inv E t0 (wd_db (snd (persist_tx E base clk p st err wd)))"
  unfolding persist_tx_def
  by (intro andthen_keeps [where P = "\<lambda>wd. tx_inv E t0 (wd_db wd)"]
      foreach_keeps [where P = "\<lambda>wd. tx_inv E t0 (wd_db wd)"])
    (simp_all add: assms exec_insert_tx_inv persist_recipient_def persist_attachment_tx_inv)

lemma db_commit_tx_inv: "tx_inv E t0 db \<Longrightarrow> db_inv E (snd (db_commit t0 db))"
proof -
  assume a: "tx_inv E t0 db"
  obtain flt db1 where n: "next_db_fault db = (flt, db1)" by fastforce
  have "tx_inv E t0 db1" using a next_db_fault_keeps [OF n] tx_inv_faults by simp
  with n show ?thesis by (cases flt) (auto simp: db_commit_def db_rollback_def tx_inv_def)
qed

lemma persist_db_inv:
  assumes "db_inv E (wd_db wd)"
  shows "db_inv E (wd_db (snd (persist E base clk p st err wd)))"
  unfolding persist_def
proof (rule andthen_keeps [where P = "\<lambda>wd. db_inv E (wd_db wd)"])
  obtain rb db0 where "db_begin (wd_db wd) = (rb, db0)" by fastforce
  then show "db_inv E (wd_db (snd (on_db db_begin wd)))" using assms db_begin_tables by fastforce
next
  fix u and wd0 :: world assume inv: "db_inv E (wd_db wd0)"
  let ?t = "db_tables (wd_db wd0)"
  have tx: "tx_inv E ?t (wd_db (snd (persist_tx E base clk p st err wd0)))"
    by (rule persist_tx_inv) (simp add: tx_inv_def inv)
  then show "db_inv E (wd_db (snd (let t0 = ?t in
       case persist_tx E base clk p st err wd0 of
          (Inl e, wd1) \<Rightarrow> (Inl e, wd1\<lparr>wd_db := db_rollback t0 (wd_db wd1)\<rparr>)
        | (Inr i, wd1) \<Rightarrow> andthen (on_db (db_commit t0) wd1) (\<lambda>_ wd2. (Inr i, wd2)))))"
    unfolding Let_def
    by (cases "persist_tx E base clk p st err wd0"; cases "fst (persist_tx E base clk p st err wd0)")
      (auto simp: tx_inv_def db_rollback_def intro!: andthen_keeps [where P = "\<lambda>wd. db_inv E (wd_db wd)"]
        db_commit_tx_inv)
qed

lemma add_mail_simps:
  "db_messages (add_mail clk p st err db) =
     db_messages (db_tables db) @ [stored_message clk p st err (db_next_message db)]"
  "map m_hash (db_messages (add_mail clk p st err db)) = map m_hash (db_messages (db_tables db)) @ [ContentHash p]"
  "map e_hash (db_events (add_mail clk p st err db)) = map e_hash (db_events (db_tables db)) @ [ContentHash p]"
  "set (db_events (add_mail clk p st err db)) =
     insert ((new_event (ContentHash p))\<lparr>e_id := db_next_event db\<rparr>) (set (db_events (db_tables db)))"
  by (simp_all add: add_mail_def Let_def stored_message_def new_message_def new_event_def)

lemma persist_mail_inv [inv_intros]:
  assumes "mail_inv E (wd_db wd)"
  shows "mail_inv E (wd_db (snd (persist E base clk p st err wd)))"
proof -
  obtain r wd' where p: "persist E base clk p st err wd = (r, wd')" by fastforce
  have "db_inv E (wd_db wd')" using persist_db_inv [of E wd] assms p by (metis mail_inv_def snd_conv)
  then show ?thesis
    using assms by (cases rule: persist_cases [OF p])
      (auto simp: p mail_inv_def add_mail_simps new_event_def stored_message_def new_message_def)
qed

section \<open>What the transaction leaves in the storage\<close>

text \<open>The transaction of message \<open>i\<close> writes below its own attachment directory only.\<close>

definition mail_frame :: "string \<Rightarrow> int \<Rightarrow> filesystem \<Rightarrow> filesystem \<Rightarrow> bool" where
  "mail_frame base i fs fs' \<longleftrightarrow> storage_inv base fs' \<and>
     (\<forall>q. (\<forall>k. safe_comp k \<longrightarrow> q \<noteq> attachment_path base i k) \<longrightarrow> fs_files fs' q = fs_files fs q)"

lemma persist_attachment_frame:
  assumes "mail_frame base i fs (wd_fs wd)" and "valid_attachment_key (i, AttachmentHash a)"
  shows "mail_frame base i fs (wd_fs (snd (persist_attachment E base i a wd)))"
  unfolding persist_attachment_def
proof (rule andthen_keeps [where P = "\<lambda>wd. mail_frame base i fs (wd_fs wd)"])
  obtain r fs' where s: "SaveAttachment base i (AttachmentHash a) (Content a) (wd_fs wd) = (r, fs')" by fastforce
  have "storage_inv base fs'" "\<forall>q. q \<noteq> attachment_path base i (AttachmentHash a) \<longrightarrow> fs_files fs' q = fs_files (wd_fs wd) q"
    using SaveAttachment_effect [OF _ assms(2) s] assms(1) by (auto simp: mail_frame_def)
  moreover have "safe_comp (AttachmentHash a)" using assms(2) by (simp add: valid_attachment_key_def)
  ultimately show "mail_frame base i fs (wd_fs (snd (on_fs (SaveAttachment base i (AttachmentHash a) (Content a)) wd)))"
    using assms(1) s by (simp add: mail_frame_def)
qed simp

lemma insert_message_id:
  assumes "exec_stmt (insert_message m) db = (Inr i, db')" and "db_inv E db"
  shows "i = db_next_message db \<and> 0 < i \<and> in_int64 i"
  using exec_stmt_InrD [OF assms(1)] assms(2)
  by (auto simp: insert_message_def Let_def db_inv_def ids_ok_def in_int64_def int64_min_def split: if_splits)

lemma hashed_keys:
  assumes "sha256_ok E" and "hashed E p" and "a \<in> set (Attachments p)" and "0 < i" and "in_int64 i"
  shows "valid_attachment_key (i, AttachmentHash a)"
  using assms by (simp add: hashed_def valid_attachment_key_def HashBytes_safe)

lemma persist_tx_frame:
  assumes "sha256_ok E" and "hashed E p" and "db_inv E (wd_db wd)" and "storage_inv base (wd_fs wd)"
  shows "mail_frame base (db_next_message (wd_db wd)) (wd_fs wd) (wd_fs (snd (persist_tx E base clk p st err wd)))"
proof -
  let ?P = "\<lambda>w. mail_frame base (db_next_message (wd_db wd)) (wd_fs wd) (wd_fs w)"
  have P: "?P w" if "wd_fs w = wd_fs wd" for w :: world
    using that assms(4) by (simp add: mail_frame_def)
  show ?thesis
    unfolding persist_tx_def
  proof (rule andthen_keeps [where P = ?P], simp add: P)
    fix i w assume m: "on_db (exec_stmt (insert_message (new_message clk p st err))) wd = (Inr i, w)" and "?P w"
    then have i: "i = db_next_message (wd_db wd)" "0 < i" "in_int64 i"
      using insert_message_id assms(3) unfolding on_db_Inr by blast+
    have "?P (snd (persist_recipient clk i r w'))" if "?P w'" for r w'
      using that by (simp add: persist_recipient_def)
    moreover have "?P (snd (persist_attachment E base i a w'))" if "a \<in> set (Attachments p)" "?P w'" for a w'
      using persist_attachment_frame hashed_keys [OF assms(1,2) that(1) i(2,3)] that(2) i(1) by simp
    ultimately show "?P (snd (andthen (foreach (persist_recipient clk i) (enumerate 0 (Recipients p)) w) (\<lambda>_ wd2.
       andthen (foreach (persist_attachment E base i) (Attachments p) wd2) (\<lambda>_ wd3.
       andthen (on_db (exec_stmt (insert_event E (new_event (ContentHash p)))) wd3) (\<lambda>_ wd4. (Inr i, wd4))))))"
      using \<open>?P w\<close> by (intro andthen_keeps [where P = ?P] foreach_keeps [where P = ?P]) simp_all
  qed
qed

lemma persist_frame:
  assumes "sha256_ok E" and "hashed E p" and "db_inv E (wd_db wd)" and "storage_inv base (wd_fs wd)"
  shows "mail_frame base (db_next_message (wd_db wd)) (wd_fs wd) (wd_fs (snd (persist E base clk p st err wd)))"
proof -
  obtain rb db0 where b: "db_begin (wd_db wd) = (rb, db0)" by fastforce
  then obtain fs where db0: "db0 = (wd_db wd)\<lparr>db_faults := fs\<rparr>" using db_begin_tables by blast
  let ?wd0 = "wd\<lparr>wd_db := db0\<rparr>"
  have "mail_frame base (db_next_message (wd_db wd)) (wd_fs wd) (wd_fs (snd (persist_tx E base clk p st err ?wd0)))"
    using persist_tx_frame [OF assms(1,2), of ?wd0 base clk st err] assms(3,4) db0 by simp
  moreover have "wd_fs (snd (persist E base clk p st err wd)) =
      (if isl rb then wd_fs wd else wd_fs (snd (persist_tx E base clk p st err ?wd0)))"
    using b by (cases rb) (auto simp: persist_def on_db_def Let_def andthen_def split: prod.splits sum.splits)
  ultimately show ?thesis using assms(4) by (simp add: mail_frame_def)
qed

lemma persist_attachments_fs:
  "foreach (persist_attachment E base i) as wd = (Inr (), wd') \<Longrightarrow>
   foreach (\<lambda>(ik, d). SaveAttachment base (fst ik) (snd ik) d)
     (map (\<lambda>a. ((i, AttachmentHash a), Content a)) as) (wd_fs wd) = (Inr (), wd_fs wd')"
proof (induction as arbitrary: wd)
  case Nil
  then show ?case by simp
next
  case (Cons a as)
  from Cons.prems obtain wd1 where p: "persist_attachment E base i a wd = (Inr (), wd1)"
    and f: "foreach (persist_attachment E base i) as wd1 = (Inr (), wd')" by (auto simp: andthen_Inr_iff)
  from p obtain fs db where "SaveAttachment base i (AttachmentHash a) (Content a) (wd_fs wd) = (Inr (), fs)"
    and "wd1 = wd\<lparr>wd_fs := fs, wd_db := db\<rparr>" by (rule persist_attachment_Inr)
  with Cons.IH [OF f] show ?case by simp
qed

lemma tx_done_attachments:
  assumes tx: "tx_done E base clk p st err wd wd'" and sha: "sha256_ok E" and h: "hashed E p"
    and inv: "db_inv E (wd_db wd)" "storage_inv base (wd_fs wd)"
    and d: "distinct (map AttachmentHash (Attachments p))" and a: "a \<in> set (Attachments p)"
  shows "attachment_blob base (db_next_message (wd_db wd), AttachmentHash a) (wd_fs wd') = Some (Content a)"
proof -
  let ?i = "db_next_message (wd_db wd)"
  let ?kds = "map (\<lambda>a. ((?i, AttachmentHash a), Content a)) (Attachments p)"
  from tx obtain fs wd9 where "persist_tx E base clk p st err (wd\<lparr>wd_db := (wd_db wd)\<lparr>db_faults := fs\<rparr>\<rparr>) = (Inr ?i, wd9)"
    and fs9: "wd_fs wd' = wd_fs wd9" unfolding tx_done_def by blast
  then show ?thesis
  proof (cases rule: persist_tx_Inr)
    case (1 wd1 wd2 wd3)
    have m: "0 < ?i" "in_int64 ?i"
      using 1(1) insert_message_id [where E = E] inv(1) unfolding on_db_Inr by fastforce+
    have same: "wd_fs wd2 = wd_fs wd" "wd_fs wd9 = wd_fs wd3"
      using 1(1,4) persist_recipients [OF 1(2), of "db_next_recipient (wd_db wd1)"] unfolding on_db_Inr by auto
    have keys: "\<forall>(k, d) \<in> set ?kds. valid_attachment_key k" using hashed_keys [OF sha h _ m] by auto
    have dist: "distinct (map fst ?kds)"
      using d by (simp add: distinct_map comp_inj_on inj_on_def comp_def)
    have "foreach (\<lambda>(ik, d). SaveAttachment base (fst ik) (snd ik) d) ?kds (wd_fs wd) = (Inr (), wd_fs wd3)"
      using persist_attachments_fs [OF 1(3)] same by simp
    from att.puts_ok [OF inv(2) keys dist this, of "(?i, AttachmentHash a)" "Content a"] a
    show ?thesis using same fs9 by auto
  qed
qed

section \<open>The invariant of storage and database together\<close>

text \<open>Every attachment row refers to a complete file: its bytes have the size and the hash of the row.\<close>

definition attachment_stored :: "ext \<Rightarrow> string \<Rightarrow> filesystem \<Rightarrow> attachment_row \<Rightarrow> bool" where
  "attachment_stored E base fs a \<longleftrightarrow> a_key a = a_hash a \<and>
     (case attachment_blob base (a_message a, a_key a) fs of None \<Rightarrow> False
      | Some d \<Rightarrow> HashBytes E d = a_hash a \<and> int (length d) = a_size a)"

definition world_inv :: "ext \<Rightarrow> string \<Rightarrow> world \<Rightarrow> bool" where
  "world_inv E base wd \<longleftrightarrow> storage_inv base (wd_fs wd) \<and> mail_inv E (wd_db wd) \<and>
     (\<forall>m \<in> set (db_messages (db_tables (wd_db wd))). \<exists>raw. m_hash m = HashBytes E raw) \<and>
     (\<forall>a \<in> set (db_attachments (db_tables (wd_db wd))). attachment_stored E base (wd_fs wd) a)"

lemma world_invD:
  assumes "world_inv E base wd"
  shows "storage_inv base (wd_fs wd)" "mail_inv E (wd_db wd)" "db_inv E (wd_db wd)"
  using assms by (simp_all add: world_inv_def mail_inv_def)

text \<open>The message of an attachment row is older than the next message.\<close>

lemma attachment_message_id:
  assumes "db_inv E db" and "a \<in> set (db_attachments (db_tables db))"
  shows "0 < a_message a \<and> a_message a < db_next_message db"
proof -
  have "a_message a \<in> m_id ` set (db_messages (db_tables db))"
    and "ids_ok (map m_id (db_messages (db_tables db))) (db_next_message db)"
    using assms unfolding db_inv_def Let_def by blast+
  then show ?thesis by (auto simp: ids_ok_def)
qed

lemma safe_attachment_path_inj:
  assumes "base \<noteq> []" and "0 < i" "0 < j" "safe_comp k" "safe_comp l"
  shows "attachment_path base i k = attachment_path base j l \<longleftrightarrow> i = j \<and> k = l"
proof -
  have "format_int i = format_int j \<longleftrightarrow> i = j"
    using assms(2,3) format_nat_inj [of "nat i" "nat j"] by (auto simp: format_int_def)
  then show ?thesis using assms by (simp add: attachment_path_eq)
qed

lemma attachment_stored_cong:
  "attachment_blob base (a_message a, a_key a) fs' = attachment_blob base (a_message a, a_key a) fs \<Longrightarrow>
   attachment_stored E base fs' a = attachment_stored E base fs a"
  unfolding attachment_stored_def by presburger

lemma attachment_stored_key: "attachment_stored E base fs a \<Longrightarrow> \<exists>d. HashBytes E d = a_key a"
  by (auto simp: attachment_stored_def split: option.splits)

lemma mail_frame_attachment:
  assumes f: "mail_frame base n fs fs'" and base: "base \<noteq> []" and sha: "sha256_ok E"
    and a: "attachment_stored E base fs a" "0 < a_message a" "a_message a < n"
  shows "attachment_stored E base fs' a"
proof -
  have k: "safe_comp (a_key a)" using HashBytes_safe [OF sha] attachment_stored_key [OF a(1)] by metis
  have "attachment_path base (a_message a) (a_key a) \<noteq> attachment_path base n l" if "safe_comp l" for l
    using safe_attachment_path_inj [OF base a(2) _ k that] a(2,3) by simp
  with f have "attachment_blob base (a_message a, a_key a) fs' = attachment_blob base (a_message a, a_key a) fs"
    unfolding mail_frame_def attachment_blob_def fst_conv snd_conv by blast
  with a(1) show ?thesis using attachment_stored_cong by blast
qed

lemma new_attachments_distinct:
  assumes "db_inv E db" and "db_tables db = add_mail clk p st err db0"
  shows "distinct (map AttachmentHash (Attachments p))"
proof -
  have "distinct (map (\<lambda>a. x_collate E (a_key a)) (db_attachments (db_tables db)))"
    using assms(1) unfolding db_inv_def Let_def by blast
  then have "distinct (map (\<lambda>a. x_collate E (a_key a))
      (map (stored_attachment (db_next_message db0) (db_next_attachment db0)) (enumerate 0 (Attachments p))))"
    unfolding assms(2) by (simp add: add_mail_def Let_def)
  moreover have "map (\<lambda>a. x_collate E (a_key a)) (map (stored_attachment n m) (enumerate k as)) =
      map (x_collate E) (map AttachmentHash as)" for n m k and as :: "parsed_attachment list"
    by (induction as arbitrary: k) (simp_all add: stored_attachment_def new_attachment_def)
  ultimately show ?thesis by (metis distinct_map)
qed

lemma add_mail_attachments:
  "set (db_attachments (add_mail clk p st err db)) = set (db_attachments (db_tables db)) \<union>
     stored_attachment (db_next_message db) (db_next_attachment db) ` set (enumerate 0 (Attachments p))"
  by (auto simp: add_mail_def Let_def)

lemma persist_messages:
  "set (db_messages (db_tables (wd_db (snd (persist E base clk p st err wd))))) \<subseteq>
   insert (stored_message clk p st err (db_next_message (wd_db wd))) (set (db_messages (db_tables (wd_db wd))))"
proof -
  obtain r wd' where p: "persist E base clk p st err wd = (r, wd')" by fastforce
  then show ?thesis by (cases rule: persist_cases [OF p]) (auto simp: add_mail_simps)
qed

lemma stored_message_hash [simp]: "m_hash (stored_message clk p st err n) = ContentHash p"
  by (simp add: stored_message_def new_message_def Let_def)

lemma persist_world_inv:
  assumes sha: "sha256_ok E" and h: "hashed E p" and c: "ContentHash p = HashBytes E raw"
    and inv: "world_inv E base wd"
  shows "world_inv E base (snd (persist E base clk p st err wd))"
proof -
  obtain r wd' where p: "persist E base clk p st err wd = (r, wd')" by fastforce
  note inv' = world_invD [OF inv]
  have base: "base \<noteq> []" using inv'(1) by (simp add: storage_inv_def)
  have fr: "mail_frame base (db_next_message (wd_db wd)) (wd_fs wd) (wd_fs wd')"
    using persist_frame [OF sha h inv'(3,1), of clk st err] p by simp
  have m: "mail_inv E (wd_db wd')" using persist_mail_inv [OF inv'(2)] p by (metis snd_conv)
  have old: "attachment_stored E base (wd_fs wd') a" if "a \<in> set (db_attachments (db_tables (wd_db wd)))" for a
    using mail_frame_attachment [OF fr base sha] attachment_message_id [OF inv'(3) that] inv that
    by (simp add: world_inv_def)
  have new: "\<forall>a \<in> set (db_attachments (db_tables (wd_db wd'))). attachment_stored E base (wd_fs wd') a"
    if t: "db_tables (wd_db wd') = add_mail clk p st err (wd_db wd)" and tx: "tx_done E base clk p st err wd wd'"
  proof -
    have d: "distinct (map AttachmentHash (Attachments p))"
      using new_attachments_distinct [OF _ t] m unfolding mail_inv_def by blast
    have "attachment_stored E base (wd_fs wd') (stored_attachment (db_next_message (wd_db wd)) n (k, a))"
      if a: "a \<in> set (Attachments p)" for n k a
      using tx_done_attachments [OF tx sha h inv'(3,1) d a] h a
      by (simp add: attachment_stored_def stored_attachment_def new_attachment_def hashed_def)
    then show ?thesis using old unfolding t add_mail_attachments
      by (auto simp: in_set_enumerate_eq)
  qed
  have ms: "\<forall>m \<in> set (db_messages (db_tables (wd_db wd'))). \<exists>raw. m_hash m = HashBytes E raw"
    using persist_messages [of E base clk p st err wd] inv c unfolding p snd_conv world_inv_def by fastforce
  show ?thesis
    using fr m ms old new unfolding world_inv_def mail_frame_def p snd_conv
    by (cases rule: persist_cases [OF p]) simp_all
qed

lemma isDuplicate_keeps:
  "isDuplicate E h wd = (r, wd') \<Longrightarrow> wd_fs wd' = wd_fs wd \<and> (\<exists>fs. wd_db wd' = (wd_db wd)\<lparr>db_faults := fs\<rparr>)"
proof -
  assume a: "isDuplicate E h wd = (r, wd')"
  obtain r0 wd0 where o: "on_db (exec_stmt (select_event E h)) wd = (r0, wd0)" by fastforce
  have "\<exists>fs. snd (exec_stmt (select_event E h) (wd_db wd)) = (wd_db wd)\<lparr>db_faults := fs\<rparr>"
    by (rule exec_stmt_keeps [where P = "\<lambda>d. \<exists>fs. d = (wd_db wd)\<lparr>db_faults := fs\<rparr>"])
      (auto simp: select_event_def split: option.splits intro: exI [of _ "db_faults (wd_db wd)"])
  moreover have "wd' = wd0" using a o by (auto simp: isDuplicate_def split: sum.splits if_splits)
  ultimately show ?thesis using o on_db_snd [of "exec_stmt (select_event E h)" wd] by simp
qed

lemma isDuplicate_world_inv: "world_inv E base wd \<Longrightarrow> world_inv E base (snd (isDuplicate E h wd))"
  using isDuplicate_keeps [of E h wd "fst (isDuplicate E h wd)" "snd (isDuplicate E h wd)"]
  by (auto simp: world_inv_def)

lemma SaveRawMIME_world_inv:
  assumes "world_inv E base wd" and "safe_comp k" and "sha256_ok E"
  shows "world_inv E base (snd (on_fs (SaveRawMIME base k d) wd))"
proof -
  note inv' = world_invD [OF assms(1)]
  have base: "base \<noteq> []" using inv'(1) by (simp add: storage_inv_def)
  obtain r fs' where s: "SaveRawMIME base k d (wd_fs wd) = (r, fs')" by fastforce
  note eff = SaveRawMIME_effect [OF inv'(1) assms(2) s]
  have "attachment_blob base (i, HashBytes E x) fs' = attachment_blob base (i, HashBytes E x) (wd_fs wd)" if "0 < i" for i x
  proof -
    have "attachment_path base i (HashBytes E x) \<noteq> raw_path base k"
      using that base assms(2) HashBytes_safe [OF assms(3)] by (simp add: raw_path_eq attachment_path_eq)
    then show ?thesis using eff unfolding attachment_blob_def fst_conv snd_conv by blast
  qed
  then have "attachment_stored E base fs' a" if "a \<in> set (db_attachments (db_tables (wd_db wd)))" for a
    using assms(1) that attachment_message_id [OF inv'(3) that] attachment_stored_key attachment_stored_cong
    unfolding world_inv_def by metis
  then show ?thesis using eff assms(1) s by (simp add: world_inv_def)
qed

section \<open>Concurrent requests\<close>

text \<open>
  Requests run in their own goroutines, so the duplicate check, the write of the raw message and the
  transaction of one request interleave with those of others. A request is in one of these phases;
  \<open>ingest_phase\<close> is the next operation of the handler, and each is atomic: the check is one query, the
  transaction is isolated by the database, and the raw file is written under the name of its content.
\<close>

datatype phase = Received string | Checked string | Saved string | Finished response

fun ingest_phase :: "ext \<Rightarrow> string \<Rightarrow> clock \<Rightarrow> writer \<Rightarrow> phase \<Rightarrow> world \<Rightarrow> phase \<times> world" where
  "ingest_phase E base clk w (Received raw) wd =
     (case isDuplicate E (HashBytes E raw) wd of
        (Inl e, wd') \<Rightarrow> (Finished (writeJSON w 500 (json_error ''check duplicate'')), wd')
      | (Inr True, wd') \<Rightarrow> (Finished (writeJSON w 200 (status_json ''duplicate'')), wd')
      | (Inr False, wd') \<Rightarrow> (Checked raw, wd'))"
| "ingest_phase E base clk w (Checked raw) wd =
     (case on_fs (SaveRawMIME base (HashBytes E raw) raw) wd of
        (Inl e, wd') \<Rightarrow> (Finished (writeJSON w 500 (json_error ''save raw MIME'')), wd')
      | (Inr _, wd') \<Rightarrow> (Saved raw, wd'))"
| "ingest_phase E base clk w (Saved raw) wd =
     (case parse_or_fallback E clk raw of (parsed, parserStatus, parserError) \<Rightarrow>
        (case persist E base clk parsed parserStatus parserError wd of
           (Inl e, wd') \<Rightarrow> (Finished (writeJSON w 500 (json_error ''persist message'')), wd')
         | (Inr messageID, wd') \<Rightarrow>
             (Finished (writeJSON w 200 (JObj [(''message_id'', JInt messageID), (''status'', JStr ''accepted'')])), wd')))"
| "ingest_phase E base clk w (Finished res) wd = (Finished res, wd)"

text \<open>The system: the world and the phases of the requests that have arrived.\<close>

type_synonym ingest_system = "world \<times> (nat \<rightharpoonup> phase)"

inductive ingest_step :: "ext \<Rightarrow> string \<Rightarrow> ingest_system \<Rightarrow> ingest_system \<Rightarrow> bool" for E base where
  arrive: "pool i = None \<Longrightarrow> ingest_step E base (wd, pool) (wd, pool(i \<mapsto> Received raw))"
| advance: "\<lbrakk>pool i = Some ph; ingest_phase E base clk w ph wd = (ph', wd')\<rbrakk> \<Longrightarrow>
     ingest_step E base (wd, pool) (wd', pool(i \<mapsto> ph'))"

inductive ingest_reach :: "ext \<Rightarrow> string \<Rightarrow> world \<Rightarrow> ingest_system \<Rightarrow> bool" for E base wd0 where
  init: "ingest_reach E base wd0 (wd0, Map.empty)"
| next_step: "\<lbrakk>ingest_reach E base wd0 s; ingest_step E base s s'\<rbrakk> \<Longrightarrow> ingest_reach E base wd0 s'"

inductive_cases ingest_stepE: "ingest_step E base s s'"

lemma parse_or_fallback_facts:
  assumes "parse_or_fallback E clk raw = (p, st, err)" and "sha256_ok E"
  shows "ContentHash p = HashBytes E raw \<and> hashed E p \<and>
    (st = ''success'' \<and> err = None \<and> snd (ParseMIME E raw) = p \<and> fst (ParseMIME E raw) = Inr () \<or>
     st = ''failed'' \<and> (\<exists>e. fst (ParseMIME E raw) = Inl e \<and> err = Some (parse_error_text e) \<and> Attachments p = []))"
proof -
  obtain r q where q: "ParseMIME E raw = (r, q)" by fastforce
  have h: "ContentHash q = HashBytes E raw" "hashed E q"
    using ParseMIME_hash [of E raw] ParseMIME_hashed [of E raw] q by simp_all
  have ne: "HashBytes E raw \<noteq> []" using HashBytes_hex [OF assms(2), of raw] by auto
  have fb: "ContentHash (fallbackParsedMessageWithError E now raw (HashBytes E raw) t) = HashBytes E raw"
    "Attachments (fallbackParsedMessageWithError E now raw (HashBytes E raw) t) = []" for now t
    by (auto simp: fallbackParsedMessageWithError_def Let_def zero_parsed_def split: sum.splits prod.splits)
  show ?thesis
    using assms(1) q h fb ne by (cases r) (auto simp: parse_or_fallback_def Let_def hashed_def)
qed

text \<open>The handler is its three phases run one after the other.\<close>

lemma ingest_raw_phases:
  "ingest_raw E base clk raw w wd = (res, wd') \<longleftrightarrow>
     (case ingest_phase E base clk w (Received raw) wd of (ph1, wd1) \<Rightarrow>
      case ingest_phase E base clk w ph1 wd1 of (ph2, wd2) \<Rightarrow>
      ingest_phase E base clk w ph2 wd2) = (Finished res, wd')"
  unfolding ingest_raw_def Let_def
  by (auto split: prod.splits sum.splits bool.splits)

lemma ingest_phase_inv:
  assumes "sha256_ok E" and "world_inv E base wd"
  shows "world_inv E base (snd (ingest_phase E base clk w ph wd))"
proof (cases ph)
  case (Received raw)
  have "snd (ingest_phase E base clk w ph wd) = snd (isDuplicate E (HashBytes E raw) wd)"
    by (auto simp: Received split: prod.splits sum.splits bool.splits)
  then show ?thesis using isDuplicate_world_inv [OF assms(2)] by simp
next
  case (Checked raw)
  have "snd (ingest_phase E base clk w ph wd) = snd (on_fs (SaveRawMIME base (HashBytes E raw) raw) wd)"
    by (auto simp: Checked split: prod.splits sum.splits)
  then show ?thesis using SaveRawMIME_world_inv [OF assms(2) HashBytes_safe [OF assms(1)] assms(1)] by simp
next
  case (Saved raw)
  obtain p st err where pf: "parse_or_fallback E clk raw = (p, st, err)" by (metis prod_cases3)
  have "snd (ingest_phase E base clk w ph wd) = snd (persist E base clk p st err wd)"
    by (auto simp: Saved pf split: prod.splits sum.splits)
  then show ?thesis
    using persist_world_inv [OF assms(1) _ _ assms(2)] parse_or_fallback_facts [OF pf assms(1)] by simp
next
  case (Finished r)
  then show ?thesis using assms(2) by simp
qed

lemma ingest_reach_inv:
  assumes "ingest_reach E base wd0 s" and "sha256_ok E" and "world_inv E base wd0"
  shows "world_inv E base (fst s)"
  using assms(1)
proof (induction rule: ingest_reach.induct)
  case init
  then show ?case using assms(3) by simp
next
  case (next_step s s')
  from next_step.hyps(2) next_step.IH show ?case
    by (cases rule: ingest_stepE) (use ingest_phase_inv [OF assms(2)] in \<open>auto, metis snd_conv\<close>)
qed

section \<open>Raw messages\<close>

text \<open>Every raw file holds the bytes its name is the hash of.\<close>

definition raw_complete :: "ext \<Rightarrow> string \<Rightarrow> filesystem \<Rightarrow> bool" where
  "raw_complete E base fs \<longleftrightarrow>
     no_partial fs \<and> (\<forall>k d. safe_comp k \<longrightarrow> raw_blob base k fs = Some d \<longrightarrow> HashBytes E d = k)"

definition raw_inv :: "ext \<Rightarrow> string \<Rightarrow> ingest_system \<Rightarrow> bool" where
  "raw_inv E base s \<longleftrightarrow> world_inv E base (fst s) \<and> raw_complete E base (wd_fs (fst s)) \<and>
     (\<forall>m \<in> set (db_messages (db_tables (wd_db (fst s)))). raw_blob base (m_hash m) (wd_fs (fst s)) \<noteq> None) \<and>
     (\<forall>i raw. snd s i = Some (Saved raw) \<longrightarrow> raw_blob base (HashBytes E raw) (wd_fs (fst s)) \<noteq> None)"

lemma SaveRawMIME_complete:
  assumes inv: "storage_inv base fs" and c: "raw_complete E base fs" and sha: "sha256_ok E"
    and s: "SaveRawMIME base (HashBytes E raw) raw fs = (r, fs')"
  shows "raw_complete E base fs' \<and> (\<forall>k. safe_comp k \<longrightarrow> raw_blob base k fs \<noteq> None \<longrightarrow> raw_blob base k fs' \<noteq> None) \<and>
    (r = Inr () \<longrightarrow> raw_blob base (HashBytes E raw) fs' \<noteq> None)"
proof -
  let ?h = "HashBytes E raw"
  note safe = HashBytes_safe [OF sha, of raw]
  note eff = SaveRawMIME_effect [OF inv safe s]
  have np: "no_partial fs'" "r \<noteq> Inr () \<longrightarrow> fs_files fs' = fs_files fs"
    using SaveRawMIME_no_partial [OF _ s] c unfolding raw_complete_def by blast+
  have other: "raw_blob base k fs' = raw_blob base k fs" if "safe_comp k" "k \<noteq> ?h" for k
    using raw.put_other [OF inv safe that, of raw] s by simp
  have new: "raw_blob base ?h fs' = (if r = Inr () then Some (keep_first (raw_blob base ?h fs) raw) else raw_blob base ?h fs)"
    using eff np(2) by (auto simp: raw_blob_def)
  have ok: "HashBytes E d = k" if "safe_comp k" "raw_blob base k fs = Some d" for k d
    using c that unfolding raw_complete_def by blast
  have "HashBytes E d = k" if k: "safe_comp k" "raw_blob base k fs' = Some d" for k d
  proof (cases "k = ?h")
    case True
    with k new ok [OF safe] show ?thesis by (auto simp: keep_first_def split: if_splits option.splits)
  next
    case False
    with k other ok show ?thesis by simp
  qed
  moreover have "raw_blob base k fs' \<noteq> None" if "safe_comp k" "raw_blob base k fs \<noteq> None" for k
    using that other new by (cases "k = ?h") auto
  ultimately show ?thesis using np(1) new unfolding raw_complete_def by simp
qed

lemma persist_no_partial:
  assumes "no_partial (wd_fs wd)"
  shows "no_partial (wd_fs (snd (persist E base clk p st err wd)))"
proof -
  let ?P = "\<lambda>w. no_partial (wd_fs w)"
  have att: "?P (snd (persist_attachment E base i a w))" if "?P w" for i a w
    unfolding persist_attachment_def using that SaveAttachment_no_partial
    by (intro andthen_keeps [where P = ?P]) (simp, metis prod.collapse, simp)
  have tx: "?P (snd (persist_tx E base clk p st err w))" if "?P w" for w
    unfolding persist_tx_def using that
    by (intro andthen_keeps [where P = ?P] foreach_keeps [where P = ?P]) (simp_all add: persist_recipient_def att)
  show ?thesis
    unfolding persist_def Let_def
  proof (rule andthen_keeps [where P = ?P], simp add: assms)
    fix u and w :: world assume "?P w"
    from tx [OF this] show "?P (snd (case persist_tx E base clk p st err w of
          (Inl e, wd1) \<Rightarrow> (Inl e, wd1\<lparr>wd_db := db_rollback (db_tables (wd_db w)) (wd_db wd1)\<rparr>)
        | (Inr i, wd1) \<Rightarrow> andthen (on_db (db_commit (db_tables (wd_db w))) wd1) (\<lambda>_ wd2. (Inr i, wd2))))"
      by (cases "persist_tx E base clk p st err w"; cases "fst (persist_tx E base clk p st err w)")
        (auto intro!: andthen_keeps [where P = ?P])
  qed
qed

lemma persist_raw_blobs:
  assumes "sha256_ok E" and "hashed E p" and "world_inv E base wd" and "safe_comp k"
  shows "raw_blob base k (wd_fs (snd (persist E base clk p st err wd))) = raw_blob base k (wd_fs wd)"
proof -
  note inv' = world_invD [OF assms(3)]
  have base: "base \<noteq> []" using inv'(1) by (simp add: storage_inv_def)
  have n: "0 < db_next_message (wd_db wd)" using inv'(3) by (simp add: db_inv_def Let_def ids_ok_def)
  have "raw_path base k \<noteq> attachment_path base (db_next_message (wd_db wd)) l" if "safe_comp l" for l
    using that base n assms(4) by (simp add: raw_path_eq attachment_path_eq)
  then show ?thesis
    using persist_frame [OF assms(1,2) inv'(3,1)] unfolding mail_frame_def raw_blob_def by blast
qed

lemma ingest_phase_raw_inv:
  assumes sha: "sha256_ok E" and inv: "raw_inv E base (wd, pool)" and i: "pool i = Some ph"
    and ph: "ingest_phase E base clk w ph wd = (ph', wd')"
  shows "raw_inv E base (wd', pool(i \<mapsto> ph'))"
proof -
  let ?B = "\<lambda>k wd. raw_blob base k (wd_fs wd) \<noteq> None"
  have wi: "world_inv E base wd" and c: "raw_complete E base (wd_fs wd)"
    and ms: "\<And>m. m \<in> set (db_messages (db_tables (wd_db wd))) \<Longrightarrow> ?B (m_hash m) wd"
    and sv: "\<And>j raw. pool j = Some (Saved raw) \<Longrightarrow> ?B (HashBytes E raw) wd"
    using inv by (auto simp: raw_inv_def)
  have wi': "world_inv E base wd'" using ingest_phase_inv [OF sha wi] ph by (metis snd_conv)
  note safe = HashBytes_safe [OF sha]
  have hs: "safe_comp (m_hash m)" if "m \<in> set (db_messages (db_tables (wd_db wd)))" for m
    using wi that safe unfolding world_inv_def by metis
  show ?thesis
  proof (cases ph)
    case (Received raw)
    obtain r where d: "isDuplicate E (HashBytes E raw) wd = (r, wd')" and "\<forall>raw. ph' \<noteq> Saved raw"
      using ph Received by (auto split: prod.splits sum.splits bool.splits)
    then have "wd_fs wd' = wd_fs wd" "db_tables (wd_db wd') = db_tables (wd_db wd)"
      using isDuplicate_keeps [OF d] by auto
    with wi' c ms sv \<open>\<forall>raw. ph' \<noteq> Saved raw\<close> show ?thesis by (auto simp: raw_inv_def)
  next
    case (Checked raw)
    obtain r fs' where s: "SaveRawMIME base (HashBytes E raw) raw (wd_fs wd) = (r, fs')" by fastforce
    have ph': "wd' = wd\<lparr>wd_fs := fs'\<rparr>" "\<And>raw'. ph' = Saved raw' \<Longrightarrow> raw' = raw \<and> r = Inr ()"
      using ph Checked s by (cases r; auto simp: on_fs_def)+
    note sc = SaveRawMIME_complete [OF world_invD(1) [OF wi] c sha s]
    have keep: "?B k wd \<Longrightarrow> ?B k wd'" if "safe_comp k" for k using sc that ph'(1) by simp
    have "?B (HashBytes E raw') wd'" if "ph' = Saved raw'" for raw' using sc ph' that by simp
    then show ?thesis
      using wi' sc ms hs sv keep safe unfolding raw_inv_def fst_conv snd_conv by (auto simp: ph'(1))
  next
    case (Saved raw)
    obtain p st err where pf: "parse_or_fallback E clk raw = (p, st, err)" by (metis prod_cases3)
    have wd': "wd' = snd (persist E base clk p st err wd)" "\<forall>raw. ph' \<noteq> Saved raw"
      using ph Saved pf by (auto split: prod.splits sum.splits)
    have p: "ContentHash p = HashBytes E raw" "hashed E p" using parse_or_fallback_facts [OF pf sha] by simp_all
    have blobs: "raw_blob base k (wd_fs wd') = raw_blob base k (wd_fs wd)" if "safe_comp k" for k
      using persist_raw_blobs [OF sha p(2) wi that] wd'(1) by simp
    have "raw_complete E base (wd_fs wd')"
      using c blobs persist_no_partial [of wd] wd'(1) by (simp add: raw_complete_def)
    moreover have "?B (m_hash m) wd'" if "m \<in> set (db_messages (db_tables (wd_db wd')))" for m
    proof -
      have "m_hash m = HashBytes E raw \<or> m \<in> set (db_messages (db_tables (wd_db wd)))"
        using that persist_messages p(1) unfolding wd'(1) by fastforce
      then show ?thesis using ms hs sv [of i raw] i Saved safe blobs by auto
    qed
    moreover have "?B (HashBytes E raw') wd'" if "pool j = Some (Saved raw')" for j raw'
      using sv [OF that] blobs [OF safe] by simp
    ultimately show ?thesis using wi' wd'(2) by (auto simp: raw_inv_def)
  next
    case (Finished r)
    then show ?thesis using inv ph i by (simp add: fun_upd_idem)
  qed
qed

lemma ingest_reach_raw_inv:
  assumes "ingest_reach E base wd0 s" and "sha256_ok E" and "raw_inv E base (wd0, Map.empty)"
  shows "raw_inv E base s"
  using assms(1)
proof (induction rule: ingest_reach.induct)
  case init
  then show ?case using assms(3) by simp
next
  case (next_step s s')
  from next_step.hyps(2) show ?case
  proof (cases rule: ingest_step.cases)
    case (arrive pool i wd raw)
    with next_step.IH show ?thesis by (auto simp: raw_inv_def)
  next
    case (advance pool i ph clk w wd ph' wd')
    with next_step.IH ingest_phase_raw_inv [OF assms(2)] show ?thesis by blast
  qed
qed

section \<open>Duplicates and retries\<close>

definition known_hash :: "ext \<Rightarrow> string \<Rightarrow> tables \<Rightarrow> bool" where
  "known_hash E h t \<longleftrightarrow> list_ex (\<lambda>e. same_text E (e_hash e) h) (db_events t)"

lemma known_hash_find: "known_hash E h t \<longleftrightarrow> find (\<lambda>e. same_text E (e_hash e) h) (db_events t) \<noteq> None"
  by (auto simp: known_hash_def find_None_all list_ex_iff)

lemma isDuplicate_Inr:
  assumes "isDuplicate E h wd = (Inr b, wd')"
  shows "b = known_hash E h (db_tables (wd_db wd))"
proof -
  obtain flt db1 where n: "next_db_fault (wd_db wd) = (flt, db1)" by fastforce
  have t: "db_tables db1 = db_tables (wd_db wd)" using next_db_fault_keeps [OF n] by simp
  show ?thesis
    using assms n t
    by (cases flt; cases "find (\<lambda>e. same_text E (e_hash e) h) (db_events (db_tables (wd_db wd)))")
      (auto simp: isDuplicate_def on_db_def exec_stmt_def select_event_def known_hash_find)
qed

lemma isDuplicate_no_fault:
  assumes "db_faults (wd_db wd) = []"
  shows "isDuplicate E h wd = (Inr (known_hash E h (db_tables (wd_db wd))), wd)"
  using assms
  by (cases "find (\<lambda>e. same_text E (e_hash e) h) (db_events (db_tables (wd_db wd)))")
    (auto simp: isDuplicate_def on_db_def exec_stmt_def next_db_fault_def select_event_def known_hash_find)

lemma known_hash_iff:
  assumes "collate_ok E" and "sha256_ok E" and "world_inv E base wd"
  shows "known_hash E (HashBytes E raw) (db_tables (wd_db wd)) \<longleftrightarrow>
     (\<exists>m \<in> set (db_messages (db_tables (wd_db wd))). m_hash m = HashBytes E raw)"
proof -
  let ?t = "db_tables (wd_db wd)"
  have same: "map m_hash (db_messages ?t) = map e_hash (db_events ?t)"
    using assms(3) by (simp add: world_inv_def mail_inv_def)
  then have "set (map m_hash (db_messages ?t)) = set (map e_hash (db_events ?t))" by (rule arg_cong)
  then have ims: "m_hash ` set (db_messages ?t) = e_hash ` set (db_events ?t)" by simp
  have hex: "list_all is_hex (HashBytes E d)" for d using HashBytes_hex [OF assms(2)] by blast
  have "same_text E (e_hash e) (HashBytes E raw) \<longleftrightarrow> e_hash e = HashBytes E raw" if "e \<in> set (db_events ?t)" for e
  proof -
    have "e_hash e \<in> m_hash ` set (db_messages ?t)" using that ims by blast
    then obtain d where "e_hash e = HashBytes E d"
      using assms(3) unfolding world_inv_def by auto
    then show ?thesis using assms(1) hex unfolding collate_ok_def same_text_def by metis
  qed
  then have "known_hash E (HashBytes E raw) ?t \<longleftrightarrow> HashBytes E raw \<in> e_hash ` set (db_events ?t)"
    unfolding known_hash_def list_ex_iff by (metis (no_types, lifting) image_iff)
  then show ?thesis using ims by (metis (no_types, lifting) image_iff)
qed

lemma add_mail_known: "known_hash E (ContentHash p) (add_mail clk p st err db)"
  by (simp add: known_hash_def add_mail_def Let_def new_event_def same_text_def)

text \<open>What a request that reached the storage can have done to the tables.\<close>

lemma ingest_raw_tables:
  assumes "ingest_raw E base clk raw w wd = (res, wd')" and "parse_or_fallback E clk raw = (p, st, err)"
  obtains (same) "db_tables (wd_db wd') = db_tables (wd_db wd)" "rs_status res = 500 \<or> rs_body res = Json (status_json ''duplicate'')"
  | (added) "db_tables (wd_db wd') = add_mail clk p st err (wd_db wd)" "\<not> known_hash E (HashBytes E raw) (db_tables (wd_db wd))"
      "res = writeJSON w 500 (json_error ''persist message'') \<or>
       res = writeJSON w 200 (JObj [(''message_id'', JInt (db_next_message (wd_db wd))), (''status'', JStr ''accepted'')])"
proof -
  obtain r1 wd1 where d: "isDuplicate E (HashBytes E raw) wd = (r1, wd1)" by fastforce
  obtain f1 where wd1: "wd_db wd1 = (wd_db wd)\<lparr>db_faults := f1\<rparr>" using isDuplicate_keeps [OF d] by blast
  obtain r2 wd2 where sv: "on_fs (SaveRawMIME base (HashBytes E raw) raw) wd1 = (r2, wd2)" by fastforce
  have wd2: "wd_db wd2 = wd_db wd1" using sv on_fs_snd(1) [of _ wd1] by (metis snd_conv)
  obtain r3 wd3 where pr: "persist E base clk p st err wd2 = (r3, wd3)" by fastforce
  consider (dup) "r1 = Inr False" "r2 = Inr ()" | (other) "r1 \<noteq> Inr False \<or> r2 \<noteq> Inr ()" by blast
  then show ?thesis
  proof cases
    case dup
    have new: "\<not> known_hash E (HashBytes E raw) (db_tables (wd_db wd))"
      using isDuplicate_Inr [of E "HashBytes E raw" wd False wd1] d dup(1) by simp
    have res: "res = (case r3 of Inl e \<Rightarrow> writeJSON w 500 (json_error ''persist message'')
        | Inr i \<Rightarrow> writeJSON w 200 (JObj [(''message_id'', JInt i), (''status'', JStr ''accepted'')]))" "wd' = wd3"
      using assms d sv pr dup by (auto simp: ingest_raw_def split: sum.splits)
    show ?thesis
      using res wd1 wd2 new that by (cases rule: persist_cases [OF pr]) auto
  next
    case other
    then have "db_tables (wd_db wd') = db_tables (wd_db wd)" "rs_status res = 500 \<or> rs_body res = Json (status_json ''duplicate'')"
      using assms d sv wd1 wd2 by (auto simp: ingest_raw_def split: sum.splits bool.splits)
    then show ?thesis by (rule same)
  qed
qed

lemma ingest_raw_duplicate:
  assumes "db_faults (wd_db wd) = []" and "known_hash E (HashBytes E raw) (db_tables (wd_db wd))"
  shows "ingest_raw E base clk raw w wd = (writeJSON w 200 (status_json ''duplicate''), wd)"
  using isDuplicate_no_fault [OF assms(1), of E "HashBytes E raw"] assms(2) by (simp add: ingest_raw_def)

section \<open>When a message is accepted\<close>

text \<open>
  The rows of the message fit their columns, its attachments are not stored yet and are pairwise
  different, and the counters have room.
\<close>

definition mail_fits :: "ext \<Rightarrow> clock \<Rightarrow> parsed_message \<Rightarrow> string \<Rightarrow> string option \<Rightarrow> database \<Rightarrow> bool" where
  "mail_fits E clk p st err db \<longleftrightarrow>
     message_ok (new_message clk p st err) \<and>
     list_all (\<lambda>r. recipient_ok (new_recipient clk 0 (0, r))) (Recipients p) \<and>
     list_all (\<lambda>a. attachment_ok (new_attachment 0 a)) (Attachments p) \<and>
     distinct (map (x_collate E) (map a_key (db_attachments (db_tables db)) @ map AttachmentHash (Attachments p))) \<and>
     db_next_message db \<le> int64_max \<and>
     db_next_recipient db + int (length (Recipients p)) \<le> int64_max \<and>
     db_next_attachment db + int (length (Attachments p)) \<le> int64_max \<and>
     db_next_event db \<le> int64_max"

lemma exec_stmt_no_fault: "db_faults db = [] \<Longrightarrow> exec_stmt f db = f db"
  by (simp add: exec_stmt_def next_db_fault_def)

lemma persist_recipient_succeeds:
  assumes "db_faults (wd_db wd) = []" and "message_exists i (db_tables (wd_db wd))"
    and "recipient_ok (new_recipient clk 0 (0, snd ir))" and "db_next_recipient (wd_db wd) \<le> int64_max"
  shows "\<exists>db. persist_recipient clk i ir wd = (Inr (), wd\<lparr>wd_db := db\<rparr>) \<and> db_faults db = [] \<and>
    db_messages (db_tables db) = db_messages (db_tables (wd_db wd)) \<and> db_next_recipient db = db_next_recipient (wd_db wd) + 1"
  using assms
  by (auto simp: persist_recipient_def on_db_def exec_stmt_no_fault insert_recipient_def Let_def
      recipient_ok_def new_recipient_def)

lemma persist_recipients_succeed:
  assumes "db_faults (wd_db wd) = []" and "message_exists i (db_tables (wd_db wd))"
    and "list_all (\<lambda>r. recipient_ok (new_recipient clk 0 (0, r))) rs"
    and "db_next_recipient (wd_db wd) + int (length rs) \<le> int64_max"
  shows "\<exists>wd'. foreach (persist_recipient clk i) (enumerate k rs) wd = (Inr (), wd') \<and> db_faults (wd_db wd') = []"
  using assms
proof (induction rs arbitrary: k wd)
  case Nil
  then show ?case by simp
next
  case (Cons r rs)
  obtain db where s: "persist_recipient clk i (k, r) wd = (Inr (), wd\<lparr>wd_db := db\<rparr>)" "db_faults db = []"
    "db_messages (db_tables db) = db_messages (db_tables (wd_db wd))" "db_next_recipient db = db_next_recipient (wd_db wd) + 1"
    using persist_recipient_succeeds [OF Cons.prems(1,2), of clk "(k, r)"] Cons.prems(3,4) by auto
  have "\<exists>wd'. foreach (persist_recipient clk i) (enumerate (Suc k) rs) (wd\<lparr>wd_db := db\<rparr>) = (Inr (), wd') \<and>
      db_faults (wd_db wd') = []"
    by (rule Cons.IH) (use s Cons.prems in \<open>simp_all add: message_exists_def\<close>)
  then show ?case using s(1) by simp
qed

lemma persist_attachment_succeeds:
  assumes "storage_ready base (wd_fs wd)" and "db_faults (wd_db wd) = []"
    and "message_exists i (db_tables (wd_db wd))" and "valid_attachment_key (i, AttachmentHash a)"
    and "attachment_ok (new_attachment 0 a)" and "db_next_attachment (wd_db wd) \<le> int64_max"
    and "x_collate E (AttachmentHash a) \<notin> x_collate E ` a_key ` set (db_attachments (db_tables (wd_db wd)))"
  shows "\<exists>fs db. persist_attachment E base i a wd = (Inr (), wd\<lparr>wd_fs := fs, wd_db := db\<rparr>) \<and> storage_ready base fs \<and>
    db_faults db = [] \<and> db_messages (db_tables db) = db_messages (db_tables (wd_db wd)) \<and>
    map a_key (db_attachments (db_tables db)) = map a_key (db_attachments (db_tables (wd_db wd))) @ [AttachmentHash a] \<and>
    db_next_attachment db = db_next_attachment (wd_db wd) + 1"
proof -
  obtain fs where fs: "SaveAttachment base i (AttachmentHash a) (Content a) (wd_fs wd) = (Inr (), fs)" "storage_ready base fs"
    using SaveAttachment_succeeds [OF assms(1,4)] by blast
  have "\<not> list_ex (\<lambda>b. same_text E (a_key b) (AttachmentHash a)) (db_attachments (db_tables (wd_db wd)))"
    using assms(7) unfolding list_ex_iff same_text_def by (metis imageI)
  then have "\<exists>db. insert_attachment E (new_attachment i a) (wd_db wd) = (Inr (), db) \<and> db_faults db = [] \<and>
    db_messages (db_tables db) = db_messages (db_tables (wd_db wd)) \<and>
    map a_key (db_attachments (db_tables db)) = map a_key (db_attachments (db_tables (wd_db wd))) @ [AttachmentHash a] \<and>
    db_next_attachment db = db_next_attachment (wd_db wd) + 1"
    using assms(2,3,5,6)
    by (simp add: insert_attachment_def Let_def attachment_ok_def new_attachment_def)
  then obtain db where db: "insert_attachment E (new_attachment i a) (wd_db wd) = (Inr (), db)" "db_faults db = []"
    "db_messages (db_tables db) = db_messages (db_tables (wd_db wd))"
    "map a_key (db_attachments (db_tables db)) = map a_key (db_attachments (db_tables (wd_db wd))) @ [AttachmentHash a]"
    "db_next_attachment db = db_next_attachment (wd_db wd) + 1" by blast
  then have "persist_attachment E base i a wd = (Inr (), wd\<lparr>wd_fs := fs, wd_db := db\<rparr>)"
    using fs assms(2) by (simp add: persist_attachment_def on_fs_def on_db_def exec_stmt_no_fault)
  with fs(2) db(2-5) show ?thesis by blast
qed

lemma persist_attachments_succeed:
  assumes "storage_ready base (wd_fs wd)" and "db_faults (wd_db wd) = []"
    and "message_exists i (db_tables (wd_db wd))" and "\<forall>a \<in> set as. valid_attachment_key (i, AttachmentHash a)"
    and "list_all (\<lambda>a. attachment_ok (new_attachment 0 a)) as"
    and "db_next_attachment (wd_db wd) + int (length as) \<le> int64_max"
    and "distinct (map (x_collate E) (map a_key (db_attachments (db_tables (wd_db wd))) @ map AttachmentHash as))"
  shows "\<exists>wd'. foreach (persist_attachment E base i) as wd = (Inr (), wd') \<and> db_faults (wd_db wd') = []"
  using assms
proof (induction as arbitrary: wd)
  case Nil
  then show ?case by simp
next
  case (Cons a as)
  have nc: "x_collate E (AttachmentHash a) \<notin> x_collate E ` a_key ` set (db_attachments (db_tables (wd_db wd)))"
    using Cons.prems(7) by auto
  obtain fs db where s: "persist_attachment E base i a wd = (Inr (), wd\<lparr>wd_fs := fs, wd_db := db\<rparr>)"
    "storage_ready base fs" "db_faults db = []" "db_messages (db_tables db) = db_messages (db_tables (wd_db wd))"
    "map a_key (db_attachments (db_tables db)) = map a_key (db_attachments (db_tables (wd_db wd))) @ [AttachmentHash a]"
    "db_next_attachment db = db_next_attachment (wd_db wd) + 1"
    using persist_attachment_succeeds [OF Cons.prems(1-3) _ _ _ nc] Cons.prems(4-6) by auto
  have "\<exists>wd'. foreach (persist_attachment E base i) as (wd\<lparr>wd_fs := fs, wd_db := db\<rparr>) = (Inr (), wd') \<and>
      db_faults (wd_db wd') = []"
  proof (rule Cons.IH)
    show "distinct (map (x_collate E) (map a_key (db_attachments (db_tables (wd_db (wd\<lparr>wd_fs := fs, wd_db := db\<rparr>)))) @ map AttachmentHash as))"
      using Cons.prems(7) s(5) by simp
  qed (use s Cons.prems in \<open>simp_all add: message_exists_def\<close>)
  then show ?case using s(1) by auto
qed

text \<open>The hash of a message is hexadecimal, so the event row always fits.\<close>

lemma event_ok_hash: "sha256_ok E \<Longrightarrow> event_ok ((new_event (HashBytes E raw))\<lparr>e_id := n\<rparr>)"
proof -
  assume sha: "sha256_ok E"
  have "\<forall>c \<in> set (HashBytes E raw). byte c < 128"
    using HashBytes_hex [OF sha, of raw] is_hex_ascii by (auto simp: list_all_iff)
  from valid_utf8_ascii [OF this] HashBytes_hex [OF sha, of raw]
  show ?thesis by (simp add: event_ok_def new_event_def varchar_ok_def)
qed

lemma persist_tx_succeeds:
  assumes ready: "storage_ready base (wd_fs wd)" and nf: "db_faults (wd_db wd) = []" and inv: "world_inv E base wd"
    and sha: "sha256_ok E" and fits: "mail_fits E clk p st err (wd_db wd)" and h: "hashed E p"
    and c: "ContentHash p = HashBytes E raw" and new: "\<not> known_hash E (HashBytes E raw) (db_tables (wd_db wd))"
  shows "\<exists>wd'. persist_tx E base clk p st err wd = (Inr (db_next_message (wd_db wd)), wd') \<and> db_faults (wd_db wd') = []"
proof -
  let ?i = "db_next_message (wd_db wd)"
  have i: "0 < ?i" "in_int64 ?i"
    using world_invD(3) [OF inv] fits
    by (auto simp: db_inv_def Let_def ids_ok_def mail_fits_def in_int64_def int64_min_def)
  obtain db1 where m: "exec_stmt (insert_message (new_message clk p st err)) (wd_db wd) = (Inr ?i, db1)" "db_faults db1 = []"
    using fits nf by (auto simp: exec_stmt_no_fault insert_message_def Let_def mail_fits_def message_ok_def)
  note M = exec_message [OF m(1)]
  have ex: "message_exists ?i (db_tables db1)" using M by (simp add: message_exists_def stored_message_def Let_def)
  let ?wd1 = "wd\<lparr>wd_db := db1\<rparr>"
  obtain wd2 where r: "foreach (persist_recipient clk ?i) (enumerate 0 (Recipients p)) ?wd1 = (Inr (), wd2)"
    "db_faults (wd_db wd2) = []"
    using persist_recipients_succeed [of ?wd1 ?i clk "Recipients p" 0] m(2) ex fits M by (auto simp: mail_fits_def)
  have R: "db_tables (wd_db wd2) = (db_tables db1)\<lparr>db_recipients := db_recipients (db_tables (wd_db wd2))\<rparr>"
    "wd_fs wd2 = wd_fs wd" "db_next_attachment (wd_db wd2) = db_next_attachment (wd_db wd)"
    "db_next_event (wd_db wd2) = db_next_event (wd_db wd)"
    using persist_recipients [OF r(1), of "db_next_recipient db1"] M by simp_all
  obtain wd3 where a: "foreach (persist_attachment E base ?i) (Attachments p) wd2 = (Inr (), wd3)" "db_faults (wd_db wd3) = []"
  proof -
    have "\<exists>wd3. foreach (persist_attachment E base ?i) (Attachments p) wd2 = (Inr (), wd3) \<and> db_faults (wd_db wd3) = []"
    proof (rule persist_attachments_succeed)
      have t: "db_attachments (db_tables (wd_db wd2)) = db_attachments (db_tables (wd_db wd))"
        "db_messages (db_tables (wd_db wd2)) = db_messages (db_tables db1)"
        using R(1) M by (metis tables.select_convs tables.surjective tables.update_convs)+
      show "message_exists ?i (db_tables (wd_db wd2))" using ex t by (simp add: message_exists_def)
      show "distinct (map (x_collate E) (map a_key (db_attachments (db_tables (wd_db wd2))) @ map AttachmentHash (Attachments p)))"
        using fits t by (simp add: mail_fits_def)
    qed (use ready r(2) R fits hashed_keys [OF sha h _ i] in \<open>simp_all add: mail_fits_def\<close>)
    with that show ?thesis by blast
  qed
  have "db_next_event (wd_db wd3) = db_next_event (wd_db wd)" "db_events (db_tables (wd_db wd3)) = db_events (db_tables (wd_db wd))"
    using persist_attachments [OF a(1), of "db_next_attachment (wd_db wd)" 0] R M
    by (simp_all, metis tables.select_convs(4) tables.surjective tables.update_convs)
  moreover have "\<not> list_ex (\<lambda>f. same_text E (e_cloudflare_id f) (ContentHash p) \<and> same_text E (e_hash f) (ContentHash p))
      (db_events (db_tables (wd_db wd)))"
    using new c by (auto simp: known_hash_def list_ex_iff)
  ultimately have "\<exists>db4. insert_event E (new_event (ContentHash p)) (wd_db wd3) = (Inr (), db4) \<and> db_faults db4 = []"
    using a(2) fits event_ok_hash [OF sha, where raw = raw] c
    by (simp add: insert_event_def Let_def mail_fits_def) (simp add: new_event_def)
  then show ?thesis using m(1) r(1) a by (auto simp: persist_tx_def on_db_def exec_stmt_no_fault)
qed

lemma persist_succeeds:
  assumes "storage_ready base (wd_fs wd)" and nf: "db_faults (wd_db wd) = []" and "world_inv E base wd"
    and "sha256_ok E" and "mail_fits E clk p st err (wd_db wd)" and "hashed E p"
    and "ContentHash p = HashBytes E raw" and "\<not> known_hash E (HashBytes E raw) (db_tables (wd_db wd))"
  shows "\<exists>wd'. persist E base clk p st err wd = (Inr (db_next_message (wd_db wd)), wd') \<and> db_faults (wd_db wd') = []"
proof -
  obtain wd1 where tx: "persist_tx E base clk p st err wd = (Inr (db_next_message (wd_db wd)), wd1)" "db_faults (wd_db wd1) = []"
    using persist_tx_succeeds [OF assms] by blast
  have "db_begin (wd_db wd) = (Inr (), wd_db wd)" using nf by (simp add: db_begin_def exec_stmt_no_fault)
  moreover have "db_commit t (wd_db wd1) = (Inr (), wd_db wd1)" for t
    using tx(2) by (simp add: db_commit_def next_db_fault_def)
  ultimately show ?thesis using tx by (simp add: persist_def on_db_def)
qed

lemma ingest_raw_accepts:
  assumes ready: "storage_ready base (wd_fs wd)" and nf: "db_faults (wd_db wd) = []" and inv: "world_inv E base wd"
    and sha: "sha256_ok E" and pf: "parse_or_fallback E clk raw = (p, st, err)"
    and fits: "mail_fits E clk p st err (wd_db wd)"
    and new: "\<not> known_hash E (HashBytes E raw) (db_tables (wd_db wd))"
  shows "\<exists>wd'. ingest_raw E base clk raw w wd =
      (writeJSON w 200 (JObj [(''message_id'', JInt (db_next_message (wd_db wd))), (''status'', JStr ''accepted'')]), wd') \<and>
    db_tables (wd_db wd') = add_mail clk p st err (wd_db wd) \<and> db_faults (wd_db wd') = [] \<and>
    raw_blob base (HashBytes E raw) (wd_fs wd') = Some (keep_first (raw_blob base (HashBytes E raw) (wd_fs wd)) raw)"
proof -
  note safe = HashBytes_safe [OF sha, of raw]
  note facts = parse_or_fallback_facts [OF pf sha]
  obtain fs1 where s: "SaveRawMIME base (HashBytes E raw) raw (wd_fs wd) = (Inr (), fs1)" "storage_ready base fs1"
    using SaveRawMIME_succeeds [OF ready safe] by blast
  let ?wd1 = "wd\<lparr>wd_fs := fs1\<rparr>"
  have inv1: "world_inv E base ?wd1"
    using SaveRawMIME_world_inv [OF inv safe sha, of raw] s(1) by (simp add: on_fs_def)
  obtain wd' where p: "persist E base clk p st err ?wd1 = (Inr (db_next_message (wd_db wd)), wd')" "db_faults (wd_db wd') = []"
    using persist_succeeds [of base ?wd1 E clk p st err raw] s(2) nf inv1 sha fits facts new by auto
  have "ingest_raw E base clk raw w wd =
      (writeJSON w 200 (JObj [(''message_id'', JInt (db_next_message (wd_db wd))), (''status'', JStr ''accepted'')]), wd')"
    using isDuplicate_no_fault [OF nf, of E "HashBytes E raw"] new pf s(1) p(1) by (simp add: ingest_raw_def on_fs_def)
  moreover have "db_tables (wd_db wd') = add_mail clk p st err (wd_db wd)"
    by (cases rule: persist_cases [OF p(1)]) simp_all
  moreover have "raw_blob base (HashBytes E raw) (wd_fs wd') = raw_blob base (HashBytes E raw) fs1"
    using persist_raw_blobs [OF sha _ inv1 safe, of p clk st err] facts p(1) by simp
  then have "raw_blob base (HashBytes E raw) (wd_fs wd') = Some (keep_first (raw_blob base (HashBytes E raw) (wd_fs wd)) raw)"
    using raw.put_ok [OF world_invD(1) [OF inv] safe s(1)] by simp
  ultimately show ?thesis using p(2) by blast
qed

section \<open>What later traffic leaves alone\<close>

text \<open>Rows are only added, at the end; raw files that are there stay as they are.\<close>

definition mail_extends :: "string \<Rightarrow> world \<Rightarrow> world \<Rightarrow> bool" where
  "mail_extends base wd wd' \<longleftrightarrow>
     prefix (db_messages (db_tables (wd_db wd))) (db_messages (db_tables (wd_db wd'))) \<and>
     prefix (db_recipients (db_tables (wd_db wd))) (db_recipients (db_tables (wd_db wd'))) \<and>
     (\<forall>k d. safe_comp k \<longrightarrow> raw_blob base k (wd_fs wd) = Some d \<longrightarrow> raw_blob base k (wd_fs wd') = Some d)"

lemma mail_extends_refl [simp]: "mail_extends base wd wd"
  by (simp add: mail_extends_def)

lemma mail_extends_trans: "mail_extends base a b \<Longrightarrow> mail_extends base b c \<Longrightarrow> mail_extends base a c"
  unfolding mail_extends_def
  by (intro conjI) (auto intro: prefix_order.order_trans)

lemma mail_extends_same:
  "db_tables (wd_db wd') = db_tables (wd_db wd) \<Longrightarrow> \<forall>k. safe_comp k \<longrightarrow> raw_blob base k (wd_fs wd') = raw_blob base k (wd_fs wd) \<Longrightarrow>
   mail_extends base wd wd'"
  by (simp add: mail_extends_def)

lemma ingest_phase_extends:
  assumes sha: "sha256_ok E" and inv: "world_inv E base wd" and ph: "ingest_phase E base clk w ph wd = (ph', wd')"
  shows "mail_extends base wd wd'"
proof (cases ph)
  case (Received raw)
  obtain r where d: "isDuplicate E (HashBytes E raw) wd = (r, wd')"
    using ph Received by (auto split: prod.splits sum.splits bool.splits)
  from isDuplicate_keeps [OF d] show ?thesis by (intro mail_extends_same) auto
next
  case (Checked raw)
  obtain r fs' where s: "SaveRawMIME base (HashBytes E raw) raw (wd_fs wd) = (r, fs')" by fastforce
  have wd': "wd' = wd\<lparr>wd_fs := fs'\<rparr>" using ph Checked s by (cases r) (auto simp: on_fs_def)
  note safe = HashBytes_safe [OF sha, of raw]
  have "raw_blob base k fs' = Some d" if "safe_comp k" "raw_blob base k (wd_fs wd) = Some d" for k d
    using SaveRawMIME_stable [OF world_invD(1) [OF inv] safe s] raw.put_other [OF world_invD(1) [OF inv] safe that(1), of raw] s that(2)
    by (cases "k = HashBytes E raw") auto
  then show ?thesis by (simp add: mail_extends_def wd')
next
  case (Saved raw)
  obtain p st err where pf: "parse_or_fallback E clk raw = (p, st, err)" by (metis prod_cases3)
  obtain r wd2 where ps: "persist E base clk p st err wd = (r, wd2)" by fastforce
  have wd': "wd' = wd2" using ph Saved pf ps by (cases r) auto
  have p: "hashed E p" using parse_or_fallback_facts [OF pf sha] by simp
  have blobs: "raw_blob base k (wd_fs wd2) = raw_blob base k (wd_fs wd)" if "safe_comp k" for k
    using persist_raw_blobs [OF sha p inv that, of clk st err] ps by simp
  show ?thesis
    unfolding wd' using blobs by (cases rule: persist_cases [OF ps]) (simp_all add: mail_extends_def add_mail_def Let_def)
next
  case (Finished r)
  then show ?thesis using ph by simp
qed

lemma ingest_reach_extends:
  assumes "ingest_reach E base wd0 s" and "sha256_ok E" and "world_inv E base wd0"
  shows "mail_extends base wd0 (fst s)"
  using assms(1)
proof (induction rule: ingest_reach.induct)
  case init
  then show ?case by simp
next
  case (next_step s s')
  have inv: "world_inv E base (fst s)" by (rule ingest_reach_inv [OF next_step.hyps(1) assms(2,3)])
  from next_step.hyps(2) have "mail_extends base (fst s) (fst s')"
  proof (cases rule: ingest_step.cases)
    case (arrive pool i wd raw)
    then show ?thesis by simp
  next
    case (advance pool i ph clk w wd ph' wd')
    then show ?thesis using ingest_phase_extends [OF assms(2)] inv by simp
  qed
  with next_step.IH show ?case by (rule mail_extends_trans)
qed

text \<open>What a delivery that is answered with \<open>accepted\<close> has done.\<close>

lemma ingest_raw_accepted:
  assumes r: "ingest_raw E base clk raw w wd = (res, wd')" and sha: "sha256_ok E" and inv: "world_inv E base wd"
    and acc: "rs_body res = Json (JObj [(''message_id'', JInt n), (''status'', JStr ''accepted'')])"
    and pf: "parse_or_fallback E clk raw = (p, st, err)"
  shows "n = db_next_message (wd_db wd) \<and> 0 < n \<and> in_int64 n \<and> db_tables (wd_db wd') = add_mail clk p st err (wd_db wd) \<and>
    raw_blob base (HashBytes E raw) (wd_fs wd') = Some (keep_first (raw_blob base (HashBytes E raw) (wd_fs wd)) raw)"
proof -
  note safe = HashBytes_safe [OF sha, of raw]
  note facts = parse_or_fallback_facts [OF pf sha]
  obtain r1 wd1 where d: "isDuplicate E (HashBytes E raw) wd = (r1, wd1)" by fastforce
  obtain f1 where wd1: "wd_db wd1 = (wd_db wd)\<lparr>db_faults := f1\<rparr>" "wd_fs wd1 = wd_fs wd" using isDuplicate_keeps [OF d] by blast
  obtain r2 fs2 where sv: "SaveRawMIME base (HashBytes E raw) raw (wd_fs wd1) = (r2, fs2)" by fastforce
  let ?wd2 = "wd1\<lparr>wd_fs := fs2\<rparr>"
  obtain r3 wd3 where pr: "persist E base clk p st err ?wd2 = (r3, wd3)" by fastforce
  have r1: "r1 = Inr False" and r2: "r2 = Inr ()" and r3: "r3 = Inr n" and wd': "wd' = wd3"
    using r d sv pr pf acc
    by (cases r2; auto simp: ingest_raw_def on_fs_def json_error_def status_json_def split: sum.splits bool.splits)+
  have inv1: "world_inv E base wd1" using isDuplicate_world_inv [OF inv, of "HashBytes E raw"] d by simp
  have inv2: "world_inv E base ?wd2" using SaveRawMIME_world_inv [OF inv1 safe sha, of raw] sv by (simp add: on_fs_def)
  have "n = db_next_message (wd_db wd) \<and> db_tables (wd_db wd3) = add_mail clk p st err (wd_db wd) \<and> tx_done E base clk p st err ?wd2 wd3"
    using r3 wd1 by (cases rule: persist_cases [OF pr]) simp_all
  then have n: "n = db_next_message (wd_db wd)" and t: "db_tables (wd_db wd3) = add_mail clk p st err (wd_db wd)"
    and tx: "tx_done E base clk p st err ?wd2 wd3" by blast+
  obtain fs wd9 where "persist_tx E base clk p st err (?wd2\<lparr>wd_db := (wd_db ?wd2)\<lparr>db_faults := fs\<rparr>\<rparr>) =
      (Inr (db_next_message (wd_db ?wd2)), wd9)" using tx unfolding tx_done_def by blast
  then have i: "0 < n \<and> in_int64 n"
  proof (cases rule: persist_tx_Inr)
    case (1 wa wb wc)
    then show ?thesis using insert_message_id [where E = E] world_invD(3) [OF inv] wd1 n unfolding on_db_Inr by fastforce
  qed
  have "raw_blob base (HashBytes E raw) (wd_fs wd3) = raw_blob base (HashBytes E raw) fs2"
    using persist_raw_blobs [OF sha _ inv2 safe, of p clk st err] facts pr by simp
  moreover have "raw_blob base (HashBytes E raw) fs2 = Some (keep_first (raw_blob base (HashBytes E raw) (wd_fs wd)) raw)"
    using SaveRawMIME_effect [OF world_invD(1) [OF inv1] safe sv] r2 wd1 by simp
  ultimately show ?thesis using n t i wd' by simp
qed

section \<open>Properties\<close>

text \<open>A fresh installation, and a clock that always shows the same time.\<close>

definition new_world :: "fs_fault list \<Rightarrow> db_fault list \<Rightarrow> world" where
  "new_world disk conn = \<lparr>wd_fs = empty_fs disk, wd_db = empty_database conn\<rparr>"

definition demo_clock :: clock where
  "demo_clock i = 1000000000"

lemma new_world_sel [simp]: "wd_fs (new_world ff fl) = empty_fs ff" "wd_db (new_world ff fl) = empty_database fl"
  by (simp_all add: new_world_def)

lemma empty_database_sel [simp]: "db_tables (empty_database fl) = empty_tables" "db_faults (empty_database fl) = fl"
  by (simp_all add: empty_database_def)

lemma new_world_inv: "base \<noteq> [] \<Longrightarrow> world_inv E base (new_world ff fl)"
  by (simp add: world_inv_def empty_fs_ok empty_mail_inv) (simp add: empty_tables_def)

lemma new_world_raw_inv:
  assumes "base \<noteq> []" and "no_partial (empty_fs ff)"
  shows "raw_inv E base (new_world ff fl, Map.empty)"
  using new_world_inv [OF assms(1), of E ff fl] assms(2)
  by (simp add: raw_inv_def raw_complete_def raw_blob_def empty_tables_def) (simp add: empty_fs_def)

lemma varchar_ascii: "\<forall>c \<in> set s. byte c < 128 \<Longrightarrow> length s \<le> n \<Longrightarrow> varchar_ok n s"
  using valid_utf8_ascii [of s] by (simp add: varchar_ok_def)

lemma hash_ascii: "sha256_ok E \<Longrightarrow> \<forall>c \<in> set (HashBytes E d). byte c < 128"
  using HashBytes_hex [of E d] is_hex_ascii by (auto simp: list_all_iff)

lemma plain_fits:
  assumes "\<forall>c \<in> set raw. byte c < 128" and "length raw < longtext_bytes"
    and "db_attachments (db_tables db) = []" "db_next_message db \<le> int64_max" "db_next_recipient db < int64_max"
    "db_next_attachment db \<le> int64_max" "db_next_event db \<le> int64_max"
  shows "mail_fits plain_ext clk (plain_message raw) ''success'' None db"
proof -
  have h: "length (HashBytes plain_ext raw) = 64" using HashBytes_hex [OF plain_ext_ok(1)] by simp
  have "varchar_ok 255 (HashBytes plain_ext raw)" "varchar_ok 64 (HashBytes plain_ext raw)"
    "varchar_ok 1000 (''raw/'' @ HashBytes plain_ext raw)"
    by (rule varchar_ascii; use h hash_ascii [OF plain_ext_ok(1), of raw] in \<open>auto simp: byte_def\<close>)+
  moreover have "varchar_ok 500 ''alice@example.org''" by (rule varchar_ascii) (simp_all add: byte_def)
  moreover have "text_ok longtext_bytes raw" "varchar_ok 500 []" "varchar_ok 1000 []" "text_ok longtext_bytes []"
    using assms(2) valid_utf8_ascii [OF assms(1)] by (simp_all add: text_ok_def varchar_ok_def)
  ultimately show ?thesis
    using assms(3-) unfolding mail_fits_def
    by (simp add: message_ok_def recipient_ok_def new_message_def new_recipient_def plain_message_def zero_parsed_def)
qed

lemma plain_parse_or_fallback:
  "valid_utf8 raw \<Longrightarrow> parse_or_fallback plain_ext clk raw = (plain_message raw, ''success'', None)"
  using ParseMIME_hash [of plain_ext raw] HashBytes_hex [OF plain_ext_ok(1), of raw]
  by (auto simp: parse_or_fallback_def plain_ParseMIME Let_def)

text \<open>The first message of a fresh installation is accepted.\<close>

definition first_mail :: "string \<Rightarrow> response \<times> world" where
  "first_mail raw = ingest_raw plain_ext ''data'' demo_clock raw fresh_writer (new_world [] [])"

lemma first_mail_accepted:
  assumes a: "\<forall>c \<in> set raw. byte c < 128" and n: "length raw < longtext_bytes"
  shows "rs_status (fst (first_mail raw)) = 200 \<and>
    db_tables (wd_db (snd (first_mail raw))) = add_mail demo_clock (plain_message raw) ''success'' None (empty_database []) \<and>
    db_faults (wd_db (snd (first_mail raw))) = []"
proof -
  have nk: "\<not> known_hash plain_ext (HashBytes plain_ext raw) (db_tables (wd_db (new_world [] [])))"
    by (simp add: known_hash_def empty_tables_def)
  have pf: "parse_or_fallback plain_ext demo_clock raw = (plain_message raw, ''success'', None)"
    using plain_parse_or_fallback valid_utf8_ascii [OF a] by blast
  have fits: "mail_fits plain_ext demo_clock (plain_message raw) ''success'' None (wd_db (new_world [] []))"
    using plain_fits [OF a n, of "empty_database []"] by (simp add: empty_database_def empty_tables_def int64_max_def)
  show ?thesis
    using ingest_raw_accepts [OF _ _ new_world_inv plain_ext_ok(1) pf fits nk, of "''data''" fresh_writer]
    by (auto simp: first_mail_def empty_fs_ok)
qed

text \<open>
  Property C6: one message, one transaction. Whatever the disk and the database do, \<open>persist\<close> either
  succeeds and has added exactly the rows of the message, or fails and has added none; only when the
  acknowledgement of the commit is lost has it added them and still reports an error.
\<close>

theorem persist_all_or_nothing:
  "case persist E base clk p st err wd of (r, wd') \<Rightarrow>
     (r = Inr (db_next_message (wd_db wd)) \<and> db_tables (wd_db wd') = add_mail clk p st err (wd_db wd)) \<or>
     (isl r \<and> db_tables (wd_db wd') = db_tables (wd_db wd)) \<or>
     (r = Inl (DbErr ErrConn) \<and> db_tables (wd_db wd') = add_mail clk p st err (wd_db wd))"
proof -
  obtain r wd' where p: "persist E base clk p st err wd = (r, wd')" by fastforce
  then show ?thesis by (cases rule: persist_cases [OF p]) simp_all
qed

text \<open>
  Property C8: no message is stored twice. However the requests to a fresh installation interleave,
  and whatever faults disk and database have, the messages have pairwise different content hashes and each is
  paired with its ingest event, even though the duplicate check is not part of the transaction.
\<close>

theorem ingest_at_most_once:
  assumes "ingest_reach E base (new_world disk conn) s" and "sha256_ok E" and "base \<noteq> []"
  shows "distinct (map m_hash (db_messages (db_tables (wd_db (fst s))))) \<and>
    map e_hash (db_events (db_tables (wd_db (fst s)))) = map m_hash (db_messages (db_tables (wd_db (fst s))))"
proof -
  have inv: "mail_inv E (wd_db (fst s))"
    using ingest_reach_inv [OF assms(1,2) new_world_inv [OF assms(3)]] by (simp add: world_inv_def)
  then show ?thesis using mail_inv_distinct [OF inv] by (simp add: mail_inv_def)
qed

text \<open>Two requests with the same bytes, both past the duplicate check before either is stored.\<close>

lemma racing_requests:
  obtains wd where "ingest_reach plain_ext ''data'' (new_world [] []) (wd, [0 \<mapsto> Checked ''hello'', 1 \<mapsto> Checked ''hello''])"
proof -
  have ph: "ingest_phase plain_ext ''data'' demo_clock fresh_writer (Received ''hello'') (new_world [] []) = (Checked ''hello'', new_world [] [])"
    by (simp add: isDuplicate_no_fault known_hash_def empty_tables_def)
  let ?R = "ingest_reach plain_ext ''data'' (new_world [] [])"
  have "?R (new_world [] [], Map.empty(0 \<mapsto> Received ''hello''))"
    by (intro ingest_reach.next_step [OF ingest_reach.init] ingest_step.arrive) simp
  then have "?R (new_world [] [], Map.empty(0 \<mapsto> Received ''hello'', 1 \<mapsto> Received ''hello''))"
    by (rule ingest_reach.next_step) (rule ingest_step.arrive, simp)
  then have "?R (new_world [] [], (Map.empty(0 \<mapsto> Received ''hello'', 1 \<mapsto> Received ''hello''))(0 \<mapsto> Checked ''hello''))"
    by (rule ingest_reach.next_step) (rule ingest_step.advance [OF _ ph], simp)
  then have "?R (new_world [] [], (Map.empty(0 \<mapsto> Received ''hello'', 1 \<mapsto> Received ''hello''))(0 \<mapsto> Checked ''hello'', 1 \<mapsto> Checked ''hello''))"
    by (rule ingest_reach.next_step) (rule ingest_step.advance [OF _ ph], simp)
  then show ?thesis using that by (simp add: fun_upd_twist)
qed

theorem ingest_at_most_once_witness:
  "\<exists>wd. ingest_reach plain_ext ''data'' (new_world [] []) (wd, [0 \<mapsto> Checked ''hello'', 1 \<mapsto> Checked ''hello'']) \<and>
    distinct (map m_hash (db_messages (db_tables (wd_db wd))))"
proof -
  obtain wd where r: "ingest_reach plain_ext ''data'' (new_world [] []) (wd, [0 \<mapsto> Checked ''hello'', 1 \<mapsto> Checked ''hello''])"
    by (rule racing_requests)
  show ?thesis using ingest_at_most_once [OF r plain_ext_ok(1)] r by auto
qed

text \<open>
  Property C9: attachments are never dangling. However requests interleave and whatever faults disk and
  database have, the message of every attachment row exists, and the storage has a file under its key
  whose bytes have the size and the hash of the row.
\<close>

theorem attachment_integrity:
  assumes "ingest_reach E base (new_world disk conn) s" and "sha256_ok E" and "base \<noteq> []"
    and "a \<in> set (db_attachments (db_tables (wd_db (fst s))))"
  shows "(\<exists>m \<in> set (db_messages (db_tables (wd_db (fst s)))). m_id m = a_message a) \<and>
    (\<exists>d. attachment_blob base (a_message a, a_key a) (wd_fs (fst s)) = Some d \<and> HashBytes E d = a_hash a \<and>
       int (length d) = a_size a)"
proof -
  have inv: "world_inv E base (fst s)"
    by (rule ingest_reach_inv [OF assms(1,2) new_world_inv [OF assms(3)]])
  then have "attachment_stored E base (wd_fs (fst s)) a" using assms(4) by (simp add: world_inv_def)
  moreover have "a_message a \<in> m_id ` set (db_messages (db_tables (wd_db (fst s))))"
    using world_invD(3) [OF inv] assms(4) unfolding db_inv_def Let_def by blast
  ultimately show ?thesis by (auto simp: attachment_stored_def split: option.splits)
qed

text \<open>External parsers for which every message has its first byte as header and the rest as attachment.\<close>

definition attached_ext :: ext where
  "attached_ext = plain_ext\<lparr>x_read_message :=
     (\<lambda>raw. Inr ((\<lambda>name. if name = ''Content-Disposition'' then [''attachment''] else []), tl raw))\<rparr>"

definition attached_message :: "string \<Rightarrow> parsed_message" where
  "attached_message raw = zero_parsed\<lparr>ContentHash := HashBytes attached_ext raw,
     Attachments := [\<lparr>Content = tl raw, MimeType = ''text/plain'', OriginalFilename = [],
       Size = int (length (tl raw)), AttachmentHash = HashBytes attached_ext (tl raw)\<rparr>]\<rparr>"

lemma attached_sel: "x_lower attached_ext = latin1_lower" "x_collate attached_ext = id"
  "x_media attached_ext = (\<lambda>v. (v, \<lambda>p. [], if v = [] then Some ''mime: no media type'' else None))"
  "x_date attached_ext = (\<lambda>h. Inl ''mail: header not in message'')" "sha256_ok attached_ext" "collate_ok attached_ext"
  using plain_ext_ok by (simp_all add: attached_ext_def plain_ext_def sha256_ok_def collate_ok_def)

lemma attached_ParseMIME: "ParseMIME attached_ext raw = (Inr (), attached_message raw)"
proof -
  let ?h = "\<lambda>name. if name = ''Content-Disposition'' then [''attachment''] else []"
  have ph: "parsed_headers attached_ext raw ?h = zero_parsed\<lparr>ContentHash := HashBytes attached_ext raw\<rparr>"
    by (simp add: parsed_headers_def zero_parsed_def parse_sender_def header_get_def decodeHeaderText_def parseRecipients_def
        attached_sel)
  have mt: "fst (mediaTypeOf attached_ext ?h) = ''text/plain''"
    by (simp add: mediaTypeOf_def header_get_def attached_sel text_eval)
  have "parseEntity (parse_fuel raw) attached_ext ?h \<lparr>rd_bytes = tl raw, rd_err = None\<rparr> (parsed_headers attached_ext raw ?h) =
      (Inr (), attached_message raw)"
    unfolding parse_fuel_def ph
    by (subst parseEntity_leaf [OF mt])
      (simp_all add: text_eval consumeLeaf_def decodeContent_def read_all_def media_params_def attached_sel header_get_def
        decodeHeaderText_def attached_message_def zero_parsed_def)
  moreover have "x_read_message attached_ext raw = Inr (?h, tl raw)" by (simp add: attached_ext_def)
  ultimately show ?thesis by (simp add: ParseMIME_def attached_message_def zero_parsed_def)
qed

lemma attached_parse_or_fallback:
  "parse_or_fallback attached_ext clk raw = (attached_message raw, ''success'', None)"
  using ParseMIME_hash [of attached_ext raw] HashBytes_hex [OF attached_sel(5), of raw]
  by (auto simp: parse_or_fallback_def attached_ParseMIME Let_def)

lemma attached_fits: "int (length raw) < 1000 \<Longrightarrow> mail_fits attached_ext clk (attached_message raw) ''success'' None (empty_database [])"
proof -
  assume n: "int (length raw) < 1000"
  have h: "length (HashBytes attached_ext d) = 64" for d using HashBytes_hex [OF attached_sel(5)] by simp
  have "varchar_ok 255 (HashBytes attached_ext d)" "varchar_ok 64 (HashBytes attached_ext d)"
    "varchar_ok 500 (HashBytes attached_ext d)" "varchar_ok 1000 (''raw/'' @ HashBytes attached_ext d)" for d
    by (rule varchar_ascii; use h hash_ascii [OF attached_sel(5), of d] in \<open>auto simp: byte_def\<close>)+
  moreover have "varchar_ok 255 ''text/plain''" by (rule varchar_ascii) (simp_all add: byte_def)
  moreover have "varchar_ok 500 []" "varchar_ok 1000 []" "text_ok longtext_bytes []" by (simp_all add: text_ok_def varchar_ok_def)
  moreover have "in_int64 (int (length (tl raw)))" using n by (simp add: in_int64_iff)
  ultimately show ?thesis
    unfolding mail_fits_def
    by (simp add: message_ok_def attachment_ok_def new_message_def new_attachment_def nullableString_def text_eval
        attached_message_def zero_parsed_def empty_database_def empty_tables_def int64_max_def)
qed

definition first_attached :: "string \<Rightarrow> response \<times> world" where
  "first_attached raw = ingest_raw attached_ext ''data'' demo_clock raw fresh_writer (new_world [] [])"

lemma first_attached_accepted:
  assumes n: "int (length raw) < 1000"
  shows "rs_status (fst (first_attached raw)) = 200 \<and>
    db_tables (wd_db (snd (first_attached raw))) = add_mail demo_clock (attached_message raw) ''success'' None (empty_database []) \<and>
    db_faults (wd_db (snd (first_attached raw))) = []"
proof -
  have nk: "\<not> known_hash attached_ext (HashBytes attached_ext raw) (db_tables (wd_db (new_world [] [])))"
    by (simp add: known_hash_def empty_tables_def)
  have "mail_fits attached_ext demo_clock (attached_message raw) ''success'' None (wd_db (new_world [] []))"
    using attached_fits [OF n] by simp
  from ingest_raw_accepts [OF _ _ new_world_inv attached_sel(5) attached_parse_or_fallback this nk, of "''data''" fresh_writer]
  show ?thesis by (auto simp: first_attached_def empty_fs_ok)
qed

text \<open>The phases of one request, run to the end, are reachable.\<close>

lemma ingest_raw_reach_pool:
  assumes "ingest_raw E base clk raw w wd = (res, wd')"
  shows "ingest_reach E base wd (wd', [0 \<mapsto> Finished res])"
proof -
  obtain ph1 wd1 where p1: "ingest_phase E base clk w (Received raw) wd = (ph1, wd1)" by fastforce
  obtain ph2 wd2 where p2: "ingest_phase E base clk w ph1 wd1 = (ph2, wd2)" by fastforce
  have p3: "ingest_phase E base clk w ph2 wd2 = (Finished res, wd')"
    using assms p1 p2 by (simp add: ingest_raw_phases)
  have "ingest_reach E base wd (wd, Map.empty(0 \<mapsto> Received raw))"
    by (intro ingest_reach.next_step [OF ingest_reach.init] ingest_step.arrive) simp
  then have "ingest_reach E base wd (wd1, (Map.empty(0 \<mapsto> Received raw))(0 \<mapsto> ph1))"
    by (rule ingest_reach.next_step) (rule ingest_step.advance [OF _ p1], simp)
  then have "ingest_reach E base wd (wd2, ((Map.empty(0 \<mapsto> Received raw))(0 \<mapsto> ph1))(0 \<mapsto> ph2))"
    by (rule ingest_reach.next_step) (rule ingest_step.advance [OF _ p2], simp)
  then have "ingest_reach E base wd (wd', (((Map.empty(0 \<mapsto> Received raw))(0 \<mapsto> ph1))(0 \<mapsto> ph2))(0 \<mapsto> Finished res))"
    by (rule ingest_reach.next_step) (rule ingest_step.advance [OF _ p3], simp)
  then show ?thesis by simp
qed

lemma ingest_raw_reach:
  assumes "ingest_raw E base clk raw w wd = (res, wd')"
  shows "\<exists>pool. ingest_reach E base wd (wd', pool)"
  using ingest_raw_reach_pool [OF assms] by blast

theorem attachment_integrity_witness:
  "attachment_blob ''data'' (1, HashBytes attached_ext ''hello'') (wd_fs (snd (first_attached ''ahello''))) \<noteq> None"
proof -
  obtain pool where r: "ingest_reach attached_ext ''data'' (new_world [] []) (snd (first_attached ''ahello''), pool)"
    using ingest_raw_reach [OF prod.collapse [symmetric]] unfolding first_attached_def by blast
  have "\<exists>a \<in> set (db_attachments (db_tables (wd_db (snd (first_attached ''ahello''))))).
      a_message a = 1 \<and> a_key a = HashBytes attached_ext ''hello''"
    using first_attached_accepted [of "''ahello''"]
    by (simp add: add_mail_attachments) (simp add: attached_message_def stored_attachment_def new_attachment_def empty_database_def)
  then obtain a where a: "a \<in> set (db_attachments (db_tables (wd_db (fst (snd (first_attached ''ahello''), pool)))))"
    and k: "a_message a = 1" "a_key a = HashBytes attached_ext ''hello''" by (metis fst_conv)
  show ?thesis using attachment_integrity [OF r attached_sel(5) _ a] k by auto
qed


lemma first_mail_message:
  "\<exists>m. db_messages (db_tables (wd_db (snd (first_mail ''hello'')))) = [m] \<and> m_hash m = HashBytes plain_ext ''hello'' \<and> m_id m = 1"
proof -
  have "db_tables (wd_db (snd (first_mail ''hello''))) = add_mail demo_clock (plain_message ''hello'') ''success'' None (empty_database [])"
    using first_mail_accepted [of "''hello''"] by (simp add: byte_def)
  then show ?thesis
    by (simp add: add_mail_def Let_def empty_database_def empty_tables_def)
      (simp add: plain_message_def zero_parsed_def stored_message_def Let_def)
qed

lemma first_mail_reach: "\<exists>pool. ingest_reach plain_ext ''data'' (new_world [] []) (snd (first_mail raw), pool)"
  using ingest_raw_reach [OF prod.collapse [symmetric]] unfolding first_mail_def by blast


lemma ingest_raw_world_inv:
  assumes "ingest_raw E base clk raw w wd = (res, wd')" and "sha256_ok E" and "world_inv E base wd"
  shows "world_inv E base wd'"
proof -
  obtain pool where "ingest_reach E base wd (wd', pool)" using ingest_raw_reach [OF assms(1)] by blast
  from ingest_reach_inv [OF this assms(2,3)] show ?thesis by simp
qed

lemma ingest_raw_says_duplicate:
  assumes "ingest_raw E base clk raw w wd = (res, wd')" and "rs_body res = Json (status_json ''duplicate'')"
  shows "known_hash E (HashBytes E raw) (db_tables (wd_db wd))"
proof -
  obtain r1 wd1 where d: "isDuplicate E (HashBytes E raw) wd = (r1, wd1)" by fastforce
  have "r1 = Inr True"
  proof (cases r1)
    case (Inl e)
    then show ?thesis using assms d by (auto simp: ingest_raw_def status_json_def json_error_def)
  next
    case (Inr b)
    then show ?thesis
      using assms d by (cases b)
        (auto simp: ingest_raw_def status_json_def json_error_def split: prod.splits sum.splits)
  qed
  then show ?thesis using isDuplicate_Inr [of E "HashBytes E raw" wd True wd1] d by simp
qed

lemma ingest_raw_stored:
  assumes "collate_ok E" and "sha256_ok E" and "world_inv E base wd"
    and "ingest_raw E base clk raw w wd = (res, wd')" and "rs_status res = 200"
  shows "\<exists>m \<in> set (db_messages (db_tables (wd_db wd'))). m_hash m = HashBytes E raw"
proof -
  obtain p st err where pf: "parse_or_fallback E clk raw = (p, st, err)" by (metis prod_cases3)
  have h: "ContentHash p = HashBytes E raw" using parse_or_fallback_facts [OF pf assms(2)] by blast
  show ?thesis
  proof (cases rule: ingest_raw_tables [OF assms(4) pf])
    case 1
    then have "rs_body res = Json (status_json ''duplicate'')" using assms(5) by simp
    from ingest_raw_says_duplicate [OF assms(4) this] show ?thesis using known_hash_iff [OF assms(1-3)] 1(1) by simp
  next
    case 2
    then show ?thesis using h by (simp add: add_mail_def Let_def)
  qed
qed

text \<open>
  Property C11: redelivery is safe. Whatever became of a delivery (any answer, any faults), when a second
  delivery of the same bytes is answered with 200 the message is stored exactly once; and if the first
  had stored it, the second adds nothing and says so.
\<close>

theorem ingest_retry_safe:
  assumes "collate_ok E" and "sha256_ok E" and "world_inv E base wd"
    and "ingest_raw E base clk raw w wd = (res, wd1)" and "ingest_raw E base clk2 raw w2 wd1 = (res2, wd2)"
    and "rs_status res2 = 200"
  shows "length (filter (\<lambda>m. m_hash m = HashBytes E raw) (db_messages (db_tables (wd_db wd2)))) = 1 \<and>
    (db_tables (wd_db wd1) \<noteq> db_tables (wd_db wd) \<longrightarrow>
       db_tables (wd_db wd2) = db_tables (wd_db wd1) \<and> rs_body res2 = Json (status_json ''duplicate''))"
proof (intro conjI impI)
  have inv1: "world_inv E base wd1" by (rule ingest_raw_world_inv [OF assms(4,2,3)])
  have inv2: "world_inv E base wd2" by (rule ingest_raw_world_inv [OF assms(5,2) inv1])
  obtain m where m: "m \<in> set (db_messages (db_tables (wd_db wd2)))" "m_hash m = HashBytes E raw"
    using ingest_raw_stored [OF assms(1,2) inv1 assms(5,6)] by blast
  have "distinct (map m_hash (db_messages (db_tables (wd_db wd2))))"
    using mail_inv_distinct inv2 unfolding world_inv_def by blast
  from filter_unique [OF this m(1)] show "length (filter (\<lambda>m. m_hash m = HashBytes E raw) (db_messages (db_tables (wd_db wd2)))) = 1"
    by (simp add: m(2))
  assume ch: "db_tables (wd_db wd1) \<noteq> db_tables (wd_db wd)"
  obtain p st err where pf: "parse_or_fallback E clk raw = (p, st, err)" by (metis prod_cases3)
  obtain p2 st2 err2 where pf2: "parse_or_fallback E clk2 raw = (p2, st2, err2)" by (metis prod_cases3)
  have h: "ContentHash p = HashBytes E raw" using parse_or_fallback_facts [OF pf assms(2)] by blast
  have k: "known_hash E (HashBytes E raw) (db_tables (wd_db wd1))"
    using ch add_mail_known [of E p clk st err "wd_db wd"] h by (cases rule: ingest_raw_tables [OF assms(4) pf]) simp_all
  show "db_tables (wd_db wd2) = db_tables (wd_db wd1)"
    using k by (cases rule: ingest_raw_tables [OF assms(5) pf2]) simp_all
  show "rs_body res2 = Json (status_json ''duplicate'')"
    using k assms(6) by (cases rule: ingest_raw_tables [OF assms(5) pf2]) auto
qed

theorem ingest_retry_safe_witness:
  "length (filter (\<lambda>m. m_hash m = HashBytes plain_ext ''hello'') (db_messages (db_tables (wd_db (snd
     (ingest_raw plain_ext ''data'' demo_clock ''hello'' fresh_writer (snd (first_mail ''hello'')))))))) = 1"
proof -
  let ?wd = "snd (first_mail ''hello'')"
  have k: "known_hash plain_ext (HashBytes plain_ext ''hello'') (db_tables (wd_db ?wd))" and f: "db_faults (wd_db ?wd) = []"
    using first_mail_accepted [of "''hello''"] add_mail_known [of plain_ext "plain_message ''hello''"]
    by (simp_all add: byte_def plain_message_def)
  note d = ingest_raw_duplicate [OF f k, of "''data''" demo_clock fresh_writer]
  have i: "world_inv plain_ext ''data'' (new_world [] [])" by (simp add: new_world_inv)
  show ?thesis
    using ingest_retry_safe [OF plain_ext_ok(2,1) i first_mail_def [symmetric, THEN trans, OF prod.collapse [symmetric]] d]
    unfolding d by simp
qed

text \<open>
  The duplicate answer is right. The answer \<open>duplicate\<close> is only given when a message with
  the same bytes' hash is stored; when one is, no delivery changes the tables, and one that meets
  no database fault is answered with \<open>duplicate\<close> and leaves disk and database as they are.
\<close>

theorem duplicate_answer_correct:
  assumes "collate_ok E" and "sha256_ok E" and "world_inv E base wd"
    and "ingest_raw E base clk raw w wd = (res, wd')"
  defines "stored \<equiv> (\<exists>m \<in> set (db_messages (db_tables (wd_db wd))). m_hash m = HashBytes E raw)"
  shows "(rs_body res = Json (status_json ''duplicate'') \<longrightarrow> stored) \<and>
    (stored \<longrightarrow> db_tables (wd_db wd') = db_tables (wd_db wd)) \<and>
    (stored \<and> db_faults (wd_db wd) = [] \<longrightarrow> res = writeJSON w 200 (status_json ''duplicate'') \<and> wd' = wd)"
proof (intro conjI impI)
  note k = known_hash_iff [OF assms(1-3), of raw, folded stored_def]
  show stored if "rs_body res = Json (status_json ''duplicate'')"
    using ingest_raw_says_duplicate [OF assms(4) that] k by simp
  show "db_tables (wd_db wd') = db_tables (wd_db wd)" if stored
  proof -
    obtain p st err where pf: "parse_or_fallback E clk raw = (p, st, err)" by (metis prod_cases3)
    show ?thesis using that k by (cases rule: ingest_raw_tables [OF assms(4) pf]) simp_all
  qed
  assume s: "stored \<and> db_faults (wd_db wd) = []"
  then have "ingest_raw E base clk raw w wd = (writeJSON w 200 (status_json ''duplicate''), wd)"
    using k by (intro ingest_raw_duplicate) simp_all
  then show "res = writeJSON w 200 (status_json ''duplicate'')" "wd' = wd" using assms(4) by simp_all
qed

lemma first_mail_world_inv: "world_inv plain_ext ''data'' (snd (first_mail raw))"
  by (rule ingest_raw_world_inv [OF prod.collapse [symmetric, of "first_mail raw", unfolded first_mail_def], folded first_mail_def])
    (simp_all add: plain_ext_ok new_world_inv)

theorem duplicate_answer_correct_witness:
  "ingest_raw plain_ext ''data'' demo_clock ''hello'' fresh_writer (snd (first_mail ''hello'')) =
    (writeJSON fresh_writer 200 (status_json ''duplicate''), snd (first_mail ''hello''))"
proof -
  have "db_faults (wd_db (snd (first_mail ''hello''))) = []" using first_mail_accepted [of "''hello''"] by (simp add: byte_def)
  then show ?thesis
    using duplicate_answer_correct [OF plain_ext_ok(2,1) first_mail_world_inv [of "''hello''"] prod.collapse [symmetric],
        of demo_clock "''hello''" fresh_writer] first_mail_message by (metis list.set_intros(1) prod.collapse)
qed

text \<open>
  Property C12: the gate of the ingest endpoint. A request whose method is not POST, that does not bring
  the configured (non-empty) key, whose body fails to arrive or is longer than the limit, or that meets a
  server without database or storage is answered with 405, 401, 400, 413 or 500 and changes nothing; all
  others are handed, with exactly the bytes of the body, to the storage steps. The limit is taken
  to be below the largest 64-bit integer.
\<close>

theorem ingest_gate:
  assumes "in_int64 (ingest_limit h + 1)"
  shows "(rq_method r = ''POST'' \<and> (\<exists>c. ih_config h = Some c \<and> WorkerIngestPSK c \<noteq> [] \<and>
        rq_header r ingestPSKHeader = WorkerIngestPSK c) \<and> rd_err (rq_body r) = None \<and>
        int (length (rd_bytes (rq_body r))) \<le> ingest_limit h \<and> ih_db h \<and>
        (\<exists>base. ih_storage h = Some base \<and>
           ServeHTTP E h clk r w wd = ingest_raw E base clk (rd_bytes (rq_body r)) w wd)) \<or>
     (snd (ServeHTTP E h clk r w wd) = wd \<and>
        rs_status (fst (ServeHTTP E h clk r w wd)) =
          (if rq_method r \<noteq> ''POST'' then 405 else if \<not> ingest_authorized h r then 401
           else if ingest_limit h < int (length (rd_bytes (rq_body r))) then 413
           else if rd_err (rq_body r) \<noteq> None then 400 else 500))"
proof (cases "rq_method r = ''POST'' \<and> ingest_authorized h r")
  case False
  then show ?thesis by (simp add: ServeHTTP_def)
next
  case True
  then obtain c where c: "ih_config h = Some c" "WorkerIngestPSK c \<noteq> []" "rq_header r ingestPSKHeader = WorkerIngestPSK c"
    by (auto simp: ingest_authorized_def split: option.splits)
  have pos: "0 < ingest_limit h" by (simp add: ingest_limit_def split: option.splits)
  let ?n = "int (length (rd_bytes (rq_body r)))"
  let ?R = "limit_reader (ingest_limit h + 1) (rq_body r)"
  consider (long) "ingest_limit h < ?n" | (bad) e where "?n \<le> ingest_limit h" "rd_err (rq_body r) = Some e"
    | (ok) "?n \<le> ingest_limit h" "rd_err (rq_body r) = None" by fastforce
  then show ?thesis
  proof cases
    case long
    then have "?R = \<lparr>rd_bytes = take (nat (ingest_limit h + 1)) (rd_bytes (rq_body r)), rd_err = None\<rparr>"
      by (simp add: limit_reader_def)
    then have "ServeHTTP E h clk r w wd = (writeJSON w 413 (json_error ''message too large''), wd)"
      using True long pos assms by (simp add: ServeHTTP_def read_all_def)
    then show ?thesis using True long by simp
  next
    case bad
    then have "?R = rq_body r" by (simp add: limit_reader_def)
    then have "ServeHTTP E h clk r w wd = (writeJSON w 400 (json_error ''read request body''), wd)"
      using True bad assms by (simp add: ServeHTTP_def read_all_def)
    then show ?thesis using True bad by simp
  next
    case ok
    then have "?R = rq_body r" by (simp add: limit_reader_def)
    then show ?thesis
      using True ok c assms by (cases "ih_storage h") (simp_all add: ServeHTTP_def read_all_def)
  qed
qed

text \<open>A handler with the key of \<open>demo_config\<close>, and a delivery with a key.\<close>

definition demo_handler :: ingest_handler where
  "demo_handler = \<lparr>ih_db = True, ih_storage = Some ''data'', ih_config = Some (demo_config\<lparr>MaxMessageBytes := 100\<rparr>)\<rparr>"

definition delivery :: "string \<Rightarrow> string \<Rightarrow> request" where
  "delivery key raw = blank_request\<lparr>rq_method := ''POST'', rq_header := (\<lambda>name. if name = ingestPSKHeader then key else []),
     rq_body := \<lparr>rd_bytes = raw, rd_err = None\<rparr>\<rparr>"

lemma demo_handler_sel [simp]: "ih_db demo_handler" "ih_storage demo_handler = Some ''data''"
  "ingest_limit demo_handler = 100" "ingest_authorized demo_handler (delivery key raw) \<longleftrightarrow> key = ''worker-key''"
  "ih_config demo_handler = Some (demo_config\<lparr>MaxMessageBytes := 100\<rparr>)"
  "rq_method (delivery key raw) = ''POST''" "rq_body (delivery key raw) = \<lparr>rd_bytes = raw, rd_err = None\<rparr>"
  by (simp_all add: demo_handler_def ingest_limit_def ingest_authorized_def delivery_def demo_config_def zero_config_def)

theorem ingest_gate_witness:
  "rs_status (fst (ServeHTTP plain_ext demo_handler demo_clock (delivery ''guess'' ''hello'') fresh_writer (new_world [] []))) = 401 \<and>
   snd (ServeHTTP plain_ext demo_handler demo_clock (delivery ''guess'' ''hello'') fresh_writer (new_world [] [])) = new_world [] []"
  using ingest_gate [of demo_handler "delivery ''guess'' ''hello''" plain_ext demo_clock fresh_writer "new_world [] []"]
  by (simp add: in_int64_iff) (simp add: delivery_def demo_config_def zero_config_def)

text \<open>
  Property C13: a message is not turned away without reason. On a disk and a database that work, a delivery
  with the key whose bytes fit the limit and are new, and whose rows fit their columns and repeat no
  stored attachment, is answered with 200 and its id; afterwards the tables have exactly its rows in
  addition and the raw file is there.
\<close>

theorem ingest_accepts_wellformed:
  assumes "ih_db h" and "ih_storage h = Some base" and "storage_ready base (wd_fs wd)" and "db_faults (wd_db wd) = []"
    and "world_inv E base wd" and "sha256_ok E" and "in_int64 (ingest_limit h + 1)"
    and "rq_method r = ''POST''" and "ingest_authorized h r" and "rd_err (rq_body r) = None"
    and "int (length (rd_bytes (rq_body r))) \<le> ingest_limit h"
    and "parse_or_fallback E clk (rd_bytes (rq_body r)) = (p, st, err)" and "mail_fits E clk p st err (wd_db wd)"
    and "\<not> known_hash E (HashBytes E (rd_bytes (rq_body r))) (db_tables (wd_db wd))"
  shows "case ServeHTTP E h clk r w wd of (res, wd') \<Rightarrow>
    res = writeJSON w 200 (JObj [(''message_id'', JInt (db_next_message (wd_db wd))), (''status'', JStr ''accepted'')]) \<and>
    db_tables (wd_db wd') = add_mail clk p st err (wd_db wd) \<and>
    raw_blob base (HashBytes E (rd_bytes (rq_body r))) (wd_fs wd') \<noteq> None"
proof -
  have "limit_reader (ingest_limit h + 1) (rq_body r) = rq_body r" using assms(11) by (simp add: limit_reader_def)
  then have "ServeHTTP E h clk r w wd = ingest_raw E base clk (rd_bytes (rq_body r)) w wd"
    using assms(1,2,7-11) by (simp add: ServeHTTP_def read_all_def)
  then show ?thesis using ingest_raw_accepts [OF assms(3-6,12-14), of w] by auto
qed

theorem ingest_accepts_wellformed_witness:
  "rs_status (fst (ServeHTTP plain_ext demo_handler demo_clock (delivery ''worker-key'' ''hello'') fresh_writer (new_world [] []))) = 200"
proof -
  let ?r = "delivery ''worker-key'' ''hello''"
  have a: "\<forall>c \<in> set ''hello''. byte c < 128" by (simp add: byte_def)
  have nk: "\<not> known_hash plain_ext (HashBytes plain_ext (rd_bytes (rq_body ?r))) (db_tables (wd_db (new_world [] [])))"
    by (simp add: known_hash_def empty_tables_def)
  have pf: "parse_or_fallback plain_ext demo_clock (rd_bytes (rq_body ?r)) = (plain_message ''hello'', ''success'', None)"
    using plain_parse_or_fallback valid_utf8_ascii [OF a] by simp
  have fits: "mail_fits plain_ext demo_clock (plain_message ''hello'') ''success'' None (wd_db (new_world [] []))"
    using plain_fits [OF a, of "empty_database []"] by (simp add: empty_database_def empty_tables_def int64_max_def)
  show ?thesis
    using ingest_accepts_wellformed [OF demo_handler_sel(1,2) _ _ new_world_inv plain_ext_ok(1) _ _ _ _ _ pf fits nk, of fresh_writer]
    by (simp add: empty_fs_ok in_int64_iff case_prod_beta)
qed

text \<open>
  Property C28: an attachment is accepted once. The storage key of an attachment is the hash of its bytes
  and the index on it is unique over all messages, so a new message with an attachment that a stored
  message already has is never stored: whatever the faults, every delivery of it is answered with 500 and
  leaves the tables as they are.
\<close>

theorem repeated_attachment_refused:
  assumes "sha256_ok E" and "world_inv E base wd" and "ingest_raw E base clk raw w wd = (res, wd')"
    and "parse_or_fallback E clk raw = (p, st, err)" and "a \<in> set (Attachments p)"
    and "b \<in> set (db_attachments (db_tables (wd_db wd)))" and "a_key b = AttachmentHash a"
    and "\<not> known_hash E (HashBytes E raw) (db_tables (wd_db wd))"
  shows "rs_status res = 500 \<and> db_tables (wd_db wd') = db_tables (wd_db wd)"
proof (rule ingest_raw_tables [OF assms(3,4)])
  assume same: "db_tables (wd_db wd') = db_tables (wd_db wd)" "rs_status res = 500 \<or> rs_body res = Json (status_json ''duplicate'')"
  then show ?thesis using ingest_raw_says_duplicate [OF assms(3)] assms(8) by blast
next
  assume added: "db_tables (wd_db wd') = add_mail clk p st err (wd_db wd)"
  let ?bs = "db_attachments (db_tables (wd_db wd))"
  let ?new = "map (stored_attachment (db_next_message (wd_db wd)) (db_next_attachment (wd_db wd))) (enumerate 0 (Attachments p))"
  have "db_inv E (wd_db wd')" using world_invD(3) [OF ingest_raw_world_inv [OF assms(3,1,2)]] .
  then have "distinct (map (\<lambda>a. x_collate E (a_key a)) (?bs @ ?new))"
    unfolding db_inv_def Let_def added add_mail_def by simp
  then have dis: "(\<lambda>a. x_collate E (a_key a)) ` set ?bs \<inter> (\<lambda>a. x_collate E (a_key a)) ` set ?new = {}"
    by (simp only: map_append distinct_append set_map)
  obtain i where "i < length (Attachments p)" "Attachments p ! i = a" using assms(5) by (metis in_set_conv_nth)
  then have "(i, a) \<in> set (enumerate 0 (Attachments p))" by (auto simp: in_set_enumerate_eq)
  then have "stored_attachment (db_next_message (wd_db wd)) (db_next_attachment (wd_db wd)) (i, a) \<in> set ?new" by (simp only: set_map) (rule imageI)
  moreover have "a_key (stored_attachment (db_next_message (wd_db wd)) (db_next_attachment (wd_db wd)) (i, a)) = a_key b"
    using assms(7) by (simp add: stored_attachment_def new_attachment_def)
  ultimately have False using dis assms(6) by (metis (no_types, lifting) disjoint_iff imageI)
  then show ?thesis ..
qed

theorem repeated_attachment_refused_witness:
  "rs_status (fst (ingest_raw attached_ext ''data'' demo_clock ''bhello'' fresh_writer (snd (first_attached ''ahello'')))) = 500"
proof -
  let ?wd = "snd (first_attached ''ahello'')"
  have t: "db_tables (wd_db ?wd) = add_mail demo_clock (attached_message ''ahello'') ''success'' None (empty_database [])"
    using first_attached_accepted [of "''ahello''"] by simp
  have inv: "world_inv attached_ext ''data'' ?wd"
    unfolding first_attached_def
    by (rule ingest_raw_world_inv [OF prod.collapse [symmetric]]) (simp_all add: attached_sel new_world_inv)
  have b: "stored_attachment 1 1 (0, hd (Attachments (attached_message ''ahello''))) \<in> set (db_attachments (db_tables (wd_db ?wd)))"
    unfolding t add_mail_attachments by (simp add: attached_message_def empty_database_def)
  have nk: "\<not> known_hash attached_ext (HashBytes attached_ext ''bhello'') (db_tables (wd_db ?wd))"
  proof -
    have "HashBytes attached_ext ''ahello'' \<noteq> HashBytes attached_ext ''bhello''"
      by (auto simp: HashBytes_def attached_ext_def plain_ext_def dest: hex_encode_inj)
    then show ?thesis
      unfolding t by (simp add: known_hash_def add_mail_def Let_def empty_tables_def empty_database_def new_event_def same_text_def
          attached_sel attached_message_def)
  qed
  have a: "hd (Attachments (attached_message ''bhello'')) \<in> set (Attachments (attached_message ''bhello''))"
    by (simp add: attached_message_def)
  have k: "a_key (stored_attachment 1 1 (0, hd (Attachments (attached_message ''ahello'')))) =
      AttachmentHash (hd (Attachments (attached_message ''bhello'')))"
    by (simp add: attached_message_def stored_attachment_def new_attachment_def)
  show ?thesis
    using repeated_attachment_refused [OF attached_sel(5) inv prod.collapse [symmetric] attached_parse_or_fallback a b k nk] by blast
qed

end
