(* ===== verification/Messages_API.thy ===== *)
theory Messages_API
  imports Ingest "HOL-Library.Multiset"
begin

text \<open>
  \<open>internal/api/messages.go\<close>, \<open>internal/api/attachments.go\<close> and \<open>internal/api/errors.go\<close>: the handlers
  that list and read messages, raw messages and attachments. Each SQL text of the source is the
  function of the tables it denotes; the session decides which rows it lets through.
\<close>

section \<open>Queries\<close>

text \<open>
  What MariaDB decides and the source does not: the order of rows with the same \<open>received_at\<close>, which
  may depend on the \<open>LIMIT\<close> and \<open>OFFSET\<close> of the query, and full-text search over sender, subject and
  text body, which refuses some search strings.
\<close>

record engine =
  q_order :: "int \<Rightarrow> int \<Rightarrow> message_row list \<Rightarrow> message_row list"
  q_syntax :: "string \<Rightarrow> bool"
  q_match :: "string \<Rightarrow> string \<times> string option \<times> string option \<Rightarrow> bool"

definition query_row :: "(tables \<Rightarrow> 'a list) \<Rightarrow> database \<Rightarrow> 'a db_result" where
  "query_row q = exec_stmt (\<lambda>db. (case q (db_tables db) of [] \<Rightarrow> Inl ErrNoRows | x # _ \<Rightarrow> Inr x, db))"

definition query_rows :: "(tables \<Rightarrow> 'a list) \<Rightarrow> database \<Rightarrow> 'a list db_result" where
  "query_rows q = exec_stmt (\<lambda>db. (Inr (q (db_tables db)), db))"

text \<open>\<open>EXISTS (SELECT 1 FROM message_recipients mr WHERE mr.message_id = m.id AND mr.recipient_email = ?)\<close>\<close>

definition recipient_exists :: "ext \<Rightarrow> tables \<Rightarrow> int \<Rightarrow> string \<Rightarrow> bool" where
  "recipient_exists E t messageID email =
     list_ex (\<lambda>r. r_message r = messageID \<and> same_text E (r_email r) email) (db_recipients t)"

definition rawMessageAuthQuery :: "ext \<Rightarrow> session \<Rightarrow> int \<Rightarrow> tables \<Rightarrow> string list" where
  "rawMessageAuthQuery E session messageID t =
     (if s_admin session then map m_hash (filter (\<lambda>m. m_id m = messageID) (db_messages t))
      else map m_hash (filter (\<lambda>m. m_id m = messageID \<and> recipient_exists E t (m_id m) (s_email session)) (db_messages t)))"

definition messageAuthQuery :: "ext \<Rightarrow> session \<Rightarrow> int \<Rightarrow> tables \<Rightarrow> message_row list" where
  "messageAuthQuery E session messageID t =
     (if s_admin session then filter (\<lambda>m. m_id m = messageID) (db_messages t)
      else filter (\<lambda>m. m_id m = messageID \<and> recipient_exists E t (m_id m) (s_email session)) (db_messages t))"

definition attachmentAuthQuery :: "ext \<Rightarrow> session \<Rightarrow> int \<Rightarrow> int \<Rightarrow> tables \<Rightarrow> attachment_row list" where
  "attachmentAuthQuery E session messageID idx t =
     take 1 (drop (nat idx) (sort_key a_id (filter (\<lambda>a. a_message a = messageID \<and> message_exists (a_message a) t \<and>
       (s_admin session \<or> recipient_exists E t (a_message a) (s_email session))) (db_attachments t))))"

definition isSearchQueryUsable :: "string \<Rightarrow> bool" where
  "isSearchQueryUsable q =
     (let trimmed = trim_space q
      in trimmed \<noteq> [] \<and>
         list_ex (\<lambda>r. 97 \<le> r \<and> r \<le> 122 \<or> 65 \<le> r \<and> r \<le> 90 \<or> 48 \<le> r \<and> r \<le> 57) (decode_runes trimmed))"

definition listWhere :: "ext \<Rightarrow> engine \<Rightarrow> session \<Rightarrow> string \<Rightarrow> tables \<Rightarrow> message_row \<Rightarrow> bool" where
  "listWhere E Q session q t m \<longleftrightarrow>
     (\<not> s_admin session \<longrightarrow> recipient_exists E t (m_id m) (s_email session)) \<and>
     (isSearchQueryUsable q \<longrightarrow> q_match Q q (m_sender m, m_subject m, m_text m))"

text \<open>A search string the server refuses is an error of the statement.\<close>

definition list_stmt :: "engine \<Rightarrow> string \<Rightarrow> (tables \<Rightarrow> 'a) \<Rightarrow> database \<Rightarrow> 'a db_result" where
  "list_stmt Q q f = exec_stmt (\<lambda>db.
     if isSearchQueryUsable q \<and> \<not> q_syntax Q q then (Inl ErrStatement, db) else (Inr (f (db_tables db)), db))"

section \<open>Parameters\<close>

text \<open>\<open>None\<close> where the source answers with \<open>http.NotFound\<close>.\<close>

definition numericURLParam :: "request \<Rightarrow> string \<Rightarrow> int option" where
  "numericURLParam r name =
     (let value = rq_param r name
      in if value = [] then None
         else (case parse_int64 value of
             None \<Rightarrow> None
           | Some parsed \<Rightarrow> if parsed \<le> 0 \<or> format_int parsed \<noteq> value then None else Some parsed))"

definition numericURLParamAllowZero :: "request \<Rightarrow> string \<Rightarrow> int option" where
  "numericURLParamAllowZero r name =
     (let value = rq_param r name
      in if value = [] then None
         else (case parse_int64 value of
             None \<Rightarrow> None
           | Some parsed \<Rightarrow> if parsed < 0 \<or> format_int parsed \<noteq> value then None else Some parsed))"

definition parsePositiveInt :: "string \<Rightarrow> int \<Rightarrow> int" where
  "parsePositiveInt value fallback =
     (case parse_int64 value of None \<Rightarrow> fallback | Some parsed \<Rightarrow> if parsed \<le> 0 then fallback else parsed)"

definition sanitize_rune :: "rune \<Rightarrow> rune option" where
  "sanitize_rune r = (if r \<in> {34, 39, 13, 10, 47, 92} then None else Some r)"

definition sanitizeFilename :: "string \<Rightarrow> string" where
  "sanitizeFilename filename = trim_space (map_runes sanitize_rune filename)"

section \<open>Responses\<close>

definition coalesce :: "string option \<Rightarrow> string" where
  "coalesce s = (case s of None \<Rightarrow> [] | Some x \<Rightarrow> x)"

definition omitempty_str :: "string \<Rightarrow> string \<Rightarrow> (string \<times> json) list" where
  "omitempty_str name v = (if v = [] then [] else [(name, JStr v)])"

definition omitempty_arr :: "string \<Rightarrow> json list \<Rightarrow> (string \<times> json) list" where
  "omitempty_arr name v = (if v = [] then [] else [(name, JArr v)])"

definition recipientDTO :: "recipient_row \<Rightarrow> json" where
  "recipientDTO r = JObj [(''email'', JStr (r_email r)), (''type'', JStr (r_type r))]"

definition attachmentDTO :: "attachment_row \<Rightarrow> json" where
  "attachmentDTO a =
     JObj [(''id'', JInt (a_id a)), (''original_filename'', JStr (coalesce (a_filename a))),
           (''mime_type'', JStr (a_mime a)), (''size_bytes'', JInt (a_size a))]"

text \<open>The list leaves \<open>ParserStatus\<close> at its zero value, so the status is an argument.\<close>

definition messageDTO :: "message_row \<Rightarrow> string \<Rightarrow> recipient_row list \<Rightarrow> attachment_row list \<Rightarrow> json" where
  "messageDTO m parserStatus rs as =
     JObj ([(''id'', JInt (m_id m)), (''sender'', JStr (m_sender m)), (''subject'', JStr (coalesce (m_subject m))),
            (''message_date'', JTime (m_date m)), (''received_at'', JTime (m_received m))] @
           omitempty_str ''text_body'' (coalesce (m_text m)) @ omitempty_str ''html_body'' (coalesce (m_html m)) @
           [(''parser_status'', JStr parserStatus)] @
           omitempty_arr ''recipients'' (map recipientDTO rs) @ omitempty_arr ''attachments'' (map attachmentDTO as))"

text \<open>A 200 response with raw bytes.\<close>

definition write_bytes :: "writer \<Rightarrow> string \<Rightarrow> response" where
  "write_bytes w data = \<lparr>rs_status = 200, rs_writer = w, rs_body = Bytes data\<rparr>"

text \<open>\<open>api.WriteError\<close> and \<open>api.RequestIDFromContext\<close>, with the context value under the key of this package.\<close>

definition WriteError :: "writer \<Rightarrow> int \<Rightarrow> string \<Rightarrow> string \<Rightarrow> response" where
  "WriteError w status message requestID =
     \<lparr>rs_status = status, rs_writer = set_header ''Content-Type'' ''application/json'' w,
      rs_body = Json (JObj ((''error'', JStr message) # omitempty_str ''request_id'' requestID))\<rparr>"

definition RequestIDFromContext :: "string option \<Rightarrow> string" where
  "RequestIDFromContext v = (case v of None \<Rightarrow> [] | Some s \<Rightarrow> s)"

section \<open>Handlers\<close>

definition api_recipients :: "int \<Rightarrow> database \<Rightarrow> recipient_row list db_result" where
  "api_recipients messageID =
     query_rows (\<lambda>t. sort_key r_id (filter (\<lambda>r. r_message r = messageID) (db_recipients t)))"

definition api_attachments :: "int \<Rightarrow> database \<Rightarrow> attachment_row list db_result" where
  "api_attachments messageID =
     query_rows (\<lambda>t. sort_key a_id (filter (\<lambda>a. a_message a = messageID) (db_attachments t)))"

definition getMessage :: "ext \<Rightarrow> int \<Rightarrow> session \<Rightarrow> database \<Rightarrow> json db_result" where
  "getMessage E messageID session db =
     andthen (query_row (messageAuthQuery E session messageID) db) (\<lambda>m db1.
     andthen (api_recipients messageID db1) (\<lambda>rs db2.
     andthen (api_attachments messageID db2) (\<lambda>as db3.
     (Inr (messageDTO m (m_status m) rs as), db3))))"

definition GetMessage :: "ext \<Rightarrow> world authed_handler" where
  "GetMessage E session r w wd =
     (case numericURLParam r ''id'' of
        None \<Rightarrow> (http_not_found w, wd)
      | Some messageID \<Rightarrow>
          (case session of
             None \<Rightarrow> (http_not_found w, wd)
           | Some s \<Rightarrow>
               (case getMessage E messageID s (wd_db wd) of
                  (Inl e, db1) \<Rightarrow>
                    (if e = ErrNoRows then http_not_found w else http_internal_error w, wd\<lparr>wd_db := db1\<rparr>)
                | (Inr msg, db1) \<Rightarrow> (writeJSON w 200 msg, wd\<lparr>wd_db := db1\<rparr>))))"

definition GetRawMIME :: "ext \<Rightarrow> string \<Rightarrow> world authed_handler" where
  "GetRawMIME E base session r w wd =
     (case numericURLParam r ''id'' of
        None \<Rightarrow> (http_not_found w, wd)
      | Some messageID \<Rightarrow>
          (case session of
             None \<Rightarrow> (http_not_found w, wd)
           | Some s \<Rightarrow>
               (case query_row (rawMessageAuthQuery E s messageID) (wd_db wd) of
                  (Inl e, db1) \<Rightarrow>
                    (if e = ErrNoRows then http_not_found w else http_internal_error w, wd\<lparr>wd_db := db1\<rparr>)
                | (Inr contentHash, db1) \<Rightarrow>
                    (case ReadRawMIME base contentHash (wd_fs wd) of
                       (Inl e, fs1) \<Rightarrow> (http_not_found w, wd\<lparr>wd_fs := fs1, wd_db := db1\<rparr>)
                     | (Inr data, fs1) \<Rightarrow>
                         (write_bytes
                            (set_header ''Content-Length'' (format_int (int (length data)))
                              (set_header ''Content-Disposition''
                                 (''attachment; filename='' @ [CHR 0x22] @ ''message-'' @ format_int messageID @ ''.eml'' @ [CHR 0x22])
                                (set_header ''Content-Type'' ''message/rfc822'' w))) data,
                          wd\<lparr>wd_fs := fs1, wd_db := db1\<rparr>)))))"

definition attachment_filename :: "string \<Rightarrow> string" where
  "attachment_filename originalFilename =
     (let filename = sanitizeFilename originalFilename in if filename = [] then ''attachment'' else filename)"

definition GetAttachment :: "ext \<Rightarrow> string \<Rightarrow> world authed_handler" where
  "GetAttachment E base session r w wd =
     (case numericURLParam r ''id'' of
        None \<Rightarrow> (http_not_found w, wd)
      | Some messageID \<Rightarrow>
     (case numericURLParamAllowZero r ''idx'' of
        None \<Rightarrow> (http_not_found w, wd)
      | Some idx \<Rightarrow>
     (case session of
        None \<Rightarrow> (http_not_found w, wd)
      | Some s \<Rightarrow>
          (case query_row (attachmentAuthQuery E s messageID idx) (wd_db wd) of
             (Inl e, db1) \<Rightarrow>
               (if e = ErrNoRows then http_not_found w else http_internal_error w, wd\<lparr>wd_db := db1\<rparr>)
           | (Inr a, db1) \<Rightarrow>
               (case ReadAttachment base messageID (a_key a) (wd_fs wd) of
                  (Inl e, fs1) \<Rightarrow> (http_not_found w, wd\<lparr>wd_fs := fs1, wd_db := db1\<rparr>)
                | (Inr data, fs1) \<Rightarrow>
                    (write_bytes
                       (set_header ''Content-Length'' (format_int (a_size a))
                         (set_header ''Content-Disposition''
                            (''attachment; filename='' @ [CHR 0x22] @ attachment_filename (coalesce (a_filename a)) @ [CHR 0x22])
                           (set_header ''Content-Type'' (a_mime a) w))) data,
                     wd\<lparr>wd_fs := fs1, wd_db := db1\<rparr>))))))"

text \<open>The rows of one page; a negative \<open>OFFSET\<close> is refused.\<close>

definition page_rows :: "ext \<Rightarrow> engine \<Rightarrow> session \<Rightarrow> string \<Rightarrow> int \<Rightarrow> int \<Rightarrow> tables \<Rightarrow> message_row list" where
  "page_rows E Q session q perPage offset t =
     take (nat perPage) (drop (nat offset) (q_order Q perPage offset (filter (listWhere E Q session q t) (db_messages t))))"

definition select_page :: "ext \<Rightarrow> engine \<Rightarrow> session \<Rightarrow> string \<Rightarrow> int \<Rightarrow> int \<Rightarrow> database \<Rightarrow> message_row list db_result" where
  "select_page E Q session q perPage offset db =
     (if offset < 0 then exec_stmt (\<lambda>db. (Inl ErrStatement, db)) db
      else list_stmt Q q (page_rows E Q session q perPage offset) db)"

definition list_page :: "request \<Rightarrow> int" where
  "list_page r = parsePositiveInt (rq_query r ''page'') 1"

definition list_per_page :: "request \<Rightarrow> int" where
  "list_per_page r =
     (let perPage = parsePositiveInt (rq_query r ''per_page'') 50 in if perPage > 100 then 100 else perPage)"

definition ListMessages :: "ext \<Rightarrow> engine \<Rightarrow> world authed_handler" where
  "ListMessages E Q session r w wd =
     (case session of
        None \<Rightarrow> (http_not_found w, wd)
      | Some s \<Rightarrow>
          let page = list_page r; perPage = list_per_page r;
              offset = wrap64 (wrap64 (page - 1) * perPage);
              q = trim_space (rq_query r ''q'')
          in (case list_stmt Q q (\<lambda>t. length (filter (listWhere E Q s q t) (db_messages t))) (wd_db wd) of
                (Inl e, db1) \<Rightarrow> (http_internal_error w, wd\<lparr>wd_db := db1\<rparr>)
              | (Inr n, db1) \<Rightarrow>
                  (case select_page E Q s q perPage offset db1 of
                     (Inl e, db2) \<Rightarrow> (http_internal_error w, wd\<lparr>wd_db := db2\<rparr>)
                   | (Inr rows, db2) \<Rightarrow>
                       (writeJSON w 200
                          (JObj [(''messages'', JArr (map (\<lambda>m. messageDTO m [] [] []) rows)),
                                 (''page'', JInt page), (''per_page'', JInt perPage), (''total'', JInt (int n))]),
                        wd\<lparr>wd_db := db2\<rparr>))))"

section \<open>Parameters and file names\<close>

text \<open>A canonical decimal is what \<open>strconv.FormatInt\<close> prints.\<close>

lemma canonical_int: "parse_int64 v = Some i \<and> format_int i = v \<longleftrightarrow> in_int64 i \<and> v = format_int i"
  by (metis parse_format_int parse_int64_range)

lemma numericURLParam_iff:
  "numericURLParam r name = Some i \<longleftrightarrow> 0 < i \<and> in_int64 i \<and> rq_param r name = format_int i"
proof -
  have "numericURLParam r name = Some i \<longleftrightarrow>
      (parse_int64 (rq_param r name) = Some i \<and> format_int i = rq_param r name) \<and> 0 < i"
    unfolding numericURLParam_def Let_def
    by (cases "parse_int64 (rq_param r name)"; cases "rq_param r name = []") (auto split: if_splits)
  then show ?thesis unfolding canonical_int by blast
qed

lemma numericURLParamAllowZero_iff:
  "numericURLParamAllowZero r name = Some i \<longleftrightarrow> 0 \<le> i \<and> in_int64 i \<and> rq_param r name = format_int i"
proof -
  have "numericURLParamAllowZero r name = Some i \<longleftrightarrow>
      (parse_int64 (rq_param r name) = Some i \<and> format_int i = rq_param r name) \<and> 0 \<le> i"
    unfolding numericURLParamAllowZero_def Let_def
    by (cases "parse_int64 (rq_param r name)"; cases "rq_param r name = []") (auto split: if_splits)
  then show ?thesis unfolding canonical_int by blast
qed

lemma list_page_bounds: "0 < list_page r" "in_int64 (list_page r)" "0 < list_per_page r" "list_per_page r \<le> 100"
  by (auto simp: list_page_def list_per_page_def parsePositiveInt_def Let_def in_int64_iff
      dest: parse_int64_range split: option.splits)

lemma set_map_filter: "y \<in> set (List.map_filter f xs) \<longleftrightarrow> (\<exists>x \<in> set xs. f x = Some y)"
  by (induction xs) (auto simp: List.map_filter_def)

lemma sanitized_runes:
  assumes "r \<in> set (decode_runes (sanitizeFilename s))"
  shows "r \<notin> {34, 39, 13, 10, 47, 92} \<and> valid_rune r"
proof -
  let ?rs = "List.map_filter sanitize_rune (decode_runes s)"
  have ok: "\<forall>r \<in> set ?rs. r \<notin> {34, 39, 13, 10, 47, 92} \<and> valid_rune r"
    using decode_runes_valid by (auto simp: set_map_filter sanitize_rune_def split: if_splits)
  have "sanitizeFilename s = encode_runes (trim_runes ?rs)"
    using ok by (simp add: sanitizeFilename_def map_runes_def trim_space_encode)
  moreover have "\<forall>r \<in> set (trim_runes ?rs). valid_rune r" using ok set_trim_runes by blast
  ultimately have "r \<in> set (trim_runes ?rs)" using assms by (simp add: decode_runes_encode_runes)
  then show ?thesis using ok set_trim_runes by blast
qed

lemma sanitizeFilename_valid: "valid_utf8 (sanitizeFilename s)"
proof -
  have "\<forall>r \<in> set (List.map_filter sanitize_rune (decode_runes s)). valid_rune r"
    using decode_runes_valid by (auto simp: set_map_filter sanitize_rune_def split: if_splits)
  then show ?thesis by (simp add: sanitizeFilename_def map_runes_def valid_trim_space)
qed

text \<open>A byte below 128 of valid text is the code point it looks like.\<close>

lemma encode_rune_low: "c \<in> set (encode_rune r) \<Longrightarrow> byte c < 128 \<Longrightarrow> valid_rune r \<Longrightarrow> r = byte c"
  by (auto simp: encode_rune_def valid_rune_def split: if_splits)

lemma valid_utf8_low_byte:
  assumes "valid_utf8 s" and "c \<in> set s" and "byte c < 128"
  shows "byte c \<in> set (decode_runes s)"
proof -
  obtain rs where v: "\<forall>r \<in> set rs. valid_rune r" and s: "s = encode_runes rs"
    using assms(1) valid_utf8_iff by blast
  then obtain r where "r \<in> set rs" "c \<in> set (encode_rune r)" using assms(2) by (auto simp: encode_runes_def)
  then show ?thesis using encode_rune_low assms(3) v s by (metis decode_runes_encode_runes)
qed

lemma sanitized_bytes: "c \<in> set (sanitizeFilename s) \<Longrightarrow> byte c \<notin> {34, 39, 13, 10, 47, 92}"
  using valid_utf8_low_byte [OF sanitizeFilename_valid] sanitized_runes by fastforce

section \<open>Reading changes nothing\<close>

definition same_data :: "world \<Rightarrow> world \<Rightarrow> bool" where
  "same_data wd wd' \<longleftrightarrow> db_tables (wd_db wd') = db_tables (wd_db wd) \<and> fs_files (wd_fs wd') = fs_files (wd_fs wd)"

lemma exec_read_keeps:
  assumes "exec_stmt f db = (r, db')" and "\<And>d. db_tables (snd (f d)) = db_tables d"
  shows "db_tables db' = db_tables db"
proof -
  have "db_tables (snd (exec_stmt f db)) = db_tables db"
    by (rule exec_stmt_keeps [where P = "\<lambda>d. db_tables d = db_tables db"]) (simp_all add: assms(2))
  then show ?thesis using assms(1) by simp
qed

lemma query_row_keeps: "query_row q db = (r, db') \<Longrightarrow> db_tables db' = db_tables db"
  unfolding query_row_def by (erule exec_read_keeps) simp

lemma query_rows_keeps: "query_rows q db = (r, db') \<Longrightarrow> db_tables db' = db_tables db"
  unfolding query_rows_def by (erule exec_read_keeps) simp

lemma list_stmt_keeps: "list_stmt Q q f db = (r, db') \<Longrightarrow> db_tables db' = db_tables db"
  unfolding list_stmt_def by (erule exec_read_keeps) simp

lemma select_page_keeps: "select_page E Q s q n off db = (r, db') \<Longrightarrow> db_tables db' = db_tables db"
  by (auto simp: select_page_def dest: list_stmt_keeps exec_read_keeps split: if_splits)

lemma query_row_Inr: "query_row q db = (Inr x, db') \<Longrightarrow> \<exists>xs. q (db_tables db) = x # xs"
  unfolding query_row_def by (drule exec_stmt_InrD) (auto split: list.splits)

lemma query_rows_Inr: "query_rows q db = (Inr xs, db') \<Longrightarrow> xs = q (db_tables db)"
  unfolding query_rows_def by (drule exec_stmt_InrD) simp

lemma list_stmt_Inr: "list_stmt Q q f db = (Inr x, db') \<Longrightarrow> x = f (db_tables db) \<and> (isSearchQueryUsable q \<longrightarrow> q_syntax Q q)"
  unfolding list_stmt_def by (drule exec_stmt_InrD) (auto split: if_splits)

lemma getMessage_keeps: "getMessage E i s db = (r, db') \<Longrightarrow> db_tables db' = db_tables db"
  by (auto simp: getMessage_def andthen_def api_recipients_def api_attachments_def
      split: prod.splits sum.splits dest!: query_row_keeps query_rows_keeps)

lemma getMessage_Inr:
  assumes "getMessage E i s db = (Inr j, db')"
  obtains m ms where "messageAuthQuery E s i (db_tables db) = m # ms"
    and "j = messageDTO m (m_status m) (sort_key r_id (filter (\<lambda>r. r_message r = i) (db_recipients (db_tables db))))
      (sort_key a_id (filter (\<lambda>a. a_message a = i) (db_attachments (db_tables db))))"
proof -
  from assms obtain m db1 rs db2 as db3 where q: "query_row (messageAuthQuery E s i) db = (Inr m, db1)"
    and r: "api_recipients i db1 = (Inr rs, db2)" and a: "api_attachments i db2 = (Inr as, db3)"
    and j: "j = messageDTO m (m_status m) rs as"
    by (auto simp: getMessage_def andthen_Inr_iff)
  have t: "db_tables db1 = db_tables db" "db_tables db2 = db_tables db1"
    using query_row_keeps [OF q] query_rows_keeps r unfolding api_recipients_def by blast+
  obtain ms where "messageAuthQuery E s i (db_tables db) = m # ms" using query_row_Inr [OF q] by blast
  then show ?thesis
    using that [of m ms] j query_rows_Inr [OF r [unfolded api_recipients_def]]
      query_rows_Inr [OF a [unfolded api_attachments_def]] t by (simp only:)
qed

section \<open>Access control\<close>

text \<open>The session sees the message: an administrator sees all, a user those with him as a recipient.\<close>

definition may_read :: "ext \<Rightarrow> tables \<Rightarrow> session \<Rightarrow> int \<Rightarrow> bool" where
  "may_read E t s i \<longleftrightarrow> s_admin s \<or> recipient_exists E t i (s_email s)"

lemma auth_query_members:
  "m \<in> set (messageAuthQuery E s i t) \<longleftrightarrow> m \<in> set (db_messages t) \<and> m_id m = i \<and> may_read E t s i"
  "rawMessageAuthQuery E s i t = map m_hash (messageAuthQuery E s i t)"
  by (auto simp: messageAuthQuery_def rawMessageAuthQuery_def may_read_def)

lemma attachment_query_members:
  assumes "attachmentAuthQuery E s i idx t = a # as"
  shows "a \<in> set (db_attachments t) \<and> a_message a = i \<and> may_read E t s i"
proof -
  have "a \<in> set (attachmentAuthQuery E s i idx t)" using assms by simp
  then have "a \<in> set (filter (\<lambda>a. a_message a = i \<and> message_exists (a_message a) t \<and>
       (s_admin s \<or> recipient_exists E t (a_message a) (s_email s))) (db_attachments t))"
    unfolding attachmentAuthQuery_def by (drule_tac in_set_takeD) (drule in_set_dropD, simp only: set_sort)
  then show ?thesis by (auto simp: may_read_def)
qed

lemma GetMessage_200:
  assumes "GetMessage E session r w wd = (res, wd')" and "rs_status res = 200"
  obtains i s m ms where "numericURLParam r ''id'' = Some i" "session = Some s"
    and "messageAuthQuery E s i (db_tables (wd_db wd)) = m # ms"
    and "rs_body res = Json (messageDTO m (m_status m)
      (sort_key r_id (filter (\<lambda>r. r_message r = i) (db_recipients (db_tables (wd_db wd)))))
      (sort_key a_id (filter (\<lambda>a. a_message a = i) (db_attachments (db_tables (wd_db wd))))))"
proof -
  obtain i s where i: "numericURLParam r ''id'' = Some i" "session = Some s"
    using assms by (auto simp: GetMessage_def split: option.splits)
  obtain x db1 where g: "getMessage E i s (wd_db wd) = (x, db1)" by fastforce
  with assms i obtain j where j: "x = Inr j" "rs_body res = Json j"
    by (cases x) (auto simp: GetMessage_def split: if_splits)
  show ?thesis
    by (rule getMessage_Inr [OF g [unfolded j(1)]]) (use i j that in auto)
qed

lemma GetRawMIME_200:
  assumes "GetRawMIME E base session r w wd = (res, wd')" and "rs_status res = 200"
  obtains i s h hs data where "numericURLParam r ''id'' = Some i" "session = Some s"
    and "rawMessageAuthQuery E s i (db_tables (wd_db wd)) = h # hs"
    and "raw_blob base h (wd_fs wd) = Some data" and "rs_body res = Bytes data"
proof -
  obtain i s where i: "numericURLParam r ''id'' = Some i" "session = Some s"
    using assms by (auto simp: GetRawMIME_def split: option.splits)
  obtain x db1 where q: "query_row (rawMessageAuthQuery E s i) (wd_db wd) = (x, db1)" by fastforce
  with assms i obtain h where h: "x = Inr h" by (cases x) (auto simp: GetRawMIME_def split: if_splits)
  obtain y fs1 where rd: "ReadRawMIME base h (wd_fs wd) = (y, fs1)" by fastforce
  with assms i q h obtain data where d: "y = Inr data" "rs_body res = Bytes data"
    by (cases y) (auto simp: GetRawMIME_def write_bytes_def)
  show ?thesis
    using that i d query_row_Inr [OF q [unfolded h]] ReadRawMIME_result [OF rd [unfolded d(1)]] by blast
qed

lemma GetAttachment_200:
  assumes "GetAttachment E base session r w wd = (res, wd')" and "rs_status res = 200"
  obtains i idx s a as data where "numericURLParam r ''id'' = Some i" "numericURLParamAllowZero r ''idx'' = Some idx"
    and "session = Some s" and "attachmentAuthQuery E s i idx (db_tables (wd_db wd)) = a # as"
    and "attachment_blob base (i, a_key a) (wd_fs wd) = Some data" and "rs_body res = Bytes data"
    and "w_header (rs_writer res) ''Content-Length'' = Some (format_int (a_size a))"
proof -
  obtain i idx s where i: "numericURLParam r ''id'' = Some i" "numericURLParamAllowZero r ''idx'' = Some idx" "session = Some s"
    using assms by (auto simp: GetAttachment_def split: option.splits)
  obtain x db1 where q: "query_row (attachmentAuthQuery E s i idx) (wd_db wd) = (x, db1)" by fastforce
  with assms i obtain a where a: "x = Inr a" by (cases x) (auto simp: GetAttachment_def split: if_splits)
  obtain y fs1 where rd: "ReadAttachment base i (a_key a) (wd_fs wd) = (y, fs1)" by fastforce
  with assms i q a obtain data where d: "y = Inr data" "rs_body res = Bytes data"
      "w_header (rs_writer res) ''Content-Length'' = Some (format_int (a_size a))"
    by (cases y) (auto simp: GetAttachment_def write_bytes_def)
  show ?thesis
    using that i d query_row_Inr [OF q [unfolded a]] ReadAttachment_result [OF rd [unfolded d(1)]] by blast
qed

lemma ListMessages_200:
  assumes "ListMessages E Q session r w wd = (res, wd')" and "rs_status res = 200"
  defines "q \<equiv> trim_space (rq_query r ''q'')"
    and "offset \<equiv> wrap64 (wrap64 (list_page r - 1) * list_per_page r)"
  obtains s where "session = Some s" "0 \<le> offset"
    and "rs_body res = Json (JObj
      [(''messages'', JArr (map (\<lambda>m. messageDTO m [] [] [])
          (page_rows E Q s q (list_per_page r) offset (db_tables (wd_db wd))))),
       (''page'', JInt (list_page r)), (''per_page'', JInt (list_per_page r)),
       (''total'', JInt (int (length (filter (listWhere E Q s q (db_tables (wd_db wd))) (db_messages (db_tables (wd_db wd)))))))])"
proof -
  obtain s where s: "session = Some s" using assms by (auto simp: ListMessages_def split: option.splits)
  let ?c = "\<lambda>t. length (filter (listWhere E Q s q t) (db_messages t))"
  obtain x db1 where c: "list_stmt Q q ?c (wd_db wd) = (x, db1)" by fastforce
  with assms(1,2) s obtain n where n: "x = Inr n" by (cases x) (auto simp: ListMessages_def Let_def q_def)
  obtain y db2 where p: "select_page E Q s q (list_per_page r) offset db1 = (y, db2)" by fastforce
  with assms(1,2) s c n obtain rows where rows: "y = Inr rows"
    by (cases y) (auto simp: ListMessages_def Let_def q_def offset_def)
  have off: "0 \<le> offset" and pr: "list_stmt Q q (page_rows E Q s q (list_per_page r) offset) db1 = (Inr rows, db2)"
    using p rows by (auto simp: select_page_def dest: exec_stmt_InrD split: if_splits)
  have "n = ?c (db_tables (wd_db wd))" using list_stmt_Inr [OF c [unfolded n]] by simp
  moreover have "rows = page_rows E Q s q (list_per_page r) offset (db_tables (wd_db wd))"
    using list_stmt_Inr [OF pr] list_stmt_keeps [OF c] by simp
  ultimately show ?thesis
    using that [OF s off] assms(1) s c n p rows by (auto simp: ListMessages_def Let_def q_def offset_def)
qed

lemma api_same_data:
  "same_data wd (snd (GetMessage E session r w wd))"
  "same_data wd (snd (GetRawMIME E base session r w wd))"
  "same_data wd (snd (GetAttachment E base session r w wd))"
  "same_data wd (snd (ListMessages E Q session r w wd))"
  by (auto simp: same_data_def GetMessage_def GetRawMIME_def GetAttachment_def ListMessages_def Let_def
      split: option.splits prod.splits sum.splits
      dest!: getMessage_keeps query_row_keeps list_stmt_keeps select_page_keeps ReadRawMIME_keeps ReadAttachment_keeps)

section \<open>Reading what is there\<close>

lemma query_row_no_fault:
  "db_faults db = [] \<Longrightarrow> query_row q db = (case q (db_tables db) of [] \<Rightarrow> Inl ErrNoRows | x # _ \<Rightarrow> Inr x, db)"
  by (simp add: query_row_def exec_stmt_no_fault)

lemma query_rows_no_fault: "db_faults db = [] \<Longrightarrow> query_rows q db = (Inr (q (db_tables db)), db)"
  by (simp add: query_rows_def exec_stmt_no_fault)

lemma messageAuthQuery_one:
  assumes "ids_ok (map m_id (db_messages t)) n" and "m \<in> set (db_messages t)" and "may_read E t s (m_id m)"
  shows "messageAuthQuery E s (m_id m) t = [m]"
proof -
  have one: "filter (\<lambda>x. m_id x = m_id m) (db_messages t) = [m]"
    using filter_unique [OF ids_ok_distinct [OF assms(1)] assms(2)] .
  have "filter (\<lambda>x. m_id x = m_id m \<and> recipient_exists E t (m_id x) (s_email s)) (db_messages t) =
      filter (\<lambda>x. recipient_exists E t (m_id x) (s_email s)) (filter (\<lambda>x. m_id x = m_id m) (db_messages t))"
    by (simp add: conj_commute)
  with one assms(3) show ?thesis by (auto simp: messageAuthQuery_def may_read_def simp del: filter_filter)
qed

lemma GetRawMIME_finds:
  assumes "db_inv E (wd_db wd)" and "db_faults (wd_db wd) = []" and "fs_faults (wd_fs wd) = []"
    and "m \<in> set (db_messages (db_tables (wd_db wd)))" and "may_read E (db_tables (wd_db wd)) s (m_id m)"
    and "rq_param r ''id'' = format_int (m_id m)" and "in_int64 (m_id m)" and "0 < m_id m"
    and "safe_comp (m_hash m)" and "raw_blob base (m_hash m) (wd_fs wd) = Some data"
  shows "rs_status (fst (GetRawMIME E base (Some s) r w wd)) = 200 \<and>
    rs_body (fst (GetRawMIME E base (Some s) r w wd)) = Bytes data"
proof -
  have "ids_ok (map m_id (db_messages (db_tables (wd_db wd)))) (db_next_message (wd_db wd))"
    using assms(1) by (simp add: db_inv_def Let_def)
  then have "rawMessageAuthQuery E s (m_id m) (db_tables (wd_db wd)) = [m_hash m]"
    using messageAuthQuery_one assms(4,5) by (simp add: auth_query_members(2))
  moreover have "numericURLParam r ''id'' = Some (m_id m)" using assms(6-8) by (simp add: numericURLParam_iff)
  ultimately show ?thesis
    using assms(2,3,9,10) by (simp add: GetRawMIME_def query_row_no_fault ReadRawMIME_blob write_bytes_def)
qed

section \<open>Pages\<close>

text \<open>\<open>ORDER BY m.received_at DESC\<close>: a permutation of the rows, latest first.\<close>

definition order_ok :: "engine \<Rightarrow> bool" where
  "order_ok Q \<longleftrightarrow> (\<forall>n off ms. mset (q_order Q n off ms) = mset ms \<and>
     sorted_wrt (\<lambda>a b. m_received b \<le> m_received a) (q_order Q n off ms))"

text \<open>The order of rows that arrived in the same second does not depend on the page.\<close>

definition order_stable :: "engine \<Rightarrow> bool" where
  "order_stable Q \<longleftrightarrow> (\<forall>n off ms. q_order Q n off ms = q_order Q n 0 ms)"

lemma concat_pages: "concat (map (\<lambda>k. take n (drop (k * n) xs)) [0..<j]) = take (j * n) xs"
proof (induction j)
  case 0
  then show ?case by simp
next
  case (Suc j)
  have "take (Suc j * n) xs = take (j * n) xs @ take n (drop (j * n) xs)"
    by (simp only: mult_Suc add.commute [of n]) (rule take_add)
  with Suc show ?case by simp
qed

lemma pages_all:
  assumes "order_ok Q" and "order_stable Q" and "0 < n"
    and "length (filter (listWhere E Q s q t) (db_messages t)) \<le> j * n"
  shows "mset (concat (map (\<lambda>k. page_rows E Q s q (int n) (int (k * n)) t) [0..<j])) =
    mset (filter (listWhere E Q s q t) (db_messages t))"
proof -
  let ?ms = "filter (listWhere E Q s q t) (db_messages t)"
  have o: "q_order Q (int n) off ?ms = q_order Q (int n) 0 ?ms" for off using assms(2) by (simp add: order_stable_def)
  have p: "page_rows E Q s q (int n) (int (k * n)) t = take n (drop (k * n) (q_order Q (int n) 0 ?ms))" for k
    unfolding page_rows_def o [of "int (k * n)"] by (simp only: nat_int)
  have m: "mset (q_order Q (int n) 0 ?ms) = mset ?ms" using assms(1) by (simp add: order_ok_def)
  then have "length (q_order Q (int n) 0 ?ms) = length ?ms" by (rule mset_eq_length)
  then show ?thesis using assms(4) m by (simp only: p concat_pages) simp
qed

text \<open>Instances for the concrete evaluations.\<close>

definition plain_engine :: engine where
  "plain_engine = \<lparr>q_order = (\<lambda>n off ms. sort_key (\<lambda>m. - m_received m) ms), q_syntax = (\<lambda>q. True),
     q_match = (\<lambda>q (sender, subject, text). sublist q sender \<or> sublist q (coalesce subject) \<or> sublist q (coalesce text))\<rparr>"

lemma sorted_wrt_key: "sorted (map f xs) \<longleftrightarrow> sorted_wrt (\<lambda>a b. f a \<le> f b) xs"
  by (simp add: sorted_wrt_map)

lemma plain_engine_ok: "order_ok plain_engine" "order_stable plain_engine"
proof -
  have "sorted_wrt (\<lambda>a b. - m_received a \<le> - m_received b) (sort_key (\<lambda>m. - m_received m) ms)" for ms
    using sorted_wrt_key [of "\<lambda>m. - m_received m"] sorted_sort_key by blast
  then show "order_ok plain_engine" by (auto simp: order_ok_def plain_engine_def)
qed (simp add: order_stable_def plain_engine_def)

section \<open>Properties\<close>

text \<open>The world at a moment when disk and database work.\<close>

definition quiet :: "world \<Rightarrow> world" where
  "quiet wd = wd\<lparr>wd_fs := (wd_fs wd)\<lparr>fs_faults := []\<rparr>, wd_db := (wd_db wd)\<lparr>db_faults := []\<rparr>\<rparr>"

lemma quiet_sel [simp]: "db_tables (wd_db (quiet wd)) = db_tables (wd_db wd)" "db_faults (wd_db (quiet wd)) = []"
  "fs_faults (wd_fs (quiet wd)) = []" "raw_blob base k (wd_fs (quiet wd)) = raw_blob base k (wd_fs wd)"
  "attachment_blob base ik (wd_fs (quiet wd)) = attachment_blob base ik (wd_fs wd)"
  "db_inv E (wd_db (quiet wd)) = db_inv E (wd_db wd)"
  by (simp_all add: quiet_def raw_blob_def attachment_blob_def)

lemma world_inv_quiet [simp]: "world_inv E base (quiet wd) = world_inv E base wd"
proof -
  have "attachment_stored E base (wd_fs (quiet wd)) = attachment_stored E base (wd_fs wd)"
    by (rule ext) (simp add: attachment_stored_def)
  moreover have "storage_inv base (wd_fs (quiet wd)) = storage_inv base (wd_fs wd)"
    by (rule storage_inv_dirs_cong) (simp add: quiet_def)
  ultimately show ?thesis by (simp add: world_inv_def) (simp add: quiet_def)
qed

text \<open>
  Property C14: who reads a message. A 200 with a message or its raw bytes goes to a session only, which
  is an administrator's or that of a recipient, and carries the message whose id is in the URL: its
  columns, recipients and attachments, or the file under its content hash. A session that may not read an
  id gets what it would get for an id that does not exist.
\<close>

theorem message_access_control:
  defines "t wd \<equiv> db_tables (wd_db (wd :: world))"
  shows "(rs_status (fst (GetMessage E session r w wd)) = 200 \<longrightarrow>
      (\<exists>s i. session = Some s \<and> rq_param r ''id'' = format_int i \<and> may_read E (t wd) s i \<and>
        (\<exists>m \<in> set (db_messages (t wd)). m_id m = i \<and> rs_body (fst (GetMessage E session r w wd)) =
           Json (messageDTO m (m_status m) (sort_key r_id (filter (\<lambda>r. r_message r = i) (db_recipients (t wd))))
             (sort_key a_id (filter (\<lambda>a. a_message a = i) (db_attachments (t wd)))))))) \<and>
    (rs_status (fst (GetRawMIME E base session r w wd)) = 200 \<longrightarrow>
      (\<exists>s i. session = Some s \<and> rq_param r ''id'' = format_int i \<and> may_read E (t wd) s i \<and>
        (\<exists>m \<in> set (db_messages (t wd)). m_id m = i \<and>
           (\<exists>d. raw_blob base (m_hash m) (wd_fs wd) = Some d \<and>
             rs_body (fst (GetRawMIME E base session r w wd)) = Bytes d)))) \<and>
    (\<forall>s i. session = Some s \<and> numericURLParam r ''id'' = Some i \<and> \<not> may_read E (t wd) s i \<longrightarrow>
       fst (GetMessage E session r w wd) \<in> {http_not_found w, http_internal_error w} \<and>
       fst (GetRawMIME E base session r w wd) \<in> {http_not_found w, http_internal_error w})"
proof (intro conjI impI allI)
  let ?G = "GetMessage E session r w wd" and ?R = "GetRawMIME E base session r w wd"
  show "\<exists>s i. session = Some s \<and> rq_param r ''id'' = format_int i \<and> may_read E (t wd) s i \<and>
        (\<exists>m \<in> set (db_messages (t wd)). m_id m = i \<and> rs_body (fst ?G) =
           Json (messageDTO m (m_status m) (sort_key r_id (filter (\<lambda>r. r_message r = i) (db_recipients (t wd))))
             (sort_key a_id (filter (\<lambda>a. a_message a = i) (db_attachments (t wd))))))" if "rs_status (fst ?G) = 200"
  proof (rule GetMessage_200 [OF prod.collapse [symmetric] that])
    fix i s m ms assume i: "numericURLParam r ''id'' = Some i" and s: "session = Some s"
      and q: "messageAuthQuery E s i (db_tables (wd_db wd)) = m # ms"
      and b: "rs_body (fst ?G) = Json (messageDTO m (m_status m)
        (sort_key r_id (filter (\<lambda>r. r_message r = i) (db_recipients (db_tables (wd_db wd)))))
        (sort_key a_id (filter (\<lambda>a. a_message a = i) (db_attachments (db_tables (wd_db wd))))))"
    have "m \<in> set (messageAuthQuery E s i (t wd))" using q by (simp add: t_def)
    then show ?thesis using i s b unfolding auth_query_members(1) numericURLParam_iff t_def by blast
  qed
  show "\<exists>s i. session = Some s \<and> rq_param r ''id'' = format_int i \<and> may_read E (t wd) s i \<and>
        (\<exists>m \<in> set (db_messages (t wd)). m_id m = i \<and>
           (\<exists>d. raw_blob base (m_hash m) (wd_fs wd) = Some d \<and> rs_body (fst ?R) = Bytes d))" if "rs_status (fst ?R) = 200"
  proof (rule GetRawMIME_200 [OF prod.collapse [symmetric] that])
    fix i s h hs d assume i: "numericURLParam r ''id'' = Some i" and s: "session = Some s"
      and q: "rawMessageAuthQuery E s i (db_tables (wd_db wd)) = h # hs"
      and d: "raw_blob base h (wd_fs wd) = Some d" and b: "rs_body (fst ?R) = Bytes d"
    have "h \<in> m_hash ` set (messageAuthQuery E s i (t wd))" using q unfolding auth_query_members(2) t_def by (metis list.set_intros(1) set_map)
    then obtain m where m: "m \<in> set (messageAuthQuery E s i (t wd))" "h = m_hash m" by blast
    then have "m \<in> set (db_messages (t wd)) \<and> m_id m = i \<and> may_read E (t wd) s i" unfolding auth_query_members(1) by simp
    moreover have "rq_param r ''id'' = format_int i" using i by (simp add: numericURLParam_iff)
    ultimately show ?thesis using s d b m(2) by blast
  qed
  fix s i assume a: "session = Some s \<and> numericURLParam r ''id'' = Some i \<and> \<not> may_read E (t wd) s i"
  have none: "messageAuthQuery E s j (db_tables (wd_db wd)) = []" if "numericURLParam r ''id'' = Some j" for j
  proof -
    have "j = i" using that a by simp
    then have "x \<notin> set (messageAuthQuery E s j (db_tables (wd_db wd)))" for x
      using a auth_query_members(1) unfolding t_def by blast
    then show ?thesis by (metis list.set_intros(1) neq_Nil_conv)
  qed
  show "fst ?G \<in> {http_not_found w, http_internal_error w}"
  proof (cases "numericURLParam r ''id''")
    case (Some j)
    obtain x db1 where g: "getMessage E j s (wd_db wd) = (x, db1)" by fastforce
    obtain e where "x = Inl e"
    proof (cases x)
      case (Inr y)
      from getMessage_Inr [OF g [unfolded this]] none [OF Some] show ?thesis by force
    qed
    then show ?thesis using a Some g by (simp add: GetMessage_def)
  qed (simp add: GetMessage_def)
  show "fst ?R \<in> {http_not_found w, http_internal_error w}"
    using a none by (auto simp: GetRawMIME_def auth_query_members(2) dest: query_row_Inr split: option.splits prod.splits sum.splits)
qed

text \<open>Alice's session, and the message she was sent.\<close>

definition alice :: session where
  "alice = \<lparr>s_email = ''alice@example.org'', s_admin = False, s_expires = 0, s_token = ''t''\<rparr>"

definition mailbox :: world where
  "mailbox = quiet (snd (first_mail ''hello''))"

definition by_id :: "int \<Rightarrow> request" where
  "by_id i = blank_request\<lparr>rq_param := (\<lambda>name. if name = ''id'' then format_int i else ''0'')\<rparr>"

lemma mailbox_tables: "db_tables (wd_db mailbox) = add_mail demo_clock (plain_message ''hello'') ''success'' None (empty_database [])"
  using first_mail_accepted [of "''hello''"] by (simp add: mailbox_def byte_def)

lemma mailbox_ids: "0 < (1::int)" "in_int64 1" "rq_param (by_id i) ''id'' = format_int i"
  by (simp_all add: in_int64_iff by_id_def)

lemma mailbox_inv: "world_inv plain_ext ''data'' mailbox"
  by (simp add: mailbox_def first_mail_world_inv)

lemma mailbox_message: "\<exists>m. db_messages (db_tables (wd_db mailbox)) = [m] \<and> m_hash m = HashBytes plain_ext ''hello'' \<and> m_id m = 1"
  using first_mail_message by (simp add: mailbox_def)

lemma alice_may_read: "may_read plain_ext (db_tables (wd_db mailbox)) alice 1"
  unfolding mailbox_tables
  by (simp add: may_read_def recipient_exists_def add_mail_def Let_def plain_message_def zero_parsed_def same_text_def plain_ext_sel
      stored_recipient_def new_recipient_def alice_def empty_tables_def) (simp add: empty_database_def)

lemma mailbox_raw: "raw_blob ''data'' (HashBytes plain_ext ''hello'') (wd_fs mailbox) = Some ''hello''"
proof -
  have a: "\<forall>c \<in> set ''hello''. byte c < 128" by (simp add: byte_def)
  have nk: "\<not> known_hash plain_ext (HashBytes plain_ext ''hello'') (db_tables (wd_db (new_world [] [])))"
    by (simp add: known_hash_def empty_tables_def)
  have pf: "parse_or_fallback plain_ext demo_clock ''hello'' = (plain_message ''hello'', ''success'', None)"
    using plain_parse_or_fallback valid_utf8_ascii [OF a] by blast
  have fits: "mail_fits plain_ext demo_clock (plain_message ''hello'') ''success'' None (wd_db (new_world [] []))"
    using plain_fits [OF a, of "empty_database []"] by (simp add: empty_database_def empty_tables_def int64_max_def)
  have "raw_blob ''data'' (HashBytes plain_ext ''hello'') (wd_fs (new_world [] [])) = None"
    by (simp add: raw_blob_def empty_fs_def)
  then show ?thesis
    using ingest_raw_accepts [OF _ _ new_world_inv plain_ext_ok(1) pf fits nk, of "''data''" fresh_writer]
    by (auto simp: mailbox_def first_mail_def empty_fs_ok keep_first_def)
qed

lemma mailbox_read:
  "rs_status (fst (GetRawMIME plain_ext ''data'' (Some alice) (by_id 1) fresh_writer mailbox)) = 200"
  "rs_body (fst (GetRawMIME plain_ext ''data'' (Some alice) (by_id 1) fresh_writer mailbox)) = Bytes ''hello''"
proof -
  obtain m where m: "m \<in> set (db_messages (db_tables (wd_db mailbox)))" and h: "m_hash m = HashBytes plain_ext ''hello''" "m_id m = 1"
    using mailbox_message by fastforce
  have "db_inv plain_ext (wd_db mailbox)" using world_invD(3) [OF mailbox_inv] .
  from GetRawMIME_finds [OF this _ _ m, of alice "by_id 1" "''data''" "''hello''" fresh_writer]
  show "rs_status (fst (GetRawMIME plain_ext ''data'' (Some alice) (by_id 1) fresh_writer mailbox)) = 200"
    "rs_body (fst (GetRawMIME plain_ext ''data'' (Some alice) (by_id 1) fresh_writer mailbox)) = Bytes ''hello''"
    using h alice_may_read mailbox_ids mailbox_raw HashBytes_safe [OF plain_ext_ok(1)] by (simp_all add: mailbox_def)
qed

theorem message_access_control_witness:
  "\<exists>s i. Some alice = Some s \<and> rq_param (by_id 1) ''id'' = format_int i \<and> may_read plain_ext (db_tables (wd_db mailbox)) s i"
  using message_access_control [of plain_ext "Some alice" "by_id 1" fresh_writer mailbox "''data''"] mailbox_read(1) by blast

text \<open>
  Property C15: who reads an attachment, and what. A 200 goes to an administrator or a recipient of the
  message in the URL; its bytes are those of an attachment row of this message, have the hash in the row,
  and \<open>Content-Length\<close> is their number.
\<close>

theorem attachment_access_integrity:
  assumes "world_inv E base wd" and "GetAttachment E base session r w wd = (res, wd')" and "rs_status res = 200"
  shows "\<exists>s i d. session = Some s \<and> rq_param r ''id'' = format_int i \<and> may_read E (db_tables (wd_db wd)) s i \<and>
    rs_body res = Bytes d \<and> w_header (rs_writer res) ''Content-Length'' = Some (format_int (int (length d))) \<and>
    (\<exists>a \<in> set (db_attachments (db_tables (wd_db wd))). a_message a = i \<and> HashBytes E d = a_hash a)"
  using assms(2,3)
proof (rule GetAttachment_200)
  fix i idx s a as d assume i: "numericURLParam r ''id'' = Some i" and s: "session = Some s"
    and q: "attachmentAuthQuery E s i idx (db_tables (wd_db wd)) = a # as"
    and d: "attachment_blob base (i, a_key a) (wd_fs wd) = Some d" "rs_body res = Bytes d"
    and l: "w_header (rs_writer res) ''Content-Length'' = Some (format_int (a_size a))"
  note a = attachment_query_members [OF q]
  then have "attachment_stored E base (wd_fs wd) a" using assms(1) by (simp add: world_inv_def)
  then have "HashBytes E d = a_hash a" "a_size a = int (length d)" using a d(1) by (auto simp: attachment_stored_def)
  then show ?thesis using i s a d(2) l unfolding numericURLParam_iff by metis
qed

definition admin_session :: session where
  "admin_session = \<lparr>s_email = ''admin'', s_admin = True, s_expires = 0, s_token = ''t''\<rparr>"

lemma format_zero: "format_int 0 = ''0''"
  by code_simp

lemma attached_read:
  "rs_status (fst (GetAttachment attached_ext ''data'' (Some admin_session) (by_id 1) fresh_writer
     (quiet (snd (first_attached ''ahello''))))) = 200"
proof -
  let ?wd = "quiet (snd (first_attached ''ahello''))"
  let ?a = "stored_attachment 1 1 (0, hd (Attachments (attached_message ''ahello'')))"
  have t: "db_tables (wd_db ?wd) = add_mail demo_clock (attached_message ''ahello'') ''success'' None (empty_database [])"
    using first_attached_accepted [of "''ahello''"] by simp
  have "world_inv attached_ext ''data'' (snd (first_attached ''ahello''))"
    unfolding first_attached_def
    by (rule ingest_raw_world_inv [OF prod.collapse [symmetric]]) (simp_all add: attached_sel new_world_inv)
  moreover have as: "db_attachments (db_tables (wd_db ?wd)) = [?a]"
    unfolding t by (simp add: add_mail_def Let_def attached_message_def empty_database_def empty_tables_def)
  ultimately have "attachment_stored attached_ext ''data'' (wd_fs (snd (first_attached ''ahello''))) ?a"
    by (simp add: world_inv_def)
  then obtain d where d: "attachment_blob ''data'' (1, HashBytes attached_ext ''hello'') (wd_fs ?wd) = Some d"
    by (auto simp: attachment_stored_def stored_attachment_def new_attachment_def attached_message_def split: option.splits)
  have q: "attachmentAuthQuery attached_ext admin_session 1 0 (db_tables (wd_db ?wd)) = [?a]"
    unfolding attachmentAuthQuery_def as
    by (simp add: admin_session_def message_exists_def t del: quiet_sel)
      (simp add: add_mail_def Let_def empty_database_def stored_message_def stored_attachment_def new_attachment_def)
  have p: "numericURLParam (by_id 1) ''id'' = Some 1" "numericURLParamAllowZero (by_id 1) ''idx'' = Some 0"
    by (simp_all add: numericURLParam_iff numericURLParamAllowZero_iff mailbox_ids in_int64_iff)
      (simp add: by_id_def format_zero)
  have k: "valid_attachment_key (1, HashBytes attached_ext ''hello'')"
    using HashBytes_safe [OF attached_sel(5)] by (simp add: valid_attachment_key_def in_int64_iff)
  have "a_key ?a = HashBytes attached_ext ''hello''" by (simp add: stored_attachment_def new_attachment_def attached_message_def)
  then show ?thesis
    using p q d ReadAttachment_blob [OF k, of "wd_fs ?wd"]
    by (simp add: GetAttachment_def query_row_no_fault write_bytes_def)
qed

theorem attachment_access_integrity_witness:
  "\<exists>d. rs_body (fst (GetAttachment attached_ext ''data'' (Some admin_session) (by_id 1) fresh_writer
     (quiet (snd (first_attached ''ahello''))))) = Bytes d"
proof -
  have "world_inv attached_ext ''data'' (quiet (snd (first_attached ''ahello'')))"
    unfolding world_inv_quiet first_attached_def
    by (rule ingest_raw_world_inv [OF prod.collapse [symmetric]]) (simp_all add: attached_sel new_world_inv)
  from attachment_access_integrity [OF this prod.collapse [symmetric] attached_read] show ?thesis by blast
qed


text \<open>
  Property C16: what a list shows. A list answered with 200 has at most \<open>per_page\<close> (and never more than 100)
  messages, in the order of arrival, latest first; each is stored, matches the search and may be read by
  the session, and \<open>total\<close> is the number of all messages of which that is true.
\<close>

theorem list_access_and_total:
  assumes "order_ok Q" and "ListMessages E Q session r w wd = (res, wd')" and "rs_status res = 200"
  defines "t \<equiv> db_tables (wd_db wd)" and "q \<equiv> trim_space (rq_query r ''q'')"
  shows "\<exists>s rows. session = Some s \<and>
     rs_body res = Json (JObj [(''messages'', JArr (map (\<lambda>m. messageDTO m [] [] []) rows)),
       (''page'', JInt (list_page r)), (''per_page'', JInt (list_per_page r)),
       (''total'', JInt (int (length (filter (listWhere E Q s q t) (db_messages t)))))]) \<and>
     int (length rows) \<le> list_per_page r \<and> list_per_page r \<le> 100 \<and>
     sorted_wrt (\<lambda>a b. m_received b \<le> m_received a) rows \<and>
     (\<forall>m \<in> set rows. m \<in> set (db_messages t) \<and> listWhere E Q s q t m \<and> may_read E t s (m_id m))"
  using assms(2,3)
proof (rule ListMessages_200)
  fix s assume s: "session = Some s"
  let ?off = "wrap64 (wrap64 (list_page r - 1) * list_per_page r)"
  let ?ms = "filter (listWhere E Q s (trim_space (rq_query r ''q'')) (db_tables (wd_db wd))) (db_messages (db_tables (wd_db wd)))"
  let ?rows = "page_rows E Q s (trim_space (rq_query r ''q'')) (list_per_page r) ?off (db_tables (wd_db wd))"
  assume b: "rs_body res = Json (JObj [(''messages'', JArr (map (\<lambda>m. messageDTO m [] [] []) ?rows)),
       (''page'', JInt (list_page r)), (''per_page'', JInt (list_per_page r)), (''total'', JInt (int (length ?ms)))])"
  have o: "mset (q_order Q (list_per_page r) ?off ?ms) = mset ?ms"
    "sorted_wrt (\<lambda>a b. m_received b \<le> m_received a) (q_order Q (list_per_page r) ?off ?ms)"
    using assms(1) by (simp_all add: order_ok_def)
  have "sorted_wrt (\<lambda>a b. m_received b \<le> m_received a) ?rows"
    unfolding page_rows_def using o(2) by (intro sorted_wrt_take sorted_wrt_drop)
  moreover have "set ?rows \<subseteq> set ?ms"
    unfolding page_rows_def mset_eq_setD [OF o(1), symmetric] by (rule order_trans [OF set_take_subset set_drop_subset])
  moreover have "int (length ?rows) \<le> list_per_page r"
    using list_page_bounds(3) [of r] by (simp add: page_rows_def)
  moreover have "may_read E t s (m_id m)" if "listWhere E Q s q t m" for m
    using that by (auto simp: listWhere_def may_read_def)
  ultimately show ?thesis
    using s b list_page_bounds(4) [of r] unfolding t_def q_def by (intro exI [of _ s] exI [of _ ?rows]) auto
qed

lemma parse_empty: "parse_int64 [] = None"
  by code_simp

lemma mailbox_list: "rs_status (fst (ListMessages plain_ext plain_engine (Some alice) blank_request fresh_writer mailbox)) = 200"
proof -
  have p: "parsePositiveInt [] n = n" for n using parse_empty by (simp add: parsePositiveInt_def)
  have u: "isSearchQueryUsable [] = False" by (simp add: isSearchQueryUsable_def text_eval)
  have o: "wrap64 0 = 0" by (simp add: in_int64_iff)
  show ?thesis
    by (simp add: ListMessages_def list_page_def list_per_page_def blank_request_def p u o text_eval Let_def
        list_stmt_def select_page_def exec_stmt_no_fault mailbox_def)
qed

theorem list_access_and_total_witness:
  "\<exists>rows. rs_body (fst (ListMessages plain_ext plain_engine (Some alice) blank_request fresh_writer mailbox)) =
      Json (JObj [(''messages'', JArr (map (\<lambda>m. messageDTO m [] [] []) rows)),
       (''page'', JInt (list_page blank_request)), (''per_page'', JInt (list_per_page blank_request)),
       (''total'', JInt (int (length (filter (listWhere plain_ext plain_engine alice (trim_space (rq_query blank_request ''q''))
          (db_tables (wd_db mailbox))) (db_messages (db_tables (wd_db mailbox)))))))])"
  using list_access_and_total [OF plain_engine_ok(1) prod.collapse [symmetric] mailbox_list] by blast



text \<open>
  Reading changes nothing: whatever they answer, the four read handlers leave the tables and
  the files as they are.
\<close>

theorem reads_change_nothing:
  "same_data wd (snd (GetMessage E session r w wd)) \<and> same_data wd (snd (GetRawMIME E base session r w wd)) \<and>
   same_data wd (snd (GetAttachment E base session r w wd)) \<and> same_data wd (snd (ListMessages E Q session r w wd))"
  by (simp add: api_same_data)

text \<open>
  One id, one URL: a number in a URL is accepted exactly when it is written as
  \<open>strconv.FormatInt\<close> writes it and is in the range of \<open>int64\<close>, positive for a message and not negative
  for an attachment: no sign, no leading zero, no overflow.
\<close>

theorem url_id_canonical:
  "(numericURLParam r name = Some i) = (0 < i \<and> in_int64 i \<and> rq_param r name = format_int i) \<and>
   (numericURLParamAllowZero r name = Some i) = (0 \<le> i \<and> in_int64 i \<and> rq_param r name = format_int i)"
  by (simp add: numericURLParam_iff numericURLParamAllowZero_iff)

text \<open>
  Property C20: the file name of a download cannot break out of its header. It is never empty, it is
  UTF-8, and it has no quotation mark, apostrophe, line break, slash or backslash.
\<close>

theorem filename_header_safe:
  "attachment_filename f \<noteq> [] \<and> valid_utf8 (attachment_filename f) \<and>
   list_all (\<lambda>c. byte c \<notin> {34, 39, 13, 10, 47, 92}) (attachment_filename f)"
proof (cases "sanitizeFilename f = []")
  case True
  have "valid_utf8 ''attachment''" by (rule valid_utf8_ascii [THEN conjunct1]) (simp add: byte_def)
  moreover have "attachment_filename f = ''attachment''" using True by (simp add: attachment_filename_def)
  ultimately show ?thesis by (simp add: byte_def)
next
  case False
  then have "attachment_filename f = sanitizeFilename f" by (simp add: attachment_filename_def)
  then show ?thesis using False sanitizeFilename_valid [of f] sanitized_bytes [of _ f] unfolding list_all_iff by simp
qed

text \<open>The offset of a page far enough away is negative, and the list answers with an error.\<close>

theorem list_page_overflow:
  assumes "2 ^ 63 \<le> (list_page r - 1) * list_per_page r" and "(list_page r - 1) * list_per_page r < 2 ^ 64"
  shows "rs_status (fst (ListMessages E Q (Some s) r w wd)) = 500"
proof -
  have "wrap64 (list_page r - 1) = list_page r - 1" using list_page_bounds(1,2) [of r] by (simp add: in_int64_iff)
  then have "wrap64 (wrap64 (list_page r - 1) * list_per_page r) < 0" using wrap64_upper [OF assms] by simp
  then have neg: "\<not> 0 \<le> wrap64 (wrap64 (list_page r - 1) * list_per_page r)" by simp
  have "rs_status (fst (ListMessages E Q (Some s) r w wd)) \<in> {200, 500}"
    by (auto simp: ListMessages_def Let_def http_internal_error_def http_error_def split: prod.split sum.split)
  moreover have "rs_status (fst (ListMessages E Q (Some s) r w wd)) \<noteq> 200"
  proof
    assume "rs_status (fst (ListMessages E Q (Some s) r w wd)) = 200"
    from ListMessages_200 [OF prod.collapse [symmetric] this] neg show False by blast
  qed
  ultimately show ?thesis by simp
qed

end
