(* ===== verification/Go_Float.thy ===== *)
theory Go_Float
  imports Prelude Complex_Main "HOL-Library.Log_Nat"
begin

text \<open>
  The \<open>float64\<close> arithmetic of the rate limiter: a value is a rational number, every operation is the
  exact one followed by \<open>f64\<close>, the rounding of IEEE 754 binary64 to 53 significant bits, ties to even,
  in the range of normal numbers. Also \<open>time.Duration.Seconds\<close> and the conversion of a float to \<open>int\<close>.
\<close>

section \<open>Rounding\<close>

definition round_even :: "rat \<Rightarrow> int" where
  "round_even y =
     (let f = \<lfloor>y\<rfloor>; d = y - of_int f
      in if d < 1 / 2 then f else if 1 / 2 < d then f + 1 else if even f then f else f + 1)"

text \<open>The exponent of a positive number: \<open>2 ^ k \<le> x < 2 ^ (k + 1)\<close>.\<close>

definition exponent :: "rat \<Rightarrow> int" where
  "exponent x =
     (case quotient_of x of (p, q) \<Rightarrow>
        let k = int (floorlog 2 (nat p)) - int (floorlog 2 (nat q))
        in if 2 powi k \<le> x then k else k - 1)"

definition f64_pos :: "rat \<Rightarrow> rat" where
  "f64_pos x = (let e = exponent x - 52 in of_int (round_even (x / 2 powi e)) * 2 powi e)"

definition f64 :: "rat \<Rightarrow> rat" where
  "f64 x = (if x = 0 then 0 else if x < 0 then - f64_pos (- x) else f64_pos x)"

text \<open>\<open>int(x)\<close> truncates; \<open>/\<close> and \<open>%\<close> of Go truncate too.\<close>

definition trunc :: "rat \<Rightarrow> int" where
  "trunc x = (if x < 0 then - \<lfloor>- x\<rfloor> else \<lfloor>x\<rfloor>)"

definition go_div :: "int \<Rightarrow> int \<Rightarrow> int" where
  "go_div a b = (if a < 0 then - ((- a) div b) else a div b)"

definition go_mod :: "int \<Rightarrow> int \<Rightarrow> int" where
  "go_mod a b = a - go_div a b * b"

text \<open>\<open>d.Seconds()\<close>.\<close>

definition Seconds :: "int \<Rightarrow> rat" where
  "Seconds d = f64 (f64 (of_int (go_div d 1000000000)) + f64 (f64 (of_int (go_mod d 1000000000)) / 1000000000))"

section \<open>The rounding error\<close>

lemma round_even_error: "\<bar>of_int (round_even y) - y\<bar> \<le> 1 / 2"
proof -
  have d: "0 \<le> y - of_int \<lfloor>y\<rfloor>" "y - of_int \<lfloor>y\<rfloor> < 1" by linarith+
  consider "round_even y = \<lfloor>y\<rfloor>" "y - of_int \<lfloor>y\<rfloor> \<le> 1 / 2" | "round_even y = \<lfloor>y\<rfloor> + 1" "1 / 2 \<le> y - of_int \<lfloor>y\<rfloor>"
    unfolding round_even_def Let_def by (metis linorder_not_less order_less_imp_le)
  then show ?thesis
  proof cases
    case 1
    show ?thesis unfolding abs_le_iff 1(1) using 1(2) d by (intro conjI; linarith)
  next
    case 2
    show ?thesis unfolding abs_le_iff 2(1) of_int_add of_int_1 using 2(2) d by (intro conjI; linarith)
  qed
qed

lemma round_even_int [simp]: "round_even (of_int i) = i"
  by (simp add: round_even_def)

lemma exponent_bounds:
  assumes "0 < x"
  shows "2 powi exponent x \<le> x" and "x < 2 powi (exponent x + 1)"
proof -
  obtain p q where pq: "quotient_of x = (p, q)" by fastforce
  then have x: "x = of_int p / of_int q" and q: "0 < q" by (simp_all add: quotient_of_div quotient_of_denom_pos)
  then have p: "0 < p" using assms by (simp add: zero_less_divide_iff)
  define a b where "a = floorlog 2 (nat p)" and "b = floorlog 2 (nat q)"
  have pa: "(2::nat) ^ (a - 1) \<le> nat p" "nat p < 2 ^ a" "0 < a"
    using p floorlog_bounds [of "nat p" 2] unfolding a_def by (auto simp: floorlog_def)
  have qb: "(2::nat) ^ (b - 1) \<le> nat q" "nat q < 2 ^ b" "0 < b"
    using q floorlog_bounds [of "nat q" 2] unfolding b_def by (auto simp: floorlog_def)
  have P: "(2::rat) powi (int a - 1) \<le> of_int p" "of_int p < (2::rat) powi (int a)"
  proof -
    have "of_nat (2 ^ (a - 1)) \<le> (of_nat (nat p) :: rat)" "(of_nat (nat p) :: rat) < of_nat (2 ^ a)"
      using pa by (simp_all only: of_nat_le_iff of_nat_less_iff)
    then show "(2::rat) powi (int a - 1) \<le> of_int p" "of_int p < (2::rat) powi (int a)"
      using p pa(3) by (simp_all add: power_int_def nat_diff_distrib)
  qed
  have Q: "(2::rat) powi (int b - 1) \<le> of_int q" "of_int q < (2::rat) powi (int b)"
  proof -
    have "of_nat (2 ^ (b - 1)) \<le> (of_nat (nat q) :: rat)" "(of_nat (nat q) :: rat) < of_nat (2 ^ b)"
      using qb by (simp_all only: of_nat_le_iff of_nat_less_iff)
    then show "(2::rat) powi (int b - 1) \<le> of_int q" "of_int q < (2::rat) powi (int b)"
      using q qb(3) by (simp_all add: power_int_def nat_diff_distrib)
  qed
  have qpos: "(0::rat) < of_int q" using q by simp
  have "(2::rat) powi int a / 2 powi (int b - 1) = 2 powi (int a - (int b - 1))"
    by (rule power_int_diff [symmetric]) simp
  moreover have "x < 2 powi int a / 2 powi (int b - 1)"
    unfolding x using P(2) Q(1) qpos by (intro frac_less) (use p in auto)
  ultimately have up: "x < 2 powi (int a - int b + 1)" by (simp only: diff_diff_eq2 diff_add_eq)
  have "(2::rat) powi (int a - 1) / 2 powi int b = 2 powi (int a - 1 - int b)"
    by (rule power_int_diff [symmetric]) simp
  moreover have "2 powi (int a - 1) / 2 powi int b \<le> x"
    unfolding x using P(1) Q(2) qpos p by (intro frac_le) auto
  ultimately have lo: "2 powi (int a - int b - 1) \<le> x" by (simp only: diff_right_commute [of "int a" 1])
  have e: "exponent x = (if 2 powi (int a - int b) \<le> x then int a - int b else int a - int b - 1)"
    by (simp add: exponent_def pq a_def b_def Let_def)
  show "2 powi exponent x \<le> x" "x < 2 powi (exponent x + 1)" using e up lo by (auto split: if_splits)
qed

lemma f64_pos_error:
  assumes "0 < x"
  shows "\<bar>f64_pos x - x\<bar> \<le> x / 2 ^ 53"
proof -
  define e where "e = exponent x - 52"
  have pos: "(0::rat) < 2 powi e" by simp
  have "f64_pos x - x = (of_int (round_even (x / 2 powi e)) - x / 2 powi e) * 2 powi e"
    using pos by (simp add: f64_pos_def Let_def e_def [symmetric] algebra_simps)
  then have "\<bar>f64_pos x - x\<bar> = \<bar>of_int (round_even (x / 2 powi e)) - x / 2 powi e\<bar> * 2 powi e"
    using pos by (simp add: abs_mult)
  also have "\<dots> \<le> 1 / 2 * 2 powi e"
    by (rule mult_right_mono [OF round_even_error]) (use pos in simp)
  also have "\<dots> = 2 powi exponent x / 2 ^ 53"
    unfolding e_def by (simp add: power_int_diff)
  also have "\<dots> \<le> x / 2 ^ 53" using exponent_bounds(1) [OF assms] by (simp add: divide_right_mono)
  finally show ?thesis .
qed

lemma f64_error: "\<bar>f64 x - x\<bar> \<le> \<bar>x\<bar> / 2 ^ 53"
  using f64_pos_error [of x] f64_pos_error [of "- x"]
  by (cases "x = 0"; cases "x < 0") (auto simp: f64_def abs_minus_commute)

lemma f64_bounds:
  assumes "0 \<le> x"
  shows "x - x / 2 ^ 53 \<le> f64 x" and "f64 x \<le> x + x / 2 ^ 53"
  using f64_error [of x] unfolding abs_le_iff abs_of_nonneg [OF assms] by linarith+

lemma f64_nonneg: "0 \<le> x \<Longrightarrow> 0 \<le> f64 x"
proof -
  assume x: "0 \<le> x"
  have "x / 2 ^ 53 \<le> x / 1" using x by (intro divide_left_mono) simp_all
  then show ?thesis using f64_bounds(1) [OF x] by linarith
qed

end
