(* ===== verification/Rate_Limit.thy ===== *)
theory Rate_Limit
  imports Go_Float Http
begin

text \<open>
  \<open>internal/middleware/ratelimit.go\<close>: the token bucket per client address, its periodic cleanup and the
  middleware. A time is in nanoseconds. \<open>Allow\<close> holds the mutex of the entry from reading to writing it,
  so it is one step on the map of entries.
\<close>

record rate_entry =
  re_tokens :: int
  re_last :: int

record rate_limiter =
  rl_rpm :: int
  rl_entries :: "string \<rightharpoonup> rate_entry"

definition rl_window :: int where
  "rl_window = 60000000000"

definition newRateLimiter :: "int \<Rightarrow> rate_limiter" where
  "newRateLimiter requestsPerMinute = \<lparr>rl_rpm = requestsPerMinute, rl_entries = Map.empty\<rparr>"

text \<open>\<open>now.Sub(t)\<close> saturates at the bounds of \<open>time.Duration\<close>.\<close>

definition time_sub :: "int \<Rightarrow> int \<Rightarrow> int" where
  "time_sub now t = max int64_min (min int64_max (now - t))"

definition cleanup :: "int \<Rightarrow> rate_limiter \<Rightarrow> rate_limiter" where
  "cleanup now rl =
     rl\<lparr>rl_entries := (\<lambda>key. case rl_entries rl key of
          None \<Rightarrow> None
        | Some e \<Rightarrow> if time_sub now (re_last e) > rl_window then None else Some e)\<rparr>"

text \<open>\<open>int(elapsed.Seconds() * float64(rpm) / window.Seconds())\<close>\<close>

definition recovered_tokens :: "int \<Rightarrow> int \<Rightarrow> int" where
  "recovered_tokens rpm elapsed = trunc (f64 (f64 (Seconds elapsed * f64 (of_int rpm)) / Seconds rl_window))"

definition refill :: "int \<Rightarrow> int \<Rightarrow> int \<Rightarrow> int" where
  "refill rpm tokens elapsed =
     (let recovered = recovered_tokens rpm elapsed
      in if recovered > 0
         then (let t = wrap64 (tokens + recovered) in if t > rpm then rpm else t)
         else tokens)"

definition Allow :: "string \<Rightarrow> int \<Rightarrow> rate_limiter \<Rightarrow> (bool \<times> int \<times> int) \<times> rate_limiter" where
  "Allow ip now rl =
     (let resetAt = (now + rl_window) div 1000000000;
          entry = (case rl_entries rl ip of
              None \<Rightarrow> \<lparr>re_tokens = rl_rpm rl, re_last = now\<rparr> | Some e \<Rightarrow> e);
          tokens = refill (rl_rpm rl) (re_tokens entry) (time_sub now (re_last entry));
          remaining = (if tokens - 1 < 0 then 0 else tokens - 1)
      in if tokens \<le> 0
         then ((False, 0, resetAt), rl\<lparr>rl_entries := (rl_entries rl)(ip \<mapsto> \<lparr>re_tokens = tokens, re_last = now\<rparr>)\<rparr>)
         else ((True, remaining, resetAt),
               rl\<lparr>rl_entries := (rl_entries rl)(ip \<mapsto> \<lparr>re_tokens = tokens - 1, re_last = now\<rparr>)\<rparr>))"

definition getClientIP :: "request \<Rightarrow> string" where
  "getClientIP r =
     (let xff = rq_header r ''X-Forwarded-For''
      in if xff \<noteq> [] then trim_space (hd (split_on (CHR '','') xff)) else rq_remote_addr r)"

text \<open>\<open>RateLimit(rpm, burst)\<close>: \<open>burst\<close> gets a default and is not used after that.\<close>

definition rate_limit_rpm :: "int \<Rightarrow> int" where
  "rate_limit_rpm requestsPerMinute = (if requestsPerMinute \<le> 0 then 60 else requestsPerMinute)"

definition RateLimit :: "int \<Rightarrow> 's handler \<Rightarrow> (rate_limiter \<times> 's) handler" where
  "RateLimit now next r w st =
     (case Allow (getClientIP r) now (fst st) of ((allowed, remaining, resetAt), rl) \<Rightarrow>
        let w1 = set_header ''X-RateLimit-Reset'' (format_int resetAt)
                  (set_header ''X-RateLimit-Remaining'' (format_int remaining)
                    (set_header ''X-RateLimit-Limit'' (format_int (rl_rpm rl)) w))
        in if \<not> allowed
           then (\<lparr>rs_status = 429, rs_writer = set_header ''Content-Type'' ''application/json'' w1,
                  rs_body = Json (json_error ''rate limit exceeded'')\<rparr>, (rl, snd st))
           else (case next r w1 (snd st) of (res, s') \<Rightarrow> (res, (rl, s'))))"

section \<open>The rounded refill\<close>

abbreviation ulp :: rat where
  "ulp \<equiv> 1 / 2 ^ 53"

lemma mult_pow34: "(a * c ^ 3) * (b * c ^ Suc 0) = a * b * (c :: rat) ^ 4"
  by (simp add: eval_nat_numeral)

lemma f64_le_mult:
  assumes "0 \<le> x" and "x \<le> y * (1 + ulp) ^ k"
  shows "f64 x \<le> y * (1 + ulp) ^ Suc k"
proof -
  have "f64 x \<le> x * (1 + ulp)" using f64_bounds(2) [OF assms(1)] by (simp add: algebra_simps)
  also have "\<dots> \<le> y * (1 + ulp) ^ k * (1 + ulp)" by (rule mult_right_mono [OF assms(2)]) simp
  finally show ?thesis by (simp only: power_Suc ac_simps)
qed

lemma f64_ge_mult:
  assumes "0 \<le> y" and "y * (1 - ulp) ^ k \<le> x"
  shows "y * (1 - ulp) ^ Suc k \<le> f64 x"
proof -
  have u: "(0::rat) \<le> 1 - ulp" by simp
  have x: "0 \<le> x" using assms u by (meson mult_nonneg_nonneg order_trans zero_le_power)
  have "y * (1 - ulp) ^ Suc k = y * (1 - ulp) ^ k * (1 - ulp)" by (simp only: power_Suc ac_simps)
  also have "\<dots> \<le> x * (1 - ulp)" by (rule mult_right_mono [OF assms(2) u])
  also have "\<dots> \<le> f64 x" using f64_bounds(1) [OF x] by (simp add: algebra_simps)
  finally show ?thesis .
qed

lemma Seconds_bounds:
  assumes "0 \<le> d"
  shows "0 \<le> Seconds d" and "Seconds d \<le> of_int d / 1000000000 * (1 + ulp) ^ 3"
    and "of_int d / 1000000000 * (1 - ulp) ^ 3 \<le> Seconds d"
proof -
  define a b :: rat where "a = of_int (d div 1000000000)" and "b = of_int (d mod 1000000000)"
  have ab: "0 \<le> a" "0 \<le> b" using assms by (simp_all add: a_def b_def)
  have d: "of_int d / 1000000000 = a + b / 1000000000"
  proof -
    have "(of_int d :: rat) = of_int (d div 1000000000 * 1000000000 + d mod 1000000000)" by simp
    also have "\<dots> = a * 1000000000 + b" unfolding a_def b_def by (simp only: of_int_add of_int_mult of_int_numeral)
    finally show ?thesis by simp
  qed
  have S: "Seconds d = f64 (f64 a + f64 (f64 b / 1000000000))"
    using assms by (simp add: Seconds_def go_div_def go_mod_def a_def b_def minus_div_mult_eq_mod)
  note na = f64_nonneg [OF ab(1)] and nb = f64_nonneg [OF ab(2)]
  have nc: "0 \<le> f64 (f64 b / 1000000000)" by (intro f64_nonneg divide_nonneg_nonneg nb) simp
  show "0 \<le> Seconds d" unfolding S by (intro f64_nonneg add_nonneg_nonneg na nc)
  have p: "(1::rat) \<le> 1 + ulp" by simp
  have "f64 a \<le> a * (1 + ulp) ^ Suc 0" by (rule f64_le_mult) (use ab in simp_all)
  also have "\<dots> \<le> a * (1 + ulp) ^ 2" by (rule mult_left_mono [OF power_increasing [OF _ p] ab(1)]) simp
  finally have 1: "f64 a \<le> a * (1 + ulp) ^ 2" .
  have "f64 b \<le> b * (1 + ulp) ^ Suc 0" by (rule f64_le_mult) (use ab in simp_all)
  then have "f64 b / 1000000000 \<le> b / 1000000000 * (1 + ulp) ^ 1" by (simp add: divide_right_mono)
  then have 2: "f64 (f64 b / 1000000000) \<le> b / 1000000000 * (1 + ulp) ^ Suc 1"
    by (intro f64_le_mult divide_nonneg_nonneg nb) simp_all
  have "f64 a + f64 (f64 b / 1000000000) \<le> (a + b / 1000000000) * (1 + ulp) ^ 2"
    using add_mono [OF 1 2] by (simp only: distrib_right numeral_2_eq_2 One_nat_def)
  then have "Seconds d \<le> (a + b / 1000000000) * (1 + ulp) ^ Suc 2"
    unfolding S by (intro f64_le_mult add_nonneg_nonneg na nc)
  then show "Seconds d \<le> of_int d / 1000000000 * (1 + ulp) ^ 3" by (simp only: d numeral_3_eq_3 numeral_2_eq_2)
  have q: "(0::rat) \<le> 1 - ulp" "(1::rat) - ulp \<le> 1" by simp_all
  have "a * (1 - ulp) ^ 2 \<le> a * (1 - ulp) ^ Suc 0" by (rule mult_left_mono [OF power_decreasing [OF _ q] ab(1)]) simp
  also have "\<dots> \<le> f64 a" by (rule f64_ge_mult) (use ab in simp_all)
  finally have 3: "a * (1 - ulp) ^ 2 \<le> f64 a" .
  have "b * (1 - ulp) ^ Suc 0 \<le> f64 b" by (rule f64_ge_mult) (use ab in simp_all)
  then have "b / 1000000000 * (1 - ulp) ^ 1 \<le> f64 b / 1000000000" by (simp add: divide_right_mono)
  then have 4: "b / 1000000000 * (1 - ulp) ^ Suc 1 \<le> f64 (f64 b / 1000000000)"
    by (intro f64_ge_mult) (use ab in simp_all)
  have "(a + b / 1000000000) * (1 - ulp) ^ 2 \<le> f64 a + f64 (f64 b / 1000000000)"
    using add_mono [OF 3 4] by (simp only: distrib_right numeral_2_eq_2 One_nat_def)
  then have "(a + b / 1000000000) * (1 - ulp) ^ Suc 2 \<le> Seconds d"
    unfolding S by (rule f64_ge_mult [rotated]) (use ab in simp)
  then show "of_int d / 1000000000 * (1 - ulp) ^ 3 \<le> Seconds d" by (simp only: d numeral_3_eq_3 numeral_2_eq_2)
qed

text \<open>The exact number of tokens due after \<open>d\<close> nanoseconds, and the computed one.\<close>

definition exact_tokens :: "int \<Rightarrow> int \<Rightarrow> rat" where
  "exact_tokens rpm d = of_int (d * rpm) / 60000000000"

lemma Seconds_window: "Seconds rl_window = 60"
  by code_simp

lemma recovered_bounds:
  assumes "0 \<le> d" and "0 \<le> rpm"
  defines "v \<equiv> f64 (f64 (Seconds d * f64 (of_int rpm)) / Seconds rl_window)"
  shows "0 \<le> v" and "v \<le> exact_tokens rpm d * (1 + ulp) ^ 6" and "exact_tokens rpm d * (1 - ulp) ^ 6 \<le> v"
proof -
  note S = Seconds_bounds [OF assms(1)]
  let ?s = "of_int d / 1000000000 :: rat" and ?r = "of_int rpm :: rat"
  have s: "0 \<le> ?s" "0 \<le> ?r" using assms by simp_all
  have nr: "0 \<le> f64 ?r" by (rule f64_nonneg [OF s(2)])
  have u: "(0::rat) \<le> 1 + ulp" "(0::rat) \<le> 1 - ulp" by simp_all
  have r1: "f64 ?r \<le> ?r * (1 + ulp) ^ Suc 0" by (rule f64_le_mult) (use s in simp_all)
  have r2: "?r * (1 - ulp) ^ Suc 0 \<le> f64 ?r" by (rule f64_ge_mult) (use s in simp_all)
  have n1: "0 \<le> Seconds d * f64 ?r" using S(1) nr by (rule mult_nonneg_nonneg)
  have n2: "0 \<le> f64 (Seconds d * f64 ?r)" by (rule f64_nonneg [OF n1])
  have v: "v = f64 (f64 (Seconds d * f64 ?r) / 60)" by (simp only: v_def Seconds_window)
  show "0 \<le> v" unfolding v by (intro f64_nonneg divide_nonneg_nonneg n2) simp
  have e: "exact_tokens rpm d = ?s * ?r / 60" by (simp add: exact_tokens_def)
  have "Seconds d * f64 ?r \<le> (?s * (1 + ulp) ^ 3) * (?r * (1 + ulp) ^ Suc 0)"
    by (rule mult_mono [OF S(2) r1]) (use nr s u in simp_all)
  also have "\<dots> = ?s * ?r * (1 + ulp) ^ 4" by (rule mult_pow34)
  finally have "f64 (Seconds d * f64 ?r) \<le> ?s * ?r * (1 + ulp) ^ Suc 4" by (rule f64_le_mult [OF n1])
  then have "f64 (Seconds d * f64 ?r) / 60 \<le> ?s * ?r * (1 + ulp) ^ Suc 4 / 60" by (rule divide_right_mono) simp
  then have "f64 (Seconds d * f64 ?r) / 60 \<le> (?s * ?r / 60) * (1 + ulp) ^ Suc 4" by (simp only: times_divide_eq_left)
  then have "v \<le> (?s * ?r / 60) * (1 + ulp) ^ Suc (Suc 4)"
    unfolding v by (intro f64_le_mult divide_nonneg_nonneg n2) simp_all
  then show "v \<le> exact_tokens rpm d * (1 + ulp) ^ 6" unfolding e by simp
  have "?s * ?r * (1 - ulp) ^ 4 = (?s * (1 - ulp) ^ 3) * (?r * (1 - ulp) ^ Suc 0)"
    by (rule mult_pow34 [symmetric])
  also have "\<dots> \<le> Seconds d * f64 ?r"
    by (rule mult_mono [OF S(3) r2]) (use S(1) s u in simp_all)
  finally have "?s * ?r * (1 - ulp) ^ Suc 4 \<le> f64 (Seconds d * f64 ?r)"
    by (rule f64_ge_mult [rotated]) (rule mult_nonneg_nonneg [OF s])
  then have "?s * ?r * (1 - ulp) ^ Suc 4 / 60 \<le> f64 (Seconds d * f64 ?r) / 60" by (rule divide_right_mono) simp
  then have "(?s * ?r / 60) * (1 - ulp) ^ Suc 4 \<le> f64 (Seconds d * f64 ?r) / 60" by (simp only: times_divide_eq_left)
  then have "(?s * ?r / 60) * (1 - ulp) ^ Suc (Suc 4) \<le> v"
    unfolding v by (rule f64_ge_mult [rotated]) (use s in simp)
  then show "exact_tokens rpm d * (1 - ulp) ^ 6 \<le> v" unfolding e by simp
qed

text \<open>Up to ten thousand tokens the rounding never gives a token too many.\<close>

lemma recovered_upper:
  assumes "0 \<le> d" and "0 \<le> rpm" and "d * rpm \<le> 10000 * 60000000000"
  shows "recovered_tokens rpm d * 60000000000 \<le> d * rpm"
proof (rule ccontr)
  assume "\<not> recovered_tokens rpm d * 60000000000 \<le> d * rpm"
  then have "d * rpm + 1 \<le> recovered_tokens rpm d * 60000000000" by simp
  then have "of_int (d * rpm + 1) \<le> (of_int (recovered_tokens rpm d * 60000000000) :: rat)" by (simp only: of_int_le_iff)
  then have lo: "(of_int (d * rpm) + 1) / 60000000000 \<le> (of_int (recovered_tokens rpm d) :: rat)" by simp
  let ?v = "f64 (f64 (Seconds d * f64 (of_int rpm)) / Seconds rl_window)"
  let ?y = "exact_tokens rpm d"
  have "(of_int (recovered_tokens rpm d) :: rat) \<le> ?v"
    using recovered_bounds(1) [OF assms(1,2)] by (simp add: recovered_tokens_def trunc_def)
  also have "\<dots> \<le> ?y * (1 + ulp) ^ 6" by (rule recovered_bounds(2) [OF assms(1,2)])
  also have "\<dots> \<le> ?y * (1 + 1 / 2 ^ 50)"
  proof (rule mult_left_mono)
    show "(1 + ulp) ^ 6 \<le> 1 + 1 / 2 ^ 50" by (simp add: power_divide eval_nat_numeral divide_simps)
    show "0 \<le> ?y" using assms by (simp add: exact_tokens_def)
  qed
  finally have "(of_int (d * rpm) + 1) / 60000000000 \<le> ?y * (1 + 1 / 2 ^ 50)" using lo by linarith
  moreover have "of_int (d * rpm) \<le> (of_int (10000 * 60000000000) :: rat)" using assms(3) by (simp only: of_int_le_iff)
  then have "?y \<le> 10000" by (simp add: exact_tokens_def)
  ultimately show False by (simp add: exact_tokens_def)
qed

section \<open>The bucket\<close>

text \<open>A bucket never holds more than the limit, and gains at most what is due.\<close>

lemma recovered_in_range:
  assumes "0 \<le> d" "d \<le> int64_max" and "0 \<le> rpm" "rpm \<le> 10000"
  shows "recovered_tokens rpm d \<le> 2 ^ 62"
proof -
  let ?v = "f64 (f64 (Seconds d * f64 (of_int rpm)) / Seconds rl_window)"
  have "d * rpm \<le> int64_max * 10000" using assms by (intro mult_mono) simp_all
  then have "of_int (d * rpm) \<le> (of_int (int64_max * 10000) :: rat)" by (simp only: of_int_le_iff)
  then have y: "exact_tokens rpm d \<le> 2 ^ 61" by (simp add: exact_tokens_def int64_max_def)
  have "?v \<le> exact_tokens rpm d * (1 + ulp) ^ 6" by (rule recovered_bounds(2) [OF assms(1,3)])
  also have "\<dots> \<le> 2 ^ 61 * 2"
  proof (rule mult_mono [OF y])
    show "(1 + ulp) ^ 6 \<le> 2" by (simp add: power_divide eval_nat_numeral divide_simps)
  qed simp_all
  finally have "?v \<le> 2 ^ 62" by simp
  moreover have "(of_int (recovered_tokens rpm d) :: rat) \<le> ?v"
    using recovered_bounds(1) [OF assms(1,3)] by (simp add: recovered_tokens_def trunc_def)
  ultimately have "(of_int (recovered_tokens rpm d) :: rat) \<le> of_int (2 ^ 62)" by simp
  then show ?thesis by (simp only: of_int_le_iff)
qed

lemma refill_bounds:
  assumes d: "0 \<le> d" "d \<le> int64_max" and rpm: "0 < rpm" "rpm \<le> 10000" and t: "0 \<le> t" "t \<le> rpm"
  shows "t \<le> refill rpm t d" and "refill rpm t d \<le> rpm"
    and "refill rpm t d * 60000000000 \<le> t * 60000000000 + d * rpm"
proof -
  let ?r = "recovered_tokens rpm d"
  have rr: "?r \<le> 2 ^ 62" using recovered_in_range d rpm by simp
  have w: "wrap64 (t + ?r) = t + ?r" if "0 < ?r"
    by (rule wrap64_id) (use that rr t rpm in \<open>simp add: in_int64_iff\<close>)
  have eq: "refill rpm t d = (if 0 < ?r then min rpm (t + ?r) else t)"
    using w by (auto simp: refill_def Let_def min_def)
  then show "t \<le> refill rpm t d" "refill rpm t d \<le> rpm" using t by auto
  have n: "0 \<le> d * rpm" using d rpm by simp
  show "refill rpm t d * 60000000000 \<le> t * 60000000000 + d * rpm"
  proof (cases "d * rpm \<le> 10000 * 60000000000")
    case True
    have "?r * 60000000000 \<le> d * rpm" using recovered_upper [OF d(1) _ True] rpm by simp
    then show ?thesis using n eq by (auto simp: min_def)
  next
    case False
    then show ?thesis using eq t rpm by (auto simp: min_def)
  qed
qed

lemma time_sub_exact: "in_int64 (now - t) \<Longrightarrow> time_sub now t = now - t"
  by (simp add: time_sub_def in_int64_def)

lemma time_sub_bounds:
  "t \<le> now \<Longrightarrow> 0 \<le> time_sub now t \<and> time_sub now t \<le> now - t \<and> time_sub now t \<le> int64_max"
  by (auto simp: time_sub_def int64_min_def int64_max_def)

section \<open>Throughput\<close>

datatype rate_event = Request string int | Cleanup int

fun event_time :: "rate_event \<Rightarrow> int" where
  "event_time (Request ip now) = now"
| "event_time (Cleanup now) = now"

fun rate_step :: "rate_event \<Rightarrow> rate_limiter \<Rightarrow> rate_limiter" where
  "rate_step (Request ip now) rl = snd (Allow ip now rl)"
| "rate_step (Cleanup now) rl = cleanup now rl"

text \<open>The requests of a client that were let through.\<close>

fun admitted :: "string \<Rightarrow> rate_event list \<Rightarrow> rate_limiter \<Rightarrow> int" where
  "admitted ip [] rl = 0"
| "admitted ip (ev # evs) rl =
     (case ev of Request k now \<Rightarrow> if k = ip \<and> fst (fst (Allow k now rl)) then 1 else 0 | Cleanup now \<Rightarrow> 0) +
     admitted ip evs (rate_step ev rl)"

text \<open>
  \<open>n\<close> requests were let through since \<open>t0\<close>, and it is \<open>now\<close>: the tokens left and the requests counted
  do not exceed what was due. A client without an entry counts as one with a full bucket, and before
  the first request of the period the bucket may be as full as it likes.
\<close>

definition bucket_inv :: "string \<Rightarrow> int \<Rightarrow> int \<Rightarrow> int \<Rightarrow> rate_limiter \<Rightarrow> bool" where
  "bucket_inv ip t0 now n rl \<longleftrightarrow> t0 \<le> now \<and>
     (case rl_entries rl ip of
        None \<Rightarrow> n * 60000000000 \<le> (now - t0) * rl_rpm rl
      | Some e \<Rightarrow> 0 \<le> re_tokens e \<and> re_tokens e \<le> rl_rpm rl \<and> re_last e \<le> now \<and>
          (n = 0 \<or> t0 \<le> re_last e \<and>
             (n + re_tokens e) * 60000000000 \<le> rl_rpm rl * 60000000000 + (re_last e - t0) * rl_rpm rl))"

text \<open>The part of it that speaks of the bucket alone.\<close>

definition well_filled :: "string \<Rightarrow> int \<Rightarrow> rate_limiter \<Rightarrow> bool" where
  "well_filled ip now rl \<longleftrightarrow>
     (case rl_entries rl ip of None \<Rightarrow> True
      | Some e \<Rightarrow> 0 \<le> re_tokens e \<and> re_tokens e \<le> rl_rpm rl \<and> re_last e \<le> now)"

lemma bucket_inv_filled: "bucket_inv ip t0 now n rl \<Longrightarrow> well_filled ip now rl"
  by (auto simp: bucket_inv_def well_filled_def split: option.splits)

lemma filled_bucket_inv: "well_filled ip now rl \<Longrightarrow> bucket_inv ip now now 0 rl"
  by (auto simp: bucket_inv_def well_filled_def split: option.splits)

lemma bucket_inv_later:
  assumes "bucket_inv ip t0 now n rl" and "now \<le> now'" and "0 \<le> rl_rpm rl"
  shows "bucket_inv ip t0 now' n rl"
proof -
  have "(now - t0) * rl_rpm rl \<le> (now' - t0) * rl_rpm rl" using assms(2,3) by (intro mult_right_mono) simp_all
  then show ?thesis using assms(1,2) by (auto simp: bucket_inv_def split: option.splits)
qed

lemma bucket_inv_bound:
  assumes "bucket_inv ip t0 now n rl" and "0 \<le> rl_rpm rl"
  shows "n * 60000000000 \<le> rl_rpm rl * 60000000000 + (now - t0) * rl_rpm rl"
proof -
  have t: "0 \<le> (now - t0) * rl_rpm rl" using assms by (simp add: bucket_inv_def)
  show ?thesis
  proof (cases "rl_entries rl ip")
    case None
    then show ?thesis using assms by (simp add: bucket_inv_def)
  next
    case (Some e)
    then have "(re_last e - t0) * rl_rpm rl \<le> (now - t0) * rl_rpm rl"
      using assms by (intro mult_right_mono) (simp_all add: bucket_inv_def)
    then show ?thesis using assms Some t by (auto simp: bucket_inv_def algebra_simps)
  qed
qed

lemma bucket_inv_cong:
  "rl_entries rl' ip = rl_entries rl ip \<Longrightarrow> rl_rpm rl' = rl_rpm rl \<Longrightarrow>
   bucket_inv ip t0 now n rl' = bucket_inv ip t0 now n rl"
  unfolding bucket_inv_def by presburger

lemma Allow_other: "k \<noteq> ip \<Longrightarrow> rl_entries (snd (Allow k now rl)) ip = rl_entries rl ip"
  by (simp add: Allow_def Let_def)

lemma rate_step_rpm [simp]: "rl_rpm (rate_step ev rl) = rl_rpm rl"
  by (cases ev) (simp_all add: Allow_def Let_def cleanup_def)

lemma Allow_tokens:
  fixes ip now rl
  defines "e \<equiv> case rl_entries rl ip of None \<Rightarrow> \<lparr>re_tokens = rl_rpm rl, re_last = now\<rparr> | Some e \<Rightarrow> e"
  defines "t \<equiv> refill (rl_rpm rl) (re_tokens e) (time_sub now (re_last e))"
  shows "fst (fst (Allow ip now rl)) \<longleftrightarrow> 0 < t"
    and "rl_entries (snd (Allow ip now rl)) ip =
      Some \<lparr>re_tokens = (if 0 < t then t - 1 else t), re_last = now\<rparr>"
  by (auto simp: Allow_def Let_def e_def t_def)

lemma Allow_bucket_inv:
  assumes inv: "bucket_inv ip t0 now n rl" and rpm: "0 < rl_rpm rl" "rl_rpm rl \<le> 10000" and now: "now \<le> now'"
  shows "bucket_inv ip t0 now' (n + (if fst (fst (Allow ip now' rl)) then 1 else 0)) (snd (Allow ip now' rl))"
proof -
  let ?e = "case rl_entries rl ip of None \<Rightarrow> \<lparr>re_tokens = rl_rpm rl, re_last = now'\<rparr> | Some e \<Rightarrow> e"
  let ?d = "time_sub now' (re_last ?e)"
  let ?t = "refill (rl_rpm rl) (re_tokens ?e) ?d"
  have r: "rl_rpm (snd (Allow ip now' rl)) = rl_rpm rl" by (simp add: Allow_def Let_def)
  have e: "0 \<le> re_tokens ?e" "re_tokens ?e \<le> rl_rpm rl" "re_last ?e \<le> now'" "t0 \<le> now'"
    using inv rpm now by (auto simp: bucket_inv_def split: option.splits)
  have d: "0 \<le> ?d" "?d \<le> int64_max" "?d \<le> now' - re_last ?e" using time_sub_bounds [OF e(3)] by simp_all
  note t = refill_bounds [OF d(1,2) rpm e(1,2)]
  have dr: "?d * rl_rpm rl \<le> (now' - re_last ?e) * rl_rpm rl" using d(3) rpm by (intro mult_right_mono) simp_all
  have nn: "0 \<le> (now' - t0) * rl_rpm rl" using e(4) rpm by simp
  have "(n + ?t) * 60000000000 \<le> rl_rpm rl * 60000000000 + (now' - t0) * rl_rpm rl"
  proof (cases "rl_entries rl ip = None \<or> n \<noteq> 0")
    case True
    then have "(n + re_tokens ?e) * 60000000000 \<le> rl_rpm rl * 60000000000 + (re_last ?e - t0) * rl_rpm rl"
      using bucket_inv_later [OF inv now] rpm by (auto simp: bucket_inv_def algebra_simps split: option.splits)
    then show ?thesis using t(3) dr by (simp add: algebra_simps)
  next
    case False
    then have n: "n = 0" by blast
    show ?thesis unfolding n using t(2) nn by simp
  qed
  then show ?thesis
    using t e Allow_tokens [where ip = ip and now = now' and rl = rl] r
    by (auto simp: bucket_inv_def algebra_simps)
qed

lemma cleanup_bucket_inv:
  assumes inv: "bucket_inv ip t0 now n rl" and rpm: "0 < rl_rpm rl" and now: "now \<le> now'"
  shows "bucket_inv ip t0 now' n (cleanup now' rl)"
proof (cases "rl_entries rl ip")
  case None
  then show ?thesis using bucket_inv_later [OF inv now] rpm by (simp add: bucket_inv_def cleanup_def)
next
  case (Some e)
  show ?thesis
  proof (cases "time_sub now' (re_last e) > rl_window")
    case True
    have "re_last e \<le> now'" and nn: "0 \<le> (now' - t0) * rl_rpm rl" using inv Some now rpm by (simp_all add: bucket_inv_def)
    then have "60000000000 \<le> now' - re_last e" using time_sub_bounds True by (fastforce simp: rl_window_def)
    then have "60000000000 * rl_rpm rl \<le> (now' - re_last e) * rl_rpm rl" using rpm by (intro mult_right_mono) simp_all
    then show ?thesis using True Some inv now nn by (auto simp: bucket_inv_def cleanup_def algebra_simps)
  next
    case False
    then show ?thesis using Some bucket_inv_later [OF inv now] rpm by (simp add: bucket_inv_def cleanup_def)
  qed
qed

lemma rate_step_bucket_inv:
  assumes inv: "bucket_inv ip t0 now n rl" and rpm: "0 < rl_rpm rl" "rl_rpm rl \<le> 10000" and le: "now \<le> event_time ev"
  defines "m \<equiv> (case ev of Request k t \<Rightarrow> if k = ip \<and> fst (fst (Allow k t rl)) then 1 else 0 | Cleanup t \<Rightarrow> (0::int))"
  shows "bucket_inv ip t0 (event_time ev) (n + m) (rate_step ev rl)"
proof (cases ev)
  case (Request k t)
  show ?thesis
  proof (cases "k = ip")
    case True
    then show ?thesis using Allow_bucket_inv [OF inv rpm, of t] le Request by (simp add: m_def)
  next
    case False
    then have "rl_entries (rate_step ev rl) ip = rl_entries rl ip" using Request by (simp add: Allow_other)
    from bucket_inv_cong [OF this rate_step_rpm] bucket_inv_later [OF inv le] rpm
    show ?thesis using False Request by (simp add: m_def)
  qed
next
  case (Cleanup t)
  then show ?thesis using cleanup_bucket_inv [OF inv rpm(1)] le by (simp add: m_def)
qed

lemma admitted_bound:
  assumes "bucket_inv ip t0 now n rl" and "0 < rl_rpm rl" "rl_rpm rl \<le> 10000"
    and "sorted_wrt (\<le>) (now # map event_time evs)"
  shows "(n + admitted ip evs rl) * 60000000000 \<le>
    rl_rpm rl * 60000000000 + (last (now # map event_time evs) - t0) * rl_rpm rl"
  using assms
proof (induction evs arbitrary: now n rl)
  case Nil
  then show ?case using bucket_inv_bound [OF Nil(1)] by simp
next
  case (Cons ev evs)
  have le: "now \<le> event_time ev" and so: "sorted_wrt (\<le>) (event_time ev # map event_time evs)" using Cons.prems(4) by simp_all
  from Cons.IH [OF rate_step_bucket_inv [OF Cons.prems(1-3) le] _ _ so] Cons.prems(2,3)
  show ?case by (simp add: add.assoc)
qed

text \<open>The bucket of every client is well filled at all times.\<close>

lemma fold_well_filled:
  assumes "well_filled ip now rl" and "0 < rl_rpm rl" "rl_rpm rl \<le> 10000" and "sorted_wrt (\<le>) (now # map event_time evs)"
  shows "well_filled ip (last (now # map event_time evs)) (fold rate_step evs rl) \<and> rl_rpm (fold rate_step evs rl) = rl_rpm rl"
  using assms
proof (induction evs arbitrary: now rl)
  case Nil
  then show ?case by simp
next
  case (Cons ev evs)
  have le: "now \<le> event_time ev" and so: "sorted_wrt (\<le>) (event_time ev # map event_time evs)" using Cons.prems(4) by simp_all
  have "well_filled ip (event_time ev) (rate_step ev rl)"
    using rate_step_bucket_inv [OF filled_bucket_inv [OF Cons.prems(1)] Cons.prems(2,3) le] by (rule bucket_inv_filled)
  from Cons.IH [OF this _ _ so] Cons.prems(2,3) show ?case by simp
qed

section \<open>Recovery\<close>

lemma recovered_lower:
  assumes "0 \<le> d" and "0 \<le> rpm" and "61000000000 \<le> d * rpm"
  shows "1 \<le> recovered_tokens rpm d"
proof -
  let ?v = "f64 (f64 (Seconds d * f64 (of_int rpm)) / Seconds rl_window)"
  have "of_int 61000000000 \<le> (of_int (d * rpm) :: rat)" using assms(3) by (simp only: of_int_le_iff)
  then have "61 / 60 \<le> exact_tokens rpm d" by (simp add: exact_tokens_def)
  then have "61 / 60 * (1 - ulp) ^ 6 \<le> exact_tokens rpm d * (1 - ulp) ^ 6" by (rule mult_right_mono) simp
  also have "\<dots> \<le> ?v" by (rule recovered_bounds(3) [OF assms(1,2)])
  finally have "61 / 60 * (1 - ulp) ^ 6 \<le> ?v" .
  moreover have "1 \<le> 61 / 60 * (1 - ulp) ^ 6" by (simp add: power_divide eval_nat_numeral divide_simps)
  ultimately have "1 \<le> ?v" by (rule order_trans [rotated])
  then show ?thesis by (simp add: recovered_tokens_def trunc_def le_floor_iff)
qed

lemma refill_none:
  assumes "0 \<le> d" and "0 \<le> rpm" and "d * rpm < 60000000000"
  shows "refill rpm t d = t"
proof -
  have "recovered_tokens rpm d * 60000000000 \<le> d * rpm" by (rule recovered_upper) (use assms in simp_all)
  then have "recovered_tokens rpm d \<le> 0" using assms(3) by linarith
  then show ?thesis by (simp add: refill_def Let_def)
qed

lemma refill_some:
  assumes "0 \<le> d" "d \<le> int64_max" and "0 < rpm" "rpm \<le> 10000" and "61000000000 \<le> d * rpm" and "0 \<le> t" "t \<le> rpm"
  shows "0 < refill rpm t d"
proof -
  have r: "1 \<le> recovered_tokens rpm d" using recovered_lower assms by simp
  have rr: "recovered_tokens rpm d \<le> 2 ^ 62" using recovered_in_range assms by simp
  have "wrap64 (t + recovered_tokens rpm d) = t + recovered_tokens rpm d"
    by (rule wrap64_id) (use r rr assms in \<open>simp add: in_int64_iff\<close>)
  with r assms show ?thesis by (simp add: refill_def Let_def)
qed

text \<open>An empty bucket polled faster than it fills stays empty: every request restarts the clock.\<close>

fun gaps_below :: "int \<Rightarrow> int \<Rightarrow> int list \<Rightarrow> bool" where
  "gaps_below rpm t [] = True"
| "gaps_below rpm t (u # us) \<longleftrightarrow> t \<le> u \<and> (u - t) * rpm < 60000000000 \<and> gaps_below rpm u us"

lemma Allow_empty:
  assumes "rl_entries rl ip = Some \<lparr>re_tokens = 0, re_last = t\<rparr>" and "0 < rl_rpm rl"
    and "t \<le> u" and "(u - t) * rl_rpm rl < 60000000000"
  shows "\<not> fst (fst (Allow ip u rl))" and "rl_entries (snd (Allow ip u rl)) ip = Some \<lparr>re_tokens = 0, re_last = u\<rparr>"
proof -
  have d: "0 \<le> time_sub u t" "time_sub u t \<le> u - t" using time_sub_bounds [OF assms(3)] by simp_all
  have "time_sub u t * rl_rpm rl \<le> (u - t) * rl_rpm rl" using d(2) assms(2) by (intro mult_right_mono) simp_all
  also note assms(4)
  finally have z: "refill (rl_rpm rl) 0 (time_sub u t) = 0" by (intro refill_none) (use d assms in simp_all)
  show "\<not> fst (fst (Allow ip u rl))" "rl_entries (snd (Allow ip u rl)) ip = Some \<lparr>re_tokens = 0, re_last = u\<rparr>"
    using Allow_tokens [where ip = ip and now = u and rl = rl] assms(1) z by simp_all
qed

lemma admitted_starved:
  assumes "rl_entries rl ip = Some \<lparr>re_tokens = 0, re_last = t\<rparr>" and "0 < rl_rpm rl" and "gaps_below (rl_rpm rl) t us"
  shows "admitted ip (map (Request ip) us) rl = 0"
  using assms
proof (induction us arbitrary: t rl)
  case Nil
  then show ?case by simp
next
  case (Cons u us)
  have "rl_rpm (snd (Allow ip u rl)) = rl_rpm rl" by (simp add: Allow_def Let_def)
  with Cons show ?case using Allow_empty [OF Cons.prems(1,2), of u] by simp
qed

lemma Allow_fresh:
  assumes "rl_entries rl ip = None" and "0 < rl_rpm rl" "rl_rpm rl \<le> 10000"
  shows "fst (fst (Allow ip now rl))"
proof -
  have "0 \<le> time_sub now now" "time_sub now now \<le> int64_max" by (simp_all add: time_sub_def int64_min_def int64_max_def)
  then have "rl_rpm rl \<le> refill (rl_rpm rl) (rl_rpm rl) (time_sub now now)" using assms by (intro refill_bounds) simp_all
  then show ?thesis using Allow_tokens(1) [where ip = ip and now = now and rl = rl] assms by simp
qed


lemma new_rpm [simp]: "rl_rpm (newRateLimiter rpm) = rpm" "rl_entries (newRateLimiter rpm) = Map.empty"
  by (simp_all add: newRateLimiter_def)

lemma well_filled_new: "well_filled ip now (newRateLimiter rpm)"
  by (simp add: well_filled_def)

section \<open>Properties\<close>

text \<open>
  Property C30: the throughput of a client. In any stretch of any history of requests and clean-ups, whose
  times do not go back, a client is let through at most as often as a full bucket and the time that
  passes in the stretch allow: \<open>rpm + rpm * minutes\<close>. The limit is at most ten thousand per minute, up to
  which the floating-point arithmetic never gives a token too many.
\<close>

theorem rate_limit_throughput:
  assumes "0 < rpm" and "rpm \<le> 10000" and "sorted_wrt (\<le>) (map event_time (before @ ev # during))"
  shows "admitted ip (ev # during) (fold rate_step before (newRateLimiter rpm)) * 60000000000 \<le>
    rpm * 60000000000 + (last (map event_time (ev # during)) - event_time ev) * rpm"
proof -
  let ?rl = "fold rate_step before (newRateLimiter rpm)"
  have so: "sorted_wrt (\<le>) (map event_time before)" "\<forall>x \<in> set before. event_time x \<le> event_time ev"
    "sorted_wrt (\<le>) (event_time ev # map event_time (ev # during))" using assms(3) by (auto simp: sorted_wrt_append)
  have "well_filled ip (event_time ev) ?rl \<and> rl_rpm ?rl = rpm"
  proof (cases before)
    case Nil
    then show ?thesis by (simp add: well_filled_new)
  next
    case (Cons x xs)
    have s: "sorted_wrt (\<le>) (event_time x # map event_time (x # xs))" using so(1) Cons by simp
    note f = fold_well_filled [OF well_filled_new [of ip _ rpm], of "event_time x" before]
    have "well_filled ip (last (event_time x # map event_time before)) ?rl \<and> rl_rpm ?rl = rpm"
      using f assms(1,2) s Cons by simp
    moreover have "last (event_time x # map event_time before) \<le> event_time ev" using so(2) Cons by (simp add: last_map)
    ultimately show ?thesis by (auto simp: well_filled_def split: option.splits)
  qed
  then have "(0 + admitted ip (ev # during) ?rl) * 60000000000 \<le>
      rpm * 60000000000 + (last (event_time ev # map event_time (ev # during)) - event_time ev) * rpm"
    using admitted_bound [OF filled_bucket_inv [of ip "event_time ev" ?rl] _ _ so(3)] assms(1,2) by simp
  then show ?thesis by simp
qed

theorem rate_limit_throughput_witness:
  "admitted ''192.0.2.1'' [Request ''192.0.2.1'' 0, Request ''192.0.2.1'' 0]
     (fold rate_step [Request ''192.0.2.1'' 0] (newRateLimiter 2)) \<le> 2"
  using rate_limit_throughput [of 2 "[Request ''192.0.2.1'' 0]" "Request ''192.0.2.1'' 0" "[Request ''192.0.2.1'' 0]" "''192.0.2.1''"]
  by simp



text \<open>
  Patience is rewarded. A client that has waited for 61 seconds divided by the limit, in
  particular one that has waited for 61 seconds, is let through.
\<close>

theorem rate_limit_recovers:
  assumes "0 < rl_rpm rl" and "rl_rpm rl \<le> 10000" and "rl_entries rl ip = Some e"
    and "0 \<le> re_tokens e" and "re_tokens e \<le> rl_rpm rl"
    and "re_last e \<le> now" and "now - re_last e \<le> int64_max" and "61000000000 \<le> (now - re_last e) * rl_rpm rl"
  shows "fst (fst (Allow ip now rl))"
proof -
  have "time_sub now (re_last e) = now - re_last e"
    by (rule time_sub_exact) (use assms in \<open>simp add: in_int64_def int64_min_def\<close>)
  then have "0 < refill (rl_rpm rl) (re_tokens e) (time_sub now (re_last e))"
    using refill_some [of "now - re_last e" "rl_rpm rl" "re_tokens e"] assms by simp
  then show ?thesis using Allow_tokens(1) [where ip = ip and now = now and rl = rl] assms(3) by simp
qed

theorem rate_limit_recovers_witness:
  "fst (fst (Allow ''192.0.2.1'' 6100000000 \<lparr>rl_rpm = 10, rl_entries = [''192.0.2.1'' \<mapsto> \<lparr>re_tokens = 0, re_last = 0\<rparr>]\<rparr>))"
  by (rule rate_limit_recovers [where e = "\<lparr>re_tokens = 0, re_last = 0\<rparr>"]) (simp_all add: int64_max_def)

text \<open>
  The limit can be stepped around. The bucket of a request is named by its
  \<open>X-Forwarded-For\<close> header, so a request with a value the limiter has not seen reaches the handler,
  whatever was sent before it.
\<close>

theorem forwarded_for_bypass:
  assumes "0 < rl_rpm rl" and "rl_rpm rl \<le> 10000" and "rq_header r ''X-Forwarded-For'' \<noteq> []"
    and "rl_entries rl (trim_space (hd (split_on (CHR '','') (rq_header r ''X-Forwarded-For'')))) = None"
  shows "\<exists>w'. fst (RateLimit now next r w (rl, st)) = fst (next r w' st)"
proof -
  have k: "getClientIP r = trim_space (hd (split_on (CHR '','') (rq_header r ''X-Forwarded-For'')))"
    using assms(3) by (simp add: getClientIP_def)
  obtain x rl' where x: "Allow (getClientIP r) now rl = (x, rl')" by fastforce
  obtain a n t where "x = (a, n, t)" by (cases x)
  with x have A: "Allow (getClientIP r) now rl = ((a, n, t), rl')" by simp
  have "a" using Allow_fresh [of rl "getClientIP r" now] assms(1,2,4) k A by simp
  then show ?thesis using A by (auto simp: RateLimit_def Let_def case_prod_beta)
qed

theorem forwarded_for_bypass_witness:
  "\<exists>w'. fst (RateLimit 0 (\<lambda>r w st. (writeJSON w 200 (JBool True), st))
     (blank_request\<lparr>rq_header := (\<lambda>name. ''a'')\<rparr>) fresh_writer
     (\<lparr>rl_rpm = 10, rl_entries = [''192.0.2.1'' \<mapsto> \<lparr>re_tokens = 0, re_last = 0\<rparr>]\<rparr>, ())) = writeJSON w' 200 (JBool True)"
proof -
  have "trim_space (hd (split_on (CHR '','') ''a'')) = ''a''" by code_simp
  then show ?thesis
    using forwarded_for_bypass [of "\<lparr>rl_rpm = 10, rl_entries = [''192.0.2.1'' \<mapsto> \<lparr>re_tokens = 0, re_last = 0\<rparr>]\<rparr>"
        "blank_request\<lparr>rq_header := (\<lambda>name. ''a'')\<rparr>" 0 "\<lambda>r w st. (writeJSON w 200 (JBool True), st)" fresh_writer "()"]
    by (simp add: blank_request_def)
qed

end
