(* ===== verification/Middleware.thy ===== *)
theory Middleware
  imports Http "HOL-Library.Word"
begin

unbundle bit_operations_syntax

text \<open>
  The stateless middlewares of \<open>internal/middleware\<close>: request IDs, security headers, the request log,
  CORS and the body limit. Each takes the handler behind it and is a handler itself; the response
  writer it passes on carries the headers it has set.
\<close>

section \<open>Request IDs\<close>

text \<open>\<open>b\<close> is what \<open>rand.Read\<close> puts into the 16-byte buffer.\<close>

definition generateUUIDv4 :: "string \<Rightarrow> string" where
  "generateUUIDv4 b0 =
     (let b1 = b0[6 := mk ((byte (b0 ! 6) AND 15) OR 64)];
          b = b1[8 := mk ((byte (b1 ! 8) AND 63) OR 128)];
          h = hex_encode b
      in take 8 h @ ''-'' @ take 4 (drop 8 h) @ ''-'' @ take 4 (drop 12 h) @ ''-'' @ take 4 (drop 16 h) @ ''-'' @
         take 12 (drop 20 h))"

definition RequestID :: "string \<Rightarrow> string \<Rightarrow> 's handler \<Rightarrow> 's handler" where
  "RequestID headerName rnd next r w st =
     (let requestID = (if rq_header r headerName = [] then generateUUIDv4 rnd else rq_header r headerName)
      in next (r\<lparr>rq_request_id := Some requestID\<rparr>) (set_header ''X-Request-ID'' requestID w) st)"

definition GetRequestIDFromContext :: "request \<Rightarrow> string" where
  "GetRequestIDFromContext r = (case rq_request_id r of None \<Rightarrow> [] | Some s \<Rightarrow> s)"

section \<open>Security headers\<close>

definition strictTransportSecurity :: string where
  "strictTransportSecurity = ''max-age=63072000; includeSubDomains; preload''"

definition contentSecurityPolicy :: string where
  "contentSecurityPolicy = (let q = [CHR 0x27] in
     ''default-src '' @ q @ ''self'' @ q @ ''; script-src '' @ q @ ''self'' @ q @ ''; style-src '' @ q @ ''self'' @ q @ '' '' @
     q @ ''unsafe-inline'' @ q @ ''; img-src '' @ q @ ''self'' @ q @ '' data:; frame-src '' @ q @ ''self'' @ q)"

definition SecurityHeaders :: "'s handler \<Rightarrow> 's handler" where
  "SecurityHeaders next r w st =
     next r
       (set_header ''X-Frame-Options'' ''DENY''
         (set_header ''Content-Security-Policy'' contentSecurityPolicy
           (set_header ''Referrer-Policy'' ''no-referrer''
             (set_header ''X-Content-Type-Options'' ''nosniff''
               (set_header ''Strict-Transport-Security'' strictTransportSecurity w))))) st"

section \<open>The request log\<close>

record log_entry =
  lg_method :: string
  lg_path :: string
  lg_status :: int
  lg_duration :: int
  lg_remote_addr :: string

text \<open>The log grows by one entry after the handler has answered.\<close>

definition RequestLogging :: "int \<Rightarrow> int \<Rightarrow> 's handler \<Rightarrow> (log_entry list \<times> 's) handler" where
  "RequestLogging start end_time next r w st =
     (case next r w (snd st) of (res, s') \<Rightarrow>
        (res, (fst st @ [\<lparr>lg_method = rq_method r, lg_path = rq_path r, lg_status = rs_status res,
                          lg_duration = end_time - start, lg_remote_addr = rq_remote_addr r\<rparr>], s')))"

section \<open>CORS\<close>

definition CORS :: "string \<Rightarrow> 's handler \<Rightarrow> 's handler" where
  "CORS allowedOrigin next r w st =
     (let origin = rq_header r ''Origin'';
          w1 = (if origin \<noteq> [] \<and> origin = allowedOrigin
                then set_header ''Access-Control-Max-Age'' ''300''
                      (set_header ''Access-Control-Allow-Headers'' ''Content-Type, Authorization, X-Lite-Mail-Ingest-PSK''
                        (set_header ''Access-Control-Allow-Methods'' ''GET, POST, OPTIONS''
                          (set_header ''Vary'' ''Origin''
                            (set_header ''Access-Control-Allow-Origin'' allowedOrigin w))))
                else w)
      in if rq_method r = ''OPTIONS''
         then (\<lparr>rs_status = 204, rs_writer = w1, rs_body = NoBody\<rparr>, st)
         else next r w1 st)"

section \<open>The body limit\<close>

definition body_limit :: "int \<Rightarrow> int" where
  "body_limit maxBytes = (if maxBytes \<le> 0 then 1048576 else maxBytes)"

definition MaxBodySize :: "int \<Rightarrow> 's handler \<Rightarrow> 's handler" where
  "MaxBodySize maxBytes next r w st =
     (if rq_content_length r > body_limit maxBytes
      then (\<lparr>rs_status = 413, rs_writer = set_header ''Content-Type'' ''application/json'' w,
             rs_body = Json (json_error ''request body too large'')\<rparr>, st)
      else next (r\<lparr>rq_body := max_bytes_reader (body_limit maxBytes) (rq_body r)\<rparr>) w st)"

section \<open>Request IDs are version 4 UUIDs\<close>

lemma hex_encode_Cons: "hex_encode (c # s) = hex_digit (byte c div 16) # hex_digit (byte c mod 16) # hex_encode s"
  by (simp add: hex_encode_def)

lemma hex_encode_Nil [simp]: "hex_encode [] = []"
  by (simp add: hex_encode_def)

lemma or_high: "m < 2 ^ k \<Longrightarrow> m OR 2 ^ k = 2 ^ k + (m::nat)"
proof -
  assume "m < 2 ^ k"
  then have "m AND 2 ^ k = 0" by (simp add: and_exp_eq_0_iff_not_bit bit_iff_odd)
  then show ?thesis using disjunctive_add_eq_or [of m "2 ^ k"] by simp
qed

lemma masked_bytes: "(n AND 15) OR 64 = 64 + n mod (16::nat)" "(n AND 63) OR 128 = 128 + n mod (64::nat)"
proof -
  have "n AND 15 = n mod 16" "n AND 63 = n mod 64"
    using take_bit_eq_mask [of 4 n] take_bit_eq_mask [of 6 n] by (simp_all add: take_bit_eq_mod mask_eq_exp_minus_1)
  then show "(n AND 15) OR 64 = 64 + n mod 16" "(n AND 63) OR 128 = 128 + n mod 64"
    using or_high [of "n mod 16" 6] or_high [of "n mod 64" 7] by simp_all
qed

lemma list16:
  assumes "length b = 16"
  obtains c0 c1 c2 c3 c4 c5 c6 c7 c8 c9 c10 c11 c12 c13 c14 c15 where
    "b = [c0, c1, c2, c3, c4, c5, c6, c7, c8, c9, c10, c11, c12, c13, c14, c15]"
  using assms by (auto simp: eval_nat_numeral length_Suc_conv)

lemma uuid_expand:
  fixes c0 c1 c2 c3 c4 c5 c6 c7 c8 c9 c10 c11 c12 c13 c14 c15 :: char
  defines "x c \<equiv> [hex_digit (byte c div 16), hex_digit (byte c mod 16)]"
  shows "generateUUIDv4 [c0, c1, c2, c3, c4, c5, c6, c7, c8, c9, c10, c11, c12, c13, c14, c15] =
    x c0 @ x c1 @ x c2 @ x c3 @ ''-'' @ x c4 @ x c5 @ ''-'' @ x (mk (64 + byte c6 mod 16)) @ x c7 @ ''-'' @
    x (mk (128 + byte c8 mod 64)) @ x c9 @ ''-'' @ x c10 @ x c11 @ x c12 @ x c13 @ x c14 @ x c15"
  by (simp add: masked_bytes generateUUIDv4_def Let_def hex_encode_Cons x_def)

text \<open>The shape of a UUID: five groups of hexadecimal digits, version 4, variant 10.\<close>

definition is_uuid4 :: "string \<Rightarrow> bool" where
  "is_uuid4 s \<longleftrightarrow> length s = 36 \<and>
     list_all (\<lambda>i. if i \<in> {8, 13, 18, 23} then s ! i = CHR ''-'' else is_hex (s ! i)) [0..<36] \<and>
     s ! 14 = CHR ''4'' \<and> s ! 19 \<in> set ''89ab''"

lemma hex_digits: "hex_digit 4 = CHR ''4''" "hex_digit 8 = CHR ''8''" "hex_digit 9 = CHR ''9''"
  "hex_digit 10 = CHR ''a''" "hex_digit 11 = CHR ''b''"
  by code_simp+

lemma hex_digit_version: "m < 16 \<Longrightarrow> hex_digit ((64 + m) div 16) = CHR ''4''"
proof -
  assume "m < 16"
  then have "(64 + m) div 16 = 4" by simp
  then show ?thesis by (simp only: hex_digits)
qed

lemma hex_digit_variant: "m < 64 \<Longrightarrow> hex_digit ((128 + m) div 16) \<in> set ''89ab''"
proof -
  assume "m < 64"
  then have "(128 + m) div 16 = 8 \<or> (128 + m) div 16 = 9 \<or> (128 + m) div 16 = 10 \<or> (128 + m) div 16 = 11" by linarith
  then show ?thesis by (elim disjE) (simp_all only: hex_digits, simp_all)
qed

lemma generateUUIDv4_shape:
  assumes "length b = 16"
  shows "is_uuid4 (generateUUIDv4 b)"
proof -
  from assms obtain c0 c1 c2 c3 c4 c5 c6 c7 c8 c9 c10 c11 c12 c13 c14 c15 where
    b: "b = [c0, c1, c2, c3, c4, c5, c6, c7, c8, c9, c10, c11, c12, c13, c14, c15]" by (rule list16)
  have h: "is_hex (hex_digit (byte c div 16))" "is_hex (hex_digit (n mod 16))" for c n
    using byte_less [of c] by (simp_all add: is_hex_digit less_mult_imp_div_less)
  have h8: "is_hex (hex_digit ((128 + byte c8 mod 64) div 16))" by (rule is_hex_digit) simp
  have h4: "is_hex (CHR ''4'')" by (simp add: is_hex_def byte_def)
  show ?thesis
    unfolding b uuid_expand is_uuid4_def
    using h h8 h4 hex_digit_version [of "byte c6 mod 16"] hex_digit_variant [of "byte c8 mod 64"]
    by (simp add: upt_conv_Cons)
qed


section \<open>Properties\<close>

text \<open>
  Request ids. The handlers see the id of the request header if there is one, and otherwise a
  version 4 UUID made of the sixteen random bytes; the same id is in the header \<open>X-Request-ID\<close> of the
  writer they get.
\<close>

theorem request_id_uuid:
  assumes "length rnd = 16"
  shows "\<exists>id r' w'. RequestID name rnd next r w st = next r' w' st \<and> GetRequestIDFromContext r' = id \<and>
    w_header w' ''X-Request-ID'' = Some id \<and> (if rq_header r name = [] then is_uuid4 id else id = rq_header r name)"
proof -
  let ?id = "if rq_header r name = [] then generateUUIDv4 rnd else rq_header r name"
  have "RequestID name rnd next r w st = next (r\<lparr>rq_request_id := Some ?id\<rparr>) (set_header ''X-Request-ID'' ?id w) st"
    by (simp add: RequestID_def Let_def)
  moreover have "is_uuid4 (generateUUIDv4 rnd)" by (rule generateUUIDv4_shape [OF assms])
  ultimately show ?thesis
    by (intro exI [of _ ?id] exI [of _ "r\<lparr>rq_request_id := Some ?id\<rparr>"] exI [of _ "set_header ''X-Request-ID'' ?id w"])
      (simp add: GetRequestIDFromContext_def)
qed

theorem request_id_uuid_witness:
  "\<exists>id r' w'. RequestID ''X-Request-ID'' (replicate 16 (CHR 0xFF)) (\<lambda>r w st. (writeJSON w 200 (JBool True), st)) blank_request
     fresh_writer () = (writeJSON w' 200 (JBool True), ()) \<and> GetRequestIDFromContext r' = id \<and> is_uuid4 id"
  using request_id_uuid [of "replicate 16 (CHR 0xFF)" "''X-Request-ID''" "\<lambda>r w st. (writeJSON w 200 (JBool True), st)" blank_request
      fresh_writer "()"] by (auto simp: blank_request_def)

end
