(* ===== verification/Server.thy ===== *)
theory Server
  imports Messages_API Rate_Limit Middleware
begin

text \<open>
  \<open>internal/server/server.go\<close> and \<open>internal/server/handlers.go\<close>: the defaults of \<open>New\<close>, the routing table
  with its middlewares, and one request through the whole server. The state of the server is the
  world of the handlers, the session store, the two rate limiters and the request log.
\<close>

record app =
  ap_world :: world
  ap_sessions :: cookie_session_store
  ap_ingest_limit :: rate_limiter
  ap_login_limit :: rate_limiter

text \<open>What one request reads from outside: the clock (in nanoseconds), random bytes.\<close>

record request_env =
  en_now :: int
  en_end :: int
  en_clock :: clock
  en_uuid :: string
  en_token :: random

definition rateLimitLogin :: int where
  "rateLimitLogin = 10"

definition rateLimitIngest :: int where
  "rateLimitIngest = 60"

definition maxBodyBytes :: int where
  "maxBodyBytes = 1048576"

text \<open>The configuration after the defaults of \<open>New\<close>.\<close>

definition New_config :: "config option \<Rightarrow> config" where
  "New_config c0 =
     (let c1 = (case c0 of None \<Rightarrow> zero_config | Some c \<Rightarrow> c);
          c2 = (if DataDir c1 = [] then c1\<lparr>DataDir := ''./data''\<rparr> else c1);
          c3 = (if SessionCookieName c2 = [] then c2\<lparr>SessionCookieName := ''lite_mail_session''\<rparr> else c2)
      in if SessionTTLHours c3 \<le> 0 then c3\<lparr>SessionTTLHours := 24\<rparr> else c3)"

text \<open>\<open>New\<close>: the storage directories are made, or it panics (\<open>Inl\<close>).\<close>

definition New :: "config option \<Rightarrow> world \<Rightarrow> storage_error + config \<times> app" where
  "New c0 wd =
     (let cfg = New_config c0 in
      case NewStorage (DataDir cfg) (wd_fs wd) of
        (Inl e, fs) \<Rightarrow> Inl e
      | (Inr base, fs) \<Rightarrow>
          Inr (cfg, \<lparr>ap_world = wd\<lparr>wd_fs := fs\<rparr>, ap_sessions = NewCookieSessionStore (SessionCookieName cfg),
                     ap_ingest_limit = newRateLimiter (rate_limit_rpm rateLimitIngest),
                     ap_login_limit = newRateLimiter (rate_limit_rpm rateLimitLogin)\<rparr>))"

section \<open>Handlers on the state of the server\<close>

definition healthHandler :: "'s handler" where
  "healthHandler r w st =
     (\<lparr>rs_status = 200, rs_writer = set_header ''Content-Type'' ''application/json'' w,
       rs_body = Json (JObj [(''status'', JStr ''ok'')])\<rparr>, st)"

text \<open>\<open>index\<close> is \<open>static/index.html\<close> of the embedded file system, if it is there.\<close>

definition spaHandler :: "string option \<Rightarrow> 's handler" where
  "spaHandler index r w st =
     (case index of
        None \<Rightarrow> (http_error w ''not found'' 404, st)
      | Some data \<Rightarrow> (write_bytes (set_header ''Content-Type'' ''text/html; charset=utf-8'' w) data, st))"

definition on_world :: "world handler \<Rightarrow> app handler" where
  "on_world h r w st = (case h r w (ap_world st) of (res, wd) \<Rightarrow> (res, st\<lparr>ap_world := wd\<rparr>))"

definition on_sessions :: "cookie_session_store handler \<Rightarrow> app handler" where
  "on_sessions h r w st = (case h r w (ap_sessions st) of (res, s) \<Rightarrow> (res, st\<lparr>ap_sessions := s\<rparr>))"

definition on_ingest_limit :: "(rate_limiter \<times> app) handler \<Rightarrow> app handler" where
  "on_ingest_limit h r w st = (case h r w (ap_ingest_limit st, st) of (res, (rl, st')) \<Rightarrow> (res, st'\<lparr>ap_ingest_limit := rl\<rparr>))"

definition on_login_limit :: "(rate_limiter \<times> app) handler \<Rightarrow> app handler" where
  "on_login_limit h r w st = (case h r w (ap_login_limit st, st) of (res, (rl, st')) \<Rightarrow> (res, st'\<lparr>ap_login_limit := rl\<rparr>))"

definition ingest_deps :: "config \<Rightarrow> ingest_handler" where
  "ingest_deps cfg = \<lparr>ih_db = True, ih_storage = Some (DataDir cfg), ih_config = Some cfg\<rparr>"

text \<open>The group behind \<open>RequireAuth\<close>.\<close>

definition authed :: "config \<Rightarrow> int \<Rightarrow> world authed_handler \<Rightarrow> app handler" where
  "authed cfg now h =
     RequireAuth (\<lambda>t st. store_Get t (ap_sessions st)) (\<lambda>t st. st\<lparr>ap_sessions := store_Delete t (ap_sessions st)\<rparr>)
       (Some cfg) now (\<lambda>s. on_world (h s))"

section \<open>Routing\<close>

text \<open>
  The router \<open>chi\<close> is a parameter: \<open>rt_match pattern path\<close> gives the URL parameters where a path matches a
  pattern, \<open>rt_mount prefix path\<close> says whether a path belongs to a sub-router. A sub-router runs its
  middlewares before it looks at the method.
\<close>

record router =
  rt_match :: "string \<Rightarrow> string \<Rightarrow> (string \<Rightarrow> string) option"
  rt_mount :: "string \<Rightarrow> string \<Rightarrow> bool"

definition method_not_allowed :: "writer \<Rightarrow> response" where
  "method_not_allowed w = \<lparr>rs_status = 405, rs_writer = w, rs_body = NoBody\<rparr>"

text \<open>The first route whose pattern and method fit; 405 if only a pattern does; \<open>*\<close> is any method.\<close>

fun dispatch :: "router \<Rightarrow> (string \<times> string \<times> 's handler) list \<Rightarrow> bool \<Rightarrow> 's handler" where
  "dispatch rt [] seen r w st = ((if seen then method_not_allowed w else http_not_found w), st)"
| "dispatch rt ((m, pattern, h) # routes) seen r w st =
     (case rt_match rt pattern (rq_path r) of
        None \<Rightarrow> dispatch rt routes seen r w st
      | Some params \<Rightarrow>
          if m = ''*'' \<or> m = rq_method r then h (r\<lparr>rq_param := params\<rparr>) w st
          else dispatch rt routes True r w st)"

definition ingest_group :: "router \<Rightarrow> ext \<Rightarrow> config \<Rightarrow> request_env \<Rightarrow> app handler" where
  "ingest_group rt E cfg env =
     on_ingest_limit (RateLimit (en_now env)
       (MaxBodySize (MaxMessageBytes cfg)
         (dispatch rt [(''POST'', ''/api/ingest/'', on_world (ServeHTTP E (ingest_deps cfg) (en_clock env)))] False)))"

definition login_group :: "router \<Rightarrow> ext \<Rightarrow> config \<Rightarrow> request_env \<Rightarrow> app handler" where
  "login_group rt E cfg env =
     on_login_limit (RateLimit (en_now env)
       (MaxBodySize maxBodyBytes
         (dispatch rt [(''POST'', ''/api/login/'',
            on_sessions (LoginHandler E store_Create (Some cfg) (en_now env) (en_token env)))] False)))"

text \<open>\<open>index\<close> and \<open>static\<close> are the embedded files.\<close>

definition routes :: "ext \<Rightarrow> engine \<Rightarrow> string option \<Rightarrow> app handler \<Rightarrow> config \<Rightarrow> request_env \<Rightarrow>
    (string \<times> string \<times> app handler) list" where
  "routes E Q index static cfg env =
     [(''GET'', ''/healthz'', healthHandler),
      (''POST'', ''/api/logout'', on_sessions (LogoutHandler store_Delete (Some cfg))),
      (''GET'', ''/api/messages'', authed cfg (en_now env) (ListMessages E Q)),
      (''GET'', ''/api/messages/{id}'', authed cfg (en_now env) (GetMessage E)),
      (''GET'', ''/api/messages/{id}/raw'', authed cfg (en_now env) (GetRawMIME E (DataDir cfg))),
      (''GET'', ''/api/messages/{id}/attachments/{idx}'', authed cfg (en_now env) (GetAttachment E (DataDir cfg))),
      (''GET'', ''/'', spaHandler index),
      (''GET'', ''/login'', spaHandler index),
      (''GET'', ''/messages/{id}'', spaHandler index),
      (''*'', ''/static/*'', static)]"

definition route :: "router \<Rightarrow> ext \<Rightarrow> engine \<Rightarrow> string option \<Rightarrow> app handler \<Rightarrow> config \<Rightarrow> request_env \<Rightarrow> app handler" where
  "route rt E Q index static cfg env r w st =
     (if rt_mount rt ''/api/ingest'' (rq_path r) then ingest_group rt E cfg env r w st
      else if rt_mount rt ''/api/login'' (rq_path r) then login_group rt E cfg env r w st
      else dispatch rt (routes E Q index static cfg env) False r w st)"

text \<open>The middlewares of every request, outermost first, and the request log.\<close>

definition serve :: "router \<Rightarrow> ext \<Rightarrow> engine \<Rightarrow> string option \<Rightarrow> app handler \<Rightarrow> config \<Rightarrow> request_env \<Rightarrow>
    request \<Rightarrow> log_entry list \<times> app \<Rightarrow> response \<times> log_entry list \<times> app" where
  "serve rt E Q index static cfg env r st =
     RequestID ''X-Request-ID'' (en_uuid env)
       (SecurityHeaders
         (RequestLogging (en_now env) (en_end env)
           (CORS (PublicBaseURL cfg) (route rt E Q index static cfg env)))) r fresh_writer st"

section \<open>Headers that every response keeps\<close>

text \<open>Headers none of the handlers sets, and those \<open>http.Error\<close> sets to the same value.\<close>

definition security_headers :: "(string \<times> string) list" where
  "security_headers =
     [(''Strict-Transport-Security'', strictTransportSecurity), (''X-Content-Type-Options'', ''nosniff''),
      (''Referrer-Policy'', ''no-referrer''), (''Content-Security-Policy'', contentSecurityPolicy),
      (''X-Frame-Options'', ''DENY'')]"

definition secure :: "writer \<Rightarrow> bool" where
  "secure w \<longleftrightarrow> list_all (\<lambda>(k, v). w_header w k = Some v) security_headers"

definition keeps_security :: "'s handler \<Rightarrow> bool" where
  "keeps_security h \<longleftrightarrow> (\<forall>r w st. secure w \<longrightarrow> secure (rs_writer (fst (h r w st))))"

lemma secure_iff: "secure w \<longleftrightarrow>
    w_header w ''Strict-Transport-Security'' = Some strictTransportSecurity \<and>
    w_header w ''X-Content-Type-Options'' = Some ''nosniff'' \<and> w_header w ''Referrer-Policy'' = Some ''no-referrer'' \<and>
    w_header w ''Content-Security-Policy'' = Some contentSecurityPolicy \<and> w_header w ''X-Frame-Options'' = Some ''DENY''"
  by (simp add: secure_def security_headers_def)

definition security_names :: "string list" where
  "security_names = map fst security_headers"

lemma secure_set_header: "secure w \<Longrightarrow> k \<notin> set security_names \<Longrightarrow> secure (set_header k v w)"
  by (force simp: secure_def list_all_iff security_names_def)

lemma secure_del_header: "secure w \<Longrightarrow> k \<notin> set security_names \<Longrightarrow> secure (del_header k w)"
  by (force simp: secure_def list_all_iff security_names_def)

lemma secure_add_cookie [simp]: "secure (add_cookie c w) = secure w"
  by (simp add: secure_iff)

lemma secure_nosniff: "secure w \<Longrightarrow> secure (set_header ''X-Content-Type-Options'' ''nosniff'' w)"
  by (simp add: secure_iff)

lemma not_security_names:
  "''Content-Type'' \<notin> set security_names" "''Content-Length'' \<notin> set security_names"
  "''Content-Disposition'' \<notin> set security_names"
  "''X-RateLimit-Limit'' \<notin> set security_names" "''X-RateLimit-Remaining'' \<notin> set security_names"
  "''X-RateLimit-Reset'' \<notin> set security_names" "''X-Request-ID'' \<notin> set security_names"
  "''Access-Control-Allow-Origin'' \<notin> set security_names" "''Vary'' \<notin> set security_names"
  "''Access-Control-Allow-Methods'' \<notin> set security_names" "''Access-Control-Allow-Headers'' \<notin> set security_names"
  "''Access-Control-Max-Age'' \<notin> set security_names"
  by (simp_all add: security_names_def security_headers_def)

lemmas secure_intros = secure_set_header secure_del_header secure_nosniff not_security_names

lemma secure_writeJSON: "secure w \<Longrightarrow> secure (rs_writer (writeJSON w st j))"
  by (simp add: secure_intros)

lemma secure_http_error: "secure w \<Longrightarrow> secure (rs_writer (http_error w m st))"
  by (simp add: http_error_def secure_intros)

lemma secure_http [simp]: "secure w \<Longrightarrow> secure (rs_writer (http_not_found w))"
  "secure w \<Longrightarrow> secure (rs_writer (http_internal_error w))"
  by (simp_all add: http_not_found_def http_internal_error_def secure_http_error)

lemma secure_write_bytes [simp]: "rs_writer (write_bytes w d) = w"
  by (simp add: write_bytes_def)

lemmas secure_responses = secure_writeJSON secure_http secure_http_error secure_intros

lemma keeps_reads:
  "secure w \<Longrightarrow> secure (rs_writer (fst (GetMessage E s r w wd)))"
  "secure w \<Longrightarrow> secure (rs_writer (fst (GetRawMIME E base s r w wd)))"
  "secure w \<Longrightarrow> secure (rs_writer (fst (GetAttachment E base s r w wd)))"
  "secure w \<Longrightarrow> secure (rs_writer (fst (ListMessages E Q s r w wd)))"
  unfolding GetMessage_def GetRawMIME_def GetAttachment_def ListMessages_def Let_def
  by (simp_all add: secure_responses del: writeJSON_writer split: option.split prod.split sum.split)

lemma keeps_ingest: "secure w \<Longrightarrow> secure (rs_writer (fst (ServeHTTP E h clk r w wd)))"
proof -
  assume w: "secure w"
  have "secure (rs_writer (fst (ingest_raw E base clk raw w wd)))" for base raw
    unfolding ingest_raw_def Let_def
    using w by (simp add: secure_responses del: writeJSON_writer split: prod.split sum.split bool.split)
  then show ?thesis
    using w unfolding ServeHTTP_def Let_def
    by (simp add: secure_responses del: writeJSON_writer split: prod.split option.split)
qed

lemma keeps_auth:
  "secure w \<Longrightarrow> secure (rs_writer (fst (LoginHandler E create cfg now rnd r w st)))"
  "secure w \<Longrightarrow> secure (rs_writer (fst (LogoutHandler delete cfg r w st)))"
  unfolding LoginHandler_def LogoutHandler_def Let_def
  by (simp_all add: secure_responses del: writeJSON_writer split: option.split prod.split sum.split)

lemma keeps_RequireAuth:
  assumes "\<And>s r w st. secure w \<Longrightarrow> secure (rs_writer (fst (next s r w st)))" and "secure w"
  shows "secure (rs_writer (fst (RequireAuth get delete cfg now next r w st)))"
  using assms unfolding RequireAuth_def auth_required_def
  by (simp add: secure_responses del: writeJSON_writer split: option.split sum.split)

lemma keeps_middlewares:
  assumes "keeps_security h"
  shows "keeps_security (RateLimit now h)" and "keeps_security (MaxBodySize n h)" and "keeps_security (CORS origin h)"
    and "keeps_security (RequestLogging t1 t2 h)"
  using assms unfolding keeps_security_def RateLimit_def MaxBodySize_def CORS_def RequestLogging_def Let_def
  by (simp_all add: secure_responses case_prod_beta)

lemma keeps_dispatch: "list_all (\<lambda>(m, p, h). keeps_security h) rs \<Longrightarrow> keeps_security (dispatch rt rs seen)"
  by (induction rs arbitrary: seen)
    (auto simp: keeps_security_def method_not_allowed_def secure_responses split: option.split)

lemma keeps_lifts:
  "keeps_security h \<Longrightarrow> keeps_security (on_world h)" "keeps_security h' \<Longrightarrow> keeps_security (on_sessions h')"
  "keeps_security h'' \<Longrightarrow> keeps_security (on_ingest_limit h'')" "keeps_security h'' \<Longrightarrow> keeps_security (on_login_limit h'')"
  unfolding keeps_security_def on_world_def on_sessions_def on_ingest_limit_def on_login_limit_def
  by (simp_all add: case_prod_beta)

lemma keeps_authed:
  assumes "\<And>s. keeps_security (h s)"
  shows "keeps_security (authed cfg now h)"
  unfolding keeps_security_def authed_def
  using keeps_lifts(1) [OF assms] by (auto simp: keeps_security_def intro!: keeps_RequireAuth)

lemma keeps_routes:
  assumes "keeps_security static"
  shows "list_all (\<lambda>(m, p, h). keeps_security h) (routes E Q index static cfg env)"
proof -
  have "keeps_security (spaHandler index)" "keeps_security healthHandler"
    by (auto simp: keeps_security_def spaHandler_def healthHandler_def secure_responses split: option.split)
  moreover have "keeps_security (on_sessions (LogoutHandler store_Delete (Some cfg)))"
    by (intro keeps_lifts) (simp add: keeps_security_def keeps_auth)
  moreover have "keeps_security (authed cfg now (ListMessages E Q))" "keeps_security (authed cfg now (GetMessage E))"
    "keeps_security (authed cfg now (GetRawMIME E base))" "keeps_security (authed cfg now (GetAttachment E base))" for now base
    by (intro keeps_authed; simp add: keeps_security_def keeps_reads)+
  ultimately show ?thesis using assms by (simp add: routes_def)
qed

lemma keeps_route:
  assumes "keeps_security static"
  shows "keeps_security (route rt E Q index static cfg env)"
proof -
  have "keeps_security (ingest_group rt E cfg env)"
    unfolding ingest_group_def
    by (intro keeps_lifts keeps_middlewares keeps_dispatch) (simp add: keeps_security_def on_world_def keeps_ingest case_prod_beta)
  moreover have "keeps_security (login_group rt E cfg env)"
    unfolding login_group_def
    by (intro keeps_lifts keeps_middlewares keeps_dispatch) (simp add: keeps_security_def on_sessions_def keeps_auth case_prod_beta)
  moreover have "keeps_security (dispatch rt (routes E Q index static cfg env) False)"
    by (intro keeps_dispatch keeps_routes assms)
  ultimately show ?thesis by (auto simp: keeps_security_def route_def)
qed

lemma serve_secure:
  assumes "keeps_security static"
  shows "secure (rs_writer (fst (serve rt E Q index static cfg env r st)))"
proof -
  have k: "keeps_security (RequestLogging (en_now env) (en_end env) (CORS (PublicBaseURL cfg) (route rt E Q index static cfg env)))"
    by (intro keeps_middlewares keeps_route assms)
  have "secure (set_header ''X-Frame-Options'' ''DENY''
         (set_header ''Content-Security-Policy'' contentSecurityPolicy
           (set_header ''Referrer-Policy'' ''no-referrer''
             (set_header ''X-Content-Type-Options'' ''nosniff''
               (set_header ''Strict-Transport-Security'' strictTransportSecurity w)))))" for w
    by (simp add: secure_iff)
  then show ?thesis
    using k unfolding serve_def RequestID_def SecurityHeaders_def Let_def keeps_security_def by blast
qed

section \<open>The session store inside the server\<close>

text \<open>The server's session operations keep the contract of a session store on the whole state.\<close>

definition app_create :: "random \<Rightarrow> session \<Rightarrow> app \<Rightarrow> (session_error, session, app) outcome" where
  "app_create rnd s st = (case store_Create rnd s (ap_sessions st) of (r, ss) \<Rightarrow> (r, st\<lparr>ap_sessions := ss\<rparr>))"

definition app_get :: "string \<Rightarrow> app \<Rightarrow> session_error + session" where
  "app_get t st = store_Get t (ap_sessions st)"

definition app_delete :: "string \<Rightarrow> app \<Rightarrow> app" where
  "app_delete t st = st\<lparr>ap_sessions := store_Delete t (ap_sessions st)\<rparr>"

interpretation aps: session_store app_create app_get app_delete "\<lambda>st. store_inv (ap_sessions st)"
proof
  show "s_token s' \<noteq> [] \<and> s' = s\<lparr>s_token := s_token s'\<rparr> \<and> store_inv (ap_sessions st') \<and>
      (\<forall>t. app_get t st' = (if t = s_token s' then Inr s' else app_get t st))"
    if "store_inv (ap_sessions st)" "rand_ok rnd" "app_create rnd s st = (Inr s', st')" for st rnd s s' st'
    using that css.create_ok [OF that(1,2), of s s'] by (auto simp: app_create_def app_get_def split: prod.splits)
  show "st' = st" if "app_create rnd s st = (Inl e, st')" for rnd s st e st'
    using that css.create_err [of rnd s "ap_sessions st" e] by (auto simp: app_create_def split: prod.splits)
  show "app_get [] st = Inl ErrSessionNotFound" for st by (simp add: app_get_def css.get_empty)
  show "s_token s = t" if "store_inv (ap_sessions st)" "app_get t st = Inr s" for st t s
    using that css.get_token by (simp add: app_get_def)
  show "app_get t (app_delete u st) = (if t = u then Inl ErrSessionNotFound else app_get t st)"
    if "store_inv (ap_sessions st)" for t u st
    using css.get_delete [OF that] by (simp add: app_get_def app_delete_def)
  show "store_inv (ap_sessions (app_delete t st))" if "store_inv (ap_sessions st)" for st t
    using css.delete_invar [OF that] by (simp add: app_delete_def)
qed

lemma authed_eq: "authed cfg now h = RequireAuth app_get app_delete (Some cfg) now (\<lambda>s. on_world (h s))"
  by (simp add: authed_def app_get_def [abs_def] app_delete_def [abs_def])

lemma login_on_app:
  "on_sessions (LoginHandler E store_Create cfg now rnd) = LoginHandler E app_create cfg now rnd"
  by (intro ext) (auto simp: on_sessions_def LoginHandler_def Let_def app_create_def split: prod.splits option.splits sum.splits)

section \<open>Requests without a session\<close>

text \<open>The cookie of the request names a session that has not expired.\<close>

definition live_session :: "config \<Rightarrow> int \<Rightarrow> request \<Rightarrow> app \<Rightarrow> bool" where
  "live_session cfg now r st =
     (case find_cookie (sessionCookieName (Some cfg)) (rq_cookies r) of
        None \<Rightarrow> False
      | Some v \<Rightarrow> (case store_Get v (ap_sessions st) of Inl e \<Rightarrow> False | Inr s \<Rightarrow> now \<le> s_expires s))"

text \<open>
  A handler is blind to the mailbox for the requests without a session: with any other world it gives
  the same answer, and it hands that world back.
\<close>

definition blind :: "config \<Rightarrow> int \<Rightarrow> app handler \<Rightarrow> bool" where
  "blind cfg now h \<longleftrightarrow> (\<forall>r w st wd. \<not> live_session cfg now r st \<longrightarrow>
     h r w (st\<lparr>ap_world := wd\<rparr>) = (fst (h r w st), (snd (h r w st))\<lparr>ap_world := wd\<rparr>))"

lemma live_session_cong [simp]:
  "live_session cfg now (r\<lparr>rq_param := p\<rparr>) st = live_session cfg now r st"
  "live_session cfg now (r\<lparr>rq_body := b\<rparr>) st = live_session cfg now r st"
  "live_session cfg now (r\<lparr>rq_request_id := i\<rparr>) st = live_session cfg now r st"
  "live_session cfg now r (st\<lparr>ap_login_limit := rl\<rparr>) = live_session cfg now r st"
  "live_session cfg now r (st\<lparr>ap_world := wd\<rparr>) = live_session cfg now r st"
  by (simp_all add: live_session_def split: option.split)

lemma blindD:
  "blind cfg now h \<Longrightarrow> \<not> live_session cfg now r st \<Longrightarrow>
   h r w (st\<lparr>ap_world := wd\<rparr>) = (fst (h r w st), (snd (h r w st))\<lparr>ap_world := wd\<rparr>)"
  by (simp add: blind_def)

lemma blind_authed: "blind cfg now (authed cfg now h)"
  by (auto simp: blind_def live_session_def authed_def RequireAuth_def split: option.splits sum.splits)

lemma blind_const:
  "blind cfg now (on_sessions h)" "blind cfg now healthHandler" "blind cfg now (spaHandler index)"
  by (auto simp: blind_def on_sessions_def healthHandler_def spaHandler_def split: option.splits prod.splits)

lemma blind_MaxBodySize: "blind cfg now h \<Longrightarrow> blind cfg now (MaxBodySize n h)"
  by (simp add: blind_def MaxBodySize_def)

lemma blind_CORS: "blind cfg now h \<Longrightarrow> blind cfg now (CORS origin h)"
  by (simp add: blind_def CORS_def Let_def)

lemma blind_login_limit: "blind cfg now h \<Longrightarrow> blind cfg now (on_login_limit (RateLimit now h))"
  by (simp add: blind_def on_login_limit_def RateLimit_def Let_def split: prod.split)

lemma blind_dispatch: "list_all (\<lambda>(m, p, h). blind cfg now h) rs \<Longrightarrow> blind cfg now (dispatch rt rs seen)"
proof (induction rs arbitrary: seen)
  case Nil
  then show ?case by (simp add: blind_def)
next
  case (Cons x rs)
  obtain m p h where x: "x = (m, p, h)" by (metis prod_cases3)
  then have h: "blind cfg now h" and "blind cfg now (dispatch rt rs s)" for s using Cons by simp_all
  then show ?case unfolding x blind_def by (simp add: blindD split: option.split)
qed

lemma route_blind:
  assumes "blind cfg (en_now env) static" and "\<not> rt_mount rt ''/api/ingest'' (rq_path r)"
    and "\<not> live_session cfg (en_now env) r st"
  shows "route rt E Q index static cfg env r w (st\<lparr>ap_world := wd\<rparr>) =
    (fst (route rt E Q index static cfg env r w st), (snd (route rt E Q index static cfg env r w st))\<lparr>ap_world := wd\<rparr>)"
proof -
  have l: "blind cfg (en_now env) (login_group rt E cfg env)"
    unfolding login_group_def by (intro blind_login_limit blind_MaxBodySize blind_dispatch) (simp add: blind_const)
  have "blind cfg (en_now env) (dispatch rt (routes E Q index static cfg env) False)"
    by (rule blind_dispatch) (simp add: routes_def blind_const blind_authed assms(1))
  then show ?thesis using l assms(2,3) unfolding route_def by (simp add: blindD)
qed

lemma serve_blind:
  assumes "blind cfg (en_now env) static" and "\<not> rt_mount rt ''/api/ingest'' (rq_path r)"
    and "\<not> live_session cfg (en_now env) r st"
  shows "fst (serve rt E Q index static cfg env r (lg, st\<lparr>ap_world := wd\<rparr>)) = fst (serve rt E Q index static cfg env r (lg, st)) \<and>
    ap_world (snd (snd (serve rt E Q index static cfg env r (lg, st\<lparr>ap_world := wd\<rparr>)))) = wd"
proof -
  have "route rt E Q index static cfg env (r\<lparr>rq_request_id := i\<rparr>) w (st\<lparr>ap_world := wd\<rparr>) =
    (fst (route rt E Q index static cfg env (r\<lparr>rq_request_id := i\<rparr>) w st),
     (snd (route rt E Q index static cfg env (r\<lparr>rq_request_id := i\<rparr>) w st))\<lparr>ap_world := wd\<rparr>)" for i w
    by (rule route_blind) (simp_all add: assms)
  then show ?thesis
    unfolding serve_def RequestID_def SecurityHeaders_def Let_def RequestLogging_def CORS_def
    by (simp add: case_prod_beta)
qed

section \<open>Properties\<close>

text \<open>A router that knows exact paths only, and a server that has just started.\<close>

definition exact_router :: router where
  "exact_router = \<lparr>rt_match = (\<lambda>pattern path. if pattern = path then Some (\<lambda>_. []) else None),
     rt_mount = (\<lambda>pre path. has_prefix path pre)\<rparr>"

definition demo_app :: "world \<Rightarrow> app" where
  "demo_app wd = \<lparr>ap_world = wd, ap_sessions = NewCookieSessionStore ''lite_mail_session'',
     ap_ingest_limit = newRateLimiter 60, ap_login_limit = newRateLimiter 10\<rparr>"

definition demo_moment :: request_env where
  "demo_moment = \<lparr>en_now = 0, en_end = 0, en_clock = demo_clock, en_uuid = replicate 16 (CHR ''u''), en_token = demo_random\<rparr>"

text \<open>
  Property C35: every response is protected. Whatever the request and the state, the response of the
  server carries the five security headers with their values, as long as the static file server
  does not take them away.
\<close>

theorem responses_secure:
  assumes "keeps_security static"
  shows "list_all (\<lambda>(k, v). w_header (rs_writer (fst (serve rt E Q index static cfg env r st))) k = Some v) security_headers"
  using serve_secure [OF assms] by (simp add: secure_def)

theorem responses_secure_witness:
  "list_all (\<lambda>(k, v). w_header (rs_writer (fst (serve exact_router plain_ext plain_engine None (\<lambda>r w st. (http_not_found w, st))
      demo_config demo_moment (blank_request\<lparr>rq_path := ''/static/app.js''\<rparr>) ([], demo_app (new_world [] []))))) k = Some v)
    security_headers"
  by (rule responses_secure) (simp add: keeps_security_def)

lemma ingest_authorized_cong [simp]:
  "ingest_authorized h (r\<lparr>rq_body := b\<rparr>) = ingest_authorized h r"
  "ingest_authorized h (r\<lparr>rq_content_length := n\<rparr>) = ingest_authorized h r"
  by (cases "ih_config h"; simp add: ingest_authorized_def)+

text \<open>
  Property C36: a body over the limit is not stored. Behind the middleware the ingest handler answers it
  with 413 when the request says how long it is, and otherwise with 400 whatever the key says about who
  sends it (401 without the key); nothing changes. Its own answer 413 is only given by a limit
  below the one of the middleware.
\<close>

theorem body_limit_answers:
  assumes "body_limit limit < int (length (rd_bytes (rq_body r)))" and "body_limit limit \<le> ingest_limit h"
    and "in_int64 (ingest_limit h + 1)" and "rq_method r = ''POST''"
    and "rq_content_length r = int (length (rd_bytes (rq_body r))) \<or> rq_content_length r = -1"
  shows "snd (MaxBodySize limit (ServeHTTP E h clk) r w wd) = wd \<and>
    rs_status (fst (MaxBodySize limit (ServeHTTP E h clk) r w wd)) =
      (if rq_content_length r \<noteq> -1 then 413 else if ingest_authorized h r then 400 else 401)"
proof (cases "rq_content_length r = -1")
  case False
  then show ?thesis using assms(1,5) by (simp add: MaxBodySize_def)
next
  case True
  let ?r = "r\<lparr>rq_body := max_bytes_reader (body_limit limit) (rq_body r)\<rparr>"
  have p: "0 < body_limit limit" by (simp add: body_limit_def)
  have "max_bytes_reader (body_limit limit) (rq_body r) =
      \<lparr>rd_bytes = take (nat (body_limit limit)) (rd_bytes (rq_body r)), rd_err = Some ''http: request body too large''\<rparr>"
    using assms(1) by (simp add: max_bytes_reader_def)
  then have "ServeHTTP E h clk ?r w wd =
      (if ingest_authorized h r then (writeJSON w 400 (json_error ''read request body''), wd)
       else (writeJSON w 401 (json_error ''unauthorized''), wd))"
    using assms(1-4) p by (simp add: ServeHTTP_def limit_reader_def read_all_def)
  then show ?thesis using True p by (simp add: MaxBodySize_def)
qed

theorem body_limit_answers_witness:
  "rs_status (fst (MaxBodySize 3 (ServeHTTP plain_ext demo_handler demo_clock)
     ((delivery ''worker-key'' ''hello'')\<lparr>rq_content_length := -1\<rparr>) fresh_writer (new_world [] []))) = 400"
proof -
  have "ingest_authorized demo_handler ((delivery ''worker-key'' ''hello'')\<lparr>rq_content_length := -1\<rparr>)"
    by simp
  then show ?thesis
    using body_limit_answers [of 3 "(delivery ''worker-key'' ''hello'')\<lparr>rq_content_length := -1\<rparr>" demo_handler plain_ext demo_clock
        fresh_writer "new_world [] []"]
    by (simp add: in_int64_iff body_limit_def)
qed

text \<open>
  Property C24: without a session, no mail. The answer to a request whose cookie names no session, or one
  that is over, does not depend on the mailbox: with any other tables and files it would be the same,
  and the request leaves the mailbox as it is. Only deliveries are not of this kind. The
  static file server must not read the mailbox.
\<close>

theorem no_session_no_mail:
  assumes "blind cfg (en_now env) static" and "\<not> rt_mount rt ''/api/ingest'' (rq_path r)"
    and "\<not> live_session cfg (en_now env) r st"
  shows "fst (serve rt E Q index static cfg env r (lg, st\<lparr>ap_world := wd\<rparr>)) = fst (serve rt E Q index static cfg env r (lg, st)) \<and>
    ap_world (snd (snd (serve rt E Q index static cfg env r (lg, st\<lparr>ap_world := wd\<rparr>)))) = wd"
  by (rule serve_blind [OF assms])

theorem no_session_no_mail_witness:
  "fst (serve exact_router plain_ext plain_engine None (\<lambda>r w st. (http_not_found w, st)) demo_config demo_moment
      (blank_request\<lparr>rq_method := ''GET'', rq_path := ''/api/messages''\<rparr>) ([], demo_app mailbox)) =
   fst (serve exact_router plain_ext plain_engine None (\<lambda>r w st. (http_not_found w, st)) demo_config demo_moment
      (blank_request\<lparr>rq_method := ''GET'', rq_path := ''/api/messages''\<rparr>) ([], demo_app (new_world [] [])))"
proof -
  let ?r = "blank_request\<lparr>rq_method := ''GET'', rq_path := ''/api/messages''\<rparr>"
  have b: "blind demo_config (en_now demo_moment) (\<lambda>r w st. (http_not_found w, st))" by (simp add: blind_def)
  have m: "\<not> rt_mount exact_router ''/api/ingest'' (rq_path ?r)" by (simp add: exact_router_def has_prefix_def)
  have l: "\<not> live_session demo_config (en_now demo_moment) ?r (demo_app (new_world [] []))"
    by (simp add: live_session_def blank_request_def)
  have "(demo_app (new_world [] []))\<lparr>ap_world := mailbox\<rparr> = demo_app mailbox" by (simp add: demo_app_def)
  then show ?thesis using no_session_no_mail [OF b m l, of plain_ext plain_engine None "[]" mailbox] by simp
qed

end
