(* ===== verification/Delivery.thy ===== *)
theory Delivery
  imports Server
begin

text \<open>
  From the delivery of a message to its reading: what an accepted delivery leaves in the mailbox, that later
  traffic keeps it, and which sessions see it. The lemmas join the ingest handler, the parser, the login
  and the read handlers.
\<close>

section \<open>Whose mail it is\<close>

text \<open>The session of a login sees a message when the address of the form and a recipient agree.\<close>

lemma login_session_user:
  assumes "login_session (x_lower E) c psk address = Some s" and "psk \<noteq> AdminPSK c"
  shows "s_email s = canonicalEmail E address \<and> \<not> s_admin s"
  using assms by (auto simp: login_session_iff canonicalEmail_def)

lemma add_mail_recipient:
  assumes "rcp \<in> set (Recipients p)" and "same_text E (Email rcp) address"
  shows "recipient_exists E (add_mail clk p st err db) (db_next_message db) address"
proof -
  obtain i where i: "i < length (Recipients p)" "Recipients p ! i = rcp" using assms(1) by (auto simp: in_set_conv_nth)
  then have "(i, rcp) \<in> set (enumerate 0 (Recipients p))" by (auto simp: in_set_enumerate_eq)
  then show ?thesis
    using assms(2) by (force simp: recipient_exists_def add_mail_def Let_def list_ex_iff stored_recipient_def new_recipient_def)
qed

lemma add_mail_recipients:
  assumes "db_inv E db"
  shows "recipient_exists E (add_mail clk p st err db) (db_next_message db) address \<longleftrightarrow>
    (\<exists>rcp \<in> set (Recipients p). same_text E (Email rcp) address)"
proof
  assume "recipient_exists E (add_mail clk p st err db) (db_next_message db) address"
  then obtain r where r: "r \<in> set (db_recipients (add_mail clk p st err db))" "r_message r = db_next_message db"
    "same_text E (r_email r) address" by (auto simp: recipient_exists_def list_ex_iff)
  have "r \<notin> set (db_recipients (db_tables db))"
  proof
    assume "r \<in> set (db_recipients (db_tables db))"
    then have "db_next_message db \<in> m_id ` set (db_messages (db_tables db))" using assms r(2) by (force simp: db_inv_def Let_def)
    then show False using assms by (auto simp: db_inv_def Let_def ids_ok_def)
  qed
  then obtain ir where ir: "ir \<in> set (enumerate 0 (Recipients p))" "r_email r = Email (snd ir)"
    using r(1) by (auto simp: add_mail_def Let_def stored_recipient_def new_recipient_def)
  then have "snd ir \<in> set (Recipients p)" using nth_mem [of "fst ir" "Recipients p"] by (simp add: in_set_enumerate_eq)
  then show "\<exists>rcp \<in> set (Recipients p). same_text E (Email rcp) address"
    using r(3) ir(2) by (intro bexI [of _ "snd ir"]) simp_all
qed (use add_mail_recipient in blast)

lemma parseRecipients_iff:
  "(\<exists>rcp \<in> set (parseRecipients E h name t). P (Email rcp)) \<longleftrightarrow>
   (\<exists>v \<in> set (h name). \<exists>as. x_address_list E v = Inr as \<and> (\<exists>a \<in> set as. canonicalEmail E a \<noteq> [] \<and> P (canonicalEmail E a)))"
proof -
  have "(\<exists>rcp \<in> set (case x_address_list E v of Inl e \<Rightarrow> [] | Inr as \<Rightarrow> recipients_of E t as). P (Email rcp)) \<longleftrightarrow>
      (\<exists>as. x_address_list E v = Inr as \<and> (\<exists>a \<in> set as. canonicalEmail E a \<noteq> [] \<and> P (canonicalEmail E a)))" for v
    by (cases "x_address_list E v") (auto simp: recipients_of_def)
  then show ?thesis by (simp add: parseRecipients_def)
qed

lemma ParseMIME_recipients:
  assumes "ParseMIME E raw = (Inr (), p)"
  shows "\<exists>h body. x_read_message E raw = Inr (h, body) \<and> Recipients p = Recipients (parsed_headers E raw h)"
proof (cases "x_read_message E raw")
  case (Inl e)
  then show ?thesis using assms by (simp add: ParseMIME_def)
next
  case (Inr hb)
  obtain h b where hb: "hb = (h, b)" by fastforce
  have "Recipients (snd (parseEntity (parse_fuel raw) E h \<lparr>rd_bytes = b, rd_err = None\<rparr> (parsed_headers E raw h))) =
      Recipients (parsed_headers E raw h)"
    using parseEntity_headers by (simp add: same_headers_def)
  then have "Recipients (snd (ParseMIME E raw)) = Recipients (parsed_headers E raw h)"
    unfolding ParseMIME_def Inr hb sum.case prod.case
    by (rule andthen_keeps) simp
  then show ?thesis using assms Inr hb by simp
qed

lemma fallback_recipients: "Recipients (fallbackParsedMessageWithError E now raw h t) = []"
  by (auto simp: fallbackParsedMessageWithError_def Let_def zero_parsed_def split: sum.splits prod.splits)

lemma parsed_recipients:
  assumes "parse_or_fallback E clk raw = (p, pst, err)" and "sha256_ok E"
  shows "(\<exists>rcp \<in> set (Recipients p). P (Email rcp)) \<longleftrightarrow>
    pst = ''success'' \<and>
    (\<exists>h body. x_read_message E raw = Inr (h, body) \<and>
      (\<exists>name \<in> {''To'', ''Cc'', ''Bcc''}. \<exists>v \<in> set (h name). \<exists>as. x_address_list E v = Inr as \<and>
        (\<exists>a \<in> set as. canonicalEmail E a \<noteq> [] \<and> P (canonicalEmail E a))))"
proof (cases "ParseMIME E raw")
  case (Pair r q)
  note facts = parse_or_fallback_facts [OF assms]
  show ?thesis
  proof (cases r)
    case (Inl e)
    then have "Recipients p = []" "pst = ''failed''"
      using assms(1) Pair by (auto simp: parse_or_fallback_def Let_def fallback_recipients split: if_splits)
    then show ?thesis by simp
  next
    case (Inr u)
    then have p: "ParseMIME E raw = (Inr (), p)" "pst = ''success''" using facts Pair by (auto simp: prod_eq_iff)
    obtain h body where h: "x_read_message E raw = Inr (h, body)" "Recipients p = Recipients (parsed_headers E raw h)"
      using ParseMIME_recipients [OF p(1)] by blast
    have "Recipients p = parseRecipients E h ''To'' ''to'' @ parseRecipients E h ''Cc'' ''cc'' @ parseRecipients E h ''Bcc'' ''bcc''"
      unfolding h(2) by (simp add: parsed_headers_def)
    then have "(\<exists>rcp \<in> set (Recipients p). P (Email rcp)) \<longleftrightarrow>
        (\<exists>rcp \<in> set (parseRecipients E h ''To'' ''to''). P (Email rcp)) \<or>
        (\<exists>rcp \<in> set (parseRecipients E h ''Cc'' ''cc''). P (Email rcp)) \<or>
        (\<exists>rcp \<in> set (parseRecipients E h ''Bcc'' ''bcc''). P (Email rcp))" by auto
    then show ?thesis unfolding parseRecipients_iff using h(1) p(2) by simp
  qed
qed

section \<open>Delivery, later traffic, reading\<close>

text \<open>What a delivery through the handler is, once it has passed the checks on the request.\<close>

lemma ServeHTTP_accepted:
  assumes s: "ServeHTTP E h clk r w wd = (res, wd')" and base: "ih_storage h = Some base"
    and acc: "rs_body res = Json (JObj [(''message_id'', JInt n), (''status'', JStr ''accepted'')])"
    and limit: "in_int64 (ingest_limit h + 1)"
  shows "ingest_raw E base clk (rd_bytes (rq_body r)) w wd = (res, wd')"
proof -
  have lim: "wrap64 (ingest_limit h + 1) = ingest_limit h + 1" using limit by simp
  let ?b = "limit_reader (ingest_limit h + 1) (rq_body r)"
  have i: "int (length (rd_bytes ?b)) \<le> ingest_limit h \<and> ingest_raw E base clk (rd_bytes ?b) w wd = (res, wd')"
    using s acc unfolding ServeHTTP_def Let_def lim read_all_def base
    by (cases "rd_err ?b") (auto simp: json_error_def split: if_splits)
  have "rd_bytes ?b = rd_bytes (rq_body r)"
    using i by (auto simp: limit_reader_def split: if_splits)
  then show ?thesis using i by simp
qed

lemma steps_extend:
  assumes "rtranclp (ingest_step E base) s s'" and "sha256_ok E" and "world_inv E base (fst s)"
  shows "mail_extends base (fst s) (fst s') \<and> world_inv E base (fst s')"
  using assms(1)
proof (induction rule: rtranclp_induct)
  case base
  then show ?case using assms(3) by simp
next
  case (step t t')
  from step.hyps(2) step.IH have "mail_extends base (fst t) (fst t') \<and> world_inv E base (fst t')"
    by (cases rule: ingest_stepE)
      (use ingest_phase_extends [OF assms(2)] ingest_phase_inv [OF assms(2)] in \<open>auto, (metis snd_conv)+\<close>)
  then show ?case using step.IH mail_extends_trans by blast
qed

lemma recipient_exists_mono:
  "prefix (db_recipients t) (db_recipients t') \<Longrightarrow> recipient_exists E t i a \<Longrightarrow> recipient_exists E t' i a"
  by (auto simp: recipient_exists_def list_ex_iff prefix_def)

lemma delivered_is_readable:
  assumes sha: "sha256_ok E" and inv: "world_inv E base wd"
    and del: "ingest_raw E base clk raw w wd = (res, wd1)"
    and acc: "rs_body res = Json (JObj [(''message_id'', JInt n), (''status'', JStr ''accepted'')])"
    and later: "rtranclp (ingest_step E base) (wd1, pool1) (wd2, pool2)"
    and pf: "parse_or_fallback E clk raw = (p, st, err)"
    and rcp: "rcp \<in> set (Recipients p)" "same_text E (Email rcp) (s_email s)"
    and id: "rq_param r ''id'' = format_int n"
  shows "rs_status (fst (GetRawMIME E base (Some s) r w2 (quiet wd2))) = 200 \<and>
    rs_body (fst (GetRawMIME E base (Some s) r w2 (quiet wd2))) = Bytes (keep_first (raw_blob base (HashBytes E raw) (wd_fs wd)) raw)"
proof -
  note del1 = ingest_raw_accepted [OF del sha inv acc pf]
  have inv1: "world_inv E base wd1" by (rule ingest_raw_world_inv [OF del sha inv])
  from steps_extend [OF later sha] inv1
  have ext: "mail_extends base wd1 wd2" and inv2: "world_inv E base wd2" by simp_all
  let ?m = "stored_message clk p st err n"
  have h: "m_hash ?m = HashBytes E raw" "m_id ?m = n"
    using parse_or_fallback_facts [OF pf sha] by (simp, simp add: stored_message_def Let_def)
  have "?m \<in> set (db_messages (db_tables (wd_db wd1)))" using del1 by (simp add: add_mail_def Let_def)
  then have m: "?m \<in> set (db_messages (db_tables (wd_db wd2)))"
    using ext by (auto simp: mail_extends_def prefix_def)
  have "recipient_exists E (db_tables (wd_db wd1)) n (s_email s)" using del1 add_mail_recipient [OF rcp] by simp
  then have may: "may_read E (db_tables (wd_db wd2)) s n"
    using ext recipient_exists_mono unfolding may_read_def mail_extends_def by blast
  have blob: "raw_blob base (HashBytes E raw) (wd_fs wd2) = Some (keep_first (raw_blob base (HashBytes E raw) (wd_fs wd)) raw)"
    using del1 ext HashBytes_safe [OF sha] unfolding mail_extends_def by blast
  have n: "0 < n" "in_int64 n" using del1 by blast+
  show ?thesis
    by (rule GetRawMIME_finds [of E "quiet wd2" ?m]) (use inv2 m may id blob n HashBytes_safe [OF sha] h in \<open>simp_all add: world_invD\<close>)
qed

end
