(* ===== verification/Isolation.thy ===== *)
theory Isolation
  imports Delivery
begin

text \<open>
  What a session learns about the mail of others: nothing. The view of a session is its part of the tables;
  the read handlers of \<open>internal/api\<close> answer alike in worlds with the same view, whatever else is stored
  (noninterference), and the deliveries of \<open>internal/ingest\<close> that are not addressed to a user leave his
  view as it is.
\<close>


section \<open>What a session can see\<close>

text \<open>The rows a session may read: its messages, with their recipients and attachments.\<close>

definition user_view :: "ext \<Rightarrow> session \<Rightarrow> tables \<Rightarrow> message_row list \<times> recipient_row list \<times> attachment_row list" where
  "user_view E s t =
     (filter (\<lambda>m. may_read E t s (m_id m)) (db_messages t),
      filter (\<lambda>r. may_read E t s (r_message r)) (db_recipients t),
      filter (\<lambda>a. may_read E t s (a_message a)) (db_attachments t))"

text \<open>
  Two worlds a session should not tell apart: the same rows of its own and the same files behind them,
  the same behaviour of disk and database. Everything else may differ.
\<close>

definition same_view :: "ext \<Rightarrow> string \<Rightarrow> session \<Rightarrow> world \<Rightarrow> world \<Rightarrow> bool" where
  "same_view E base s wd wd' \<longleftrightarrow>
     user_view E s (db_tables (wd_db wd)) = user_view E s (db_tables (wd_db wd')) \<and>
     db_faults (wd_db wd) = db_faults (wd_db wd') \<and> fs_faults (wd_fs wd) = fs_faults (wd_fs wd') \<and>
     (\<forall>m \<in> set (db_messages (db_tables (wd_db wd))). may_read E (db_tables (wd_db wd)) s (m_id m) \<longrightarrow>
        raw_blob base (m_hash m) (wd_fs wd) = raw_blob base (m_hash m) (wd_fs wd')) \<and>
     (\<forall>a \<in> set (db_attachments (db_tables (wd_db wd))). may_read E (db_tables (wd_db wd)) s (a_message a) \<longrightarrow>
        attachment_blob base (a_message a, a_key a) (wd_fs wd) = attachment_blob base (a_message a, a_key a) (wd_fs wd'))"

lemma user_viewD:
  assumes "user_view E s t = user_view E s t'"
  shows "filter (\<lambda>m. may_read E t s (m_id m)) (db_messages t) = filter (\<lambda>m. may_read E t' s (m_id m)) (db_messages t')"
    and "filter (\<lambda>r. may_read E t s (r_message r)) (db_recipients t) = filter (\<lambda>r. may_read E t' s (r_message r)) (db_recipients t')"
    and "filter (\<lambda>a. may_read E t s (a_message a)) (db_attachments t) = filter (\<lambda>a. may_read E t' s (a_message a)) (db_attachments t')"
  using assms by (simp_all add: user_view_def)

lemma view_recipients:
  assumes "user_view E s t = user_view E s t'" and "may_read E t s i"
  shows "may_read E t' s i"
proof (cases "s_admin s")
  case False
  then obtain r where r: "r \<in> set (db_recipients t)" "r_message r = i" "same_text E (r_email r) (s_email s)"
    using assms(2) by (auto simp: may_read_def recipient_exists_def list_ex_iff)
  then have "r \<in> set (filter (\<lambda>r. may_read E t s (r_message r)) (db_recipients t))" using assms(2) by simp
  then have "r \<in> set (db_recipients t')" unfolding user_viewD(2) [OF assms(1)] by simp
  then show ?thesis using r by (auto simp: may_read_def recipient_exists_def list_ex_iff)
qed (simp add: may_read_def)

lemma view_may_read: "user_view E s t = user_view E s t' \<Longrightarrow> may_read E t s i = may_read E t' s i"
  using view_recipients [of E s t t' i] view_recipients [of E s t' t i] by auto

text \<open>The queries of the source, as filters of what the session may read.\<close>

lemma queries_of_view:
  "messageAuthQuery E s i t = filter (\<lambda>m. m_id m = i) (filter (\<lambda>m. may_read E t s (m_id m)) (db_messages t))"
  "filter (listWhere E Q s q t) (db_messages t) =
     filter (\<lambda>m. isSearchQueryUsable q \<longrightarrow> q_match Q q (m_sender m, m_subject m, m_text m))
       (filter (\<lambda>m. may_read E t s (m_id m)) (db_messages t))"
  "attachmentAuthQuery E s i idx t = take 1 (drop (nat idx) (sort_key a_id
     (filter (\<lambda>a. a_message a = i \<and> message_exists (a_message a) t) (filter (\<lambda>a. may_read E t s (a_message a)) (db_attachments t)))))"
  by (simp_all add: messageAuthQuery_def attachmentAuthQuery_def listWhere_def [abs_def] may_read_def conj_commute)
    (auto intro: arg_cong2 [where f = "\<lambda>P xs. take (Suc 0) (drop (nat idx) (sort_key a_id (filter P xs)))"] filter_cong)

lemma filter_under:
  "may_read E t s i \<Longrightarrow> filter (\<lambda>x. f x = i) xs = filter (\<lambda>x. f x = i) (filter (\<lambda>x. may_read E t s (f x)) xs)"
  by (auto intro!: filter_cong)

lemma view_exists:
  assumes "user_view E s t = user_view E s t'" and "may_read E t s i"
  shows "message_exists i t = message_exists i t'"
proof -
  have "message_exists i u \<longleftrightarrow> i \<in> m_id ` set (filter (\<lambda>m. may_read E u s (m_id m)) (db_messages u))" if "may_read E u s i" for u
    using that unfolding message_exists_iff by auto
  from this [OF assms(2)] this [OF view_recipients [OF assms]] show ?thesis by (simp only: user_viewD(1) [OF assms(1)])
qed

lemma view_queries:
  assumes v: "user_view E s t = user_view E s t'"
  shows "messageAuthQuery E s i t = messageAuthQuery E s i t'"
    and "filter (listWhere E Q s q t) (db_messages t) = filter (listWhere E Q s q t') (db_messages t')"
    and "may_read E t s i \<Longrightarrow> filter (\<lambda>r. r_message r = i) (db_recipients t) = filter (\<lambda>r. r_message r = i) (db_recipients t')"
    and "may_read E t s i \<Longrightarrow> filter (\<lambda>a. a_message a = i) (db_attachments t) = filter (\<lambda>a. a_message a = i) (db_attachments t')"
proof -
  show "messageAuthQuery E s i t = messageAuthQuery E s i t'"
    "filter (listWhere E Q s q t) (db_messages t) = filter (listWhere E Q s q t') (db_messages t')"
    by (simp_all only: queries_of_view user_viewD(1) [OF v])
  assume i: "may_read E t s i"
  note u = filter_under [OF i] filter_under [OF view_recipients [OF v i]]
  show "filter (\<lambda>r. r_message r = i) (db_recipients t) = filter (\<lambda>r. r_message r = i) (db_recipients t')"
    using u(1) [of r_message "db_recipients t"] u(2) [of r_message "db_recipients t'"] by (simp only: user_viewD(2) [OF v])
  show "filter (\<lambda>a. a_message a = i) (db_attachments t) = filter (\<lambda>a. a_message a = i) (db_attachments t')"
    using u(1) [of a_message "db_attachments t"] u(2) [of a_message "db_attachments t'"] by (simp only: user_viewD(3) [OF v])
qed

lemma view_attachment_query:
  assumes v: "user_view E s t = user_view E s t'"
  shows "attachmentAuthQuery E s i idx t = attachmentAuthQuery E s i idx t'"
proof -
  have "filter (\<lambda>a. a_message a = i \<and> message_exists (a_message a) t) (filter (\<lambda>a. may_read E t s (a_message a)) (db_attachments t)) =
    filter (\<lambda>a. a_message a = i \<and> message_exists (a_message a) t') (filter (\<lambda>a. may_read E t s (a_message a)) (db_attachments t))"
    by (rule filter_cong) (use view_exists [OF v] in auto)
  then show ?thesis by (simp only: queries_of_view(3) user_viewD(3) [OF v])
qed

text \<open>A statement that reads answers by the tables and the state of the connection alone.\<close>

lemma exec_read_cong:
  assumes "db_faults d = db_faults d'"
    and "\<And>fs. fst (f (d\<lparr>db_faults := fs\<rparr>)) = fst (g (d'\<lparr>db_faults := fs\<rparr>))"
    and "\<And>u. snd (f u) = u" and "\<And>u. snd (g u) = u"
  shows "fst (exec_stmt f d) = fst (exec_stmt g d')" and "db_faults (snd (exec_stmt f d)) = db_faults (snd (exec_stmt g d'))"
proof -
  have "fst (f d) = fst (g d')" using assms(2) [of "db_faults d"] by (simp add: assms(1)) (simp flip: assms(1))
  then have "fst (exec_stmt f d) = fst (exec_stmt g d') \<and> db_faults (snd (exec_stmt f d)) = db_faults (snd (exec_stmt g d'))"
    using assms(2-4) by (cases "db_faults d'") (auto simp: assms(1) exec_stmt_def next_db_fault_def split: db_fault.split)
  then show "fst (exec_stmt f d) = fst (exec_stmt g d')" "db_faults (snd (exec_stmt f d)) = db_faults (snd (exec_stmt g d'))" by auto
qed

lemma query_row_cong:
  assumes "db_faults d = db_faults d'" and "q (db_tables d) = q' (db_tables d')"
  shows "fst (query_row q d) = fst (query_row q' d')" and "db_faults (snd (query_row q d)) = db_faults (snd (query_row q' d'))"
  unfolding query_row_def by (rule exec_read_cong; use assms in simp)+

lemma query_rows_cong:
  assumes "db_faults d = db_faults d'" and "q (db_tables d) = q' (db_tables d')"
  shows "fst (query_rows q d) = fst (query_rows q' d')" and "db_faults (snd (query_rows q d)) = db_faults (snd (query_rows q' d'))"
  unfolding query_rows_def by (rule exec_read_cong; use assms in simp)+

lemma list_stmt_cong:
  assumes "db_faults d = db_faults d'" and "f (db_tables d) = g (db_tables d')"
  shows "fst (list_stmt Q q f d) = fst (list_stmt Q q g d')" and "db_faults (snd (list_stmt Q q f d)) = db_faults (snd (list_stmt Q q g d'))"
  unfolding list_stmt_def by (rule exec_read_cong; use assms in simp)+

lemma select_page_cong:
  assumes "db_faults d = db_faults d'" and "user_view E s (db_tables d) = user_view E s (db_tables d')"
  shows "fst (select_page E Q s q n off d) = fst (select_page E Q s q n off d')"
proof -
  have "page_rows E Q s q n off (db_tables d) = page_rows E Q s q n off (db_tables d')"
    by (simp only: page_rows_def view_queries(2) [OF assms(2)])
  moreover have "fst (exec_stmt (\<lambda>db. (Inl ErrStatement, db)) d) = fst (exec_stmt (\<lambda>db. (Inl ErrStatement, db)) d')"
    by (rule exec_read_cong(1); use assms in simp)
  ultimately show ?thesis unfolding select_page_def by (auto intro: list_stmt_cong(1) assms(1))
qed

lemma getMessage_cong:
  assumes f: "db_faults d = db_faults d'" and v: "user_view E s (db_tables d) = user_view E s (db_tables d')"
  shows "fst (getMessage E i s d) = fst (getMessage E i s d')"
proof -
  let ?q = "messageAuthQuery E s i"
  note q = query_row_cong [where q = ?q and q' = ?q, OF f view_queries(1) [OF v]]
  obtain x d1 d1' where d1: "query_row ?q d = (x, d1)" and d1': "query_row ?q d' = (x, d1')" and f1: "db_faults d1 = db_faults d1'"
    using q by (metis prod.collapse)
  have t: "db_tables d1 = db_tables d" "db_tables d1' = db_tables d'" using query_row_keeps d1 d1' by blast+
  show ?thesis
  proof (cases x)
    case (Inr m)
    have i: "may_read E (db_tables d) s i"
      using query_row_Inr [OF d1 [unfolded Inr]] auth_query_members(1) by (metis list.set_intros(1))
    have r: "fst (api_recipients i d1) = fst (api_recipients i d1')" "db_faults (snd (api_recipients i d1)) = db_faults (snd (api_recipients i d1'))"
      unfolding api_recipients_def by (rule query_rows_cong [OF f1]; simp add: t view_queries(3) [OF v i])+
    then obtain y d2 d2' where d2: "api_recipients i d1 = (y, d2)" and d2': "api_recipients i d1' = (y, d2')" and f2: "db_faults d2 = db_faults d2'"
      by (metis prod.collapse)
    have t2: "db_tables d2 = db_tables d" "db_tables d2' = db_tables d'"
      using query_rows_keeps d2 d2' t unfolding api_recipients_def by metis+
    have "fst (api_attachments i d2) = fst (api_attachments i d2')"
      unfolding api_attachments_def by (rule query_rows_cong(1) [OF f2]) (simp add: t2 view_queries(4) [OF v i])
    then show ?thesis
      using d1 d1' d2 d2' Inr by (cases y) (auto simp: getMessage_def andthen_def split: prod.splits sum.splits)
  qed (use d1 d1' in \<open>simp add: getMessage_def andthen_def\<close>)
qed

lemma ReadRawMIME_cong:
  "fs_faults fs = fs_faults fs' \<Longrightarrow> raw_blob base k fs = raw_blob base k fs' \<Longrightarrow>
   fst (ReadRawMIME base k fs) = fst (ReadRawMIME base k fs')"
  by (cases "fs_faults fs'") (simp_all add: ReadRawMIME_def os_ReadFile_def next_fault_def raw_blob_def split: option.splits)

lemma ReadAttachment_cong:
  "fs_faults fs = fs_faults fs' \<Longrightarrow> attachment_blob base (i, k) fs = attachment_blob base (i, k) fs' \<Longrightarrow>
   fst (ReadAttachment base i k fs) = fst (ReadAttachment base i k fs')"
  by (cases "fs_faults fs'") (simp_all add: ReadAttachment_def os_ReadFile_def next_fault_def attachment_blob_def split: option.splits)

lemma fst_split: "fst p = fst p' \<Longrightarrow> \<exists>x y z. p = (x, y) \<and> p' = (x, z)"
  by (metis prod.collapse)

lemma GetMessage_cong:
  assumes "same_view E base s wd wd'"
  shows "fst (GetMessage E (Some s) r w wd) = fst (GetMessage E (Some s) r w wd')"
proof (cases "numericURLParam r ''id''")
  case (Some i)
  have "fst (getMessage E i s (wd_db wd)) = fst (getMessage E i s (wd_db wd'))"
    using assms by (intro getMessage_cong) (simp_all add: same_view_def)
  from fst_split [OF this] obtain x d d' where "getMessage E i s (wd_db wd) = (x, d)" "getMessage E i s (wd_db wd') = (x, d')" by blast
  then show ?thesis using Some by (cases x) (simp_all add: GetMessage_def)
qed (simp add: GetMessage_def)

lemma GetRawMIME_cong:
  assumes "same_view E base s wd wd'"
  shows "fst (GetRawMIME E base (Some s) r w wd) = fst (GetRawMIME E base (Some s) r w wd')"
proof (cases "numericURLParam r ''id''")
  case (Some i)
  let ?q = "rawMessageAuthQuery E s i"
  have v: "user_view E s (db_tables (wd_db wd)) = user_view E s (db_tables (wd_db wd'))"
    and f: "db_faults (wd_db wd) = db_faults (wd_db wd')" "fs_faults (wd_fs wd) = fs_faults (wd_fs wd')"
    using assms by (simp_all add: same_view_def)
  have e: "fst (query_row ?q (wd_db wd)) = fst (query_row ?q (wd_db wd'))"
    by (rule query_row_cong(1) [OF f(1)]) (simp add: auth_query_members(2) view_queries(1) [OF v])
  from fst_split [OF e] obtain x d1 d1' where d1: "query_row ?q (wd_db wd) = (x, d1)" and d1': "query_row ?q (wd_db wd') = (x, d1')" by blast
  show ?thesis
  proof (cases x)
    case (Inr h)
    obtain hs where "?q (db_tables (wd_db wd)) = h # hs" using query_row_Inr [OF d1 [unfolded Inr]] by blast
    then have "h \<in> m_hash ` set (messageAuthQuery E s i (db_tables (wd_db wd)))"
      unfolding auth_query_members(2) by (metis list.set_intros(1) set_map)
    then have "raw_blob base h (wd_fs wd) = raw_blob base h (wd_fs wd')"
      using assms by (auto simp: same_view_def auth_query_members(1))
    from fst_split [OF ReadRawMIME_cong [OF f(2) this]] obtain y f1 f1'
      where "ReadRawMIME base h (wd_fs wd) = (y, f1)" "ReadRawMIME base h (wd_fs wd') = (y, f1')" by blast
    then show ?thesis using Some d1 d1' Inr by (cases y) (simp_all add: GetRawMIME_def)
  qed (use Some d1 d1' in \<open>simp add: GetRawMIME_def\<close>)
qed (simp add: GetRawMIME_def)

lemma GetAttachment_cong:
  assumes "same_view E base s wd wd'"
  shows "fst (GetAttachment E base (Some s) r w wd) = fst (GetAttachment E base (Some s) r w wd')"
proof (cases "numericURLParam r ''id'' = None \<or> numericURLParamAllowZero r ''idx'' = None")
  case False
  then obtain i idx where p: "numericURLParam r ''id'' = Some i" "numericURLParamAllowZero r ''idx'' = Some idx" by auto
  let ?q = "attachmentAuthQuery E s i idx"
  have v: "user_view E s (db_tables (wd_db wd)) = user_view E s (db_tables (wd_db wd'))"
    and f: "db_faults (wd_db wd) = db_faults (wd_db wd')" "fs_faults (wd_fs wd) = fs_faults (wd_fs wd')"
    using assms by (simp_all add: same_view_def)
  have e: "fst (query_row ?q (wd_db wd)) = fst (query_row ?q (wd_db wd'))"
    by (rule query_row_cong(1) [OF f(1)]) (rule view_attachment_query [OF v])
  from fst_split [OF e] obtain x d1 d1' where d1: "query_row ?q (wd_db wd) = (x, d1)" and d1': "query_row ?q (wd_db wd') = (x, d1')" by blast
  show ?thesis
  proof (cases x)
    case (Inr a)
    obtain as where "?q (db_tables (wd_db wd)) = a # as" using query_row_Inr [OF d1 [unfolded Inr]] by blast
    then have "a \<in> set (db_attachments (db_tables (wd_db wd))) \<and> a_message a = i \<and> may_read E (db_tables (wd_db wd)) s i"
      by (rule attachment_query_members)
    then have "attachment_blob base (i, a_key a) (wd_fs wd) = attachment_blob base (i, a_key a) (wd_fs wd')"
      using assms by (auto simp: same_view_def)
    from fst_split [OF ReadAttachment_cong [OF f(2) this]] obtain y f1 f1'
      where "ReadAttachment base i (a_key a) (wd_fs wd) = (y, f1)" "ReadAttachment base i (a_key a) (wd_fs wd') = (y, f1')" by blast
    then show ?thesis using p d1 d1' Inr by (cases y) (simp_all add: GetAttachment_def)
  qed (use p d1 d1' in \<open>simp add: GetAttachment_def\<close>)
qed (auto simp: GetAttachment_def split: option.splits)

lemma ListMessages_cong:
  assumes "same_view E base s wd wd'"
  shows "fst (ListMessages E Q (Some s) r w wd) = fst (ListMessages E Q (Some s) r w wd')"
proof -
  let ?q = "trim_space (rq_query r ''q'')"
  let ?c = "\<lambda>t. length (filter (listWhere E Q s ?q t) (db_messages t))"
  have v: "user_view E s (db_tables (wd_db wd)) = user_view E s (db_tables (wd_db wd'))"
    and f: "db_faults (wd_db wd) = db_faults (wd_db wd')" using assms by (simp_all add: same_view_def)
  note c = list_stmt_cong [where f = ?c and g = ?c and Q = Q and q = ?q, OF f arg_cong [OF view_queries(2) [OF v], of length]]
  from fst_split [OF c(1)] obtain x d1 d1' where d1: "list_stmt Q ?q ?c (wd_db wd) = (x, d1)"
    and d1': "list_stmt Q ?q ?c (wd_db wd') = (x, d1')" by blast
  have f1: "db_faults d1 = db_faults d1'" using c(2) d1 d1' by simp
  let ?p = "select_page E Q s ?q (list_per_page r) (wrap64 (wrap64 (list_page r - 1) * list_per_page r))"
  have "fst (?p d1) = fst (?p d1')"
    by (rule select_page_cong [OF f1]) (use v list_stmt_keeps [OF d1] list_stmt_keeps [OF d1'] in simp)
  from fst_split [OF this] obtain y d2 d2' where "?p d1 = (y, d2)" "?p d1' = (y, d2')" by blast
  then show ?thesis using d1 d1' by (cases x; cases y) (simp_all add: ListMessages_def Let_def)
qed


section \<open>Mail for others\<close>

text \<open>
  The tables only grow, the new rows belong to new messages, and the files of old attachments stay.
\<close>

definition adds_mail :: "string \<Rightarrow> world \<Rightarrow> world \<Rightarrow> bool" where
  "adds_mail base wd wd' \<longleftrightarrow>
     (let t = db_tables (wd_db wd); t' = db_tables (wd_db wd') in
      (\<exists>ms rs as. db_messages t' = db_messages t @ ms \<and> db_recipients t' = db_recipients t @ rs \<and>
         db_attachments t' = db_attachments t @ as \<and>
         (\<forall>i \<in> m_id ` set ms \<union> r_message ` set rs \<union> a_message ` set as. \<not> message_exists i t)) \<and>
      (\<forall>a \<in> set (db_attachments t). attachment_blob base (a_message a, a_key a) (wd_fs wd') =
         attachment_blob base (a_message a, a_key a) (wd_fs wd)))"

lemma adds_mailI:
  assumes "db_messages (db_tables (wd_db wd')) = db_messages (db_tables (wd_db wd)) @ ms"
    and "db_recipients (db_tables (wd_db wd')) = db_recipients (db_tables (wd_db wd)) @ rs"
    and "db_attachments (db_tables (wd_db wd')) = db_attachments (db_tables (wd_db wd)) @ as"
    and "\<And>i. i \<in> m_id ` set ms \<union> r_message ` set rs \<union> a_message ` set as \<Longrightarrow> \<not> message_exists i (db_tables (wd_db wd))"
    and "\<And>a. a \<in> set (db_attachments (db_tables (wd_db wd))) \<Longrightarrow>
      attachment_blob base (a_message a, a_key a) (wd_fs wd') = attachment_blob base (a_message a, a_key a) (wd_fs wd)"
  shows "adds_mail base wd wd'"
  unfolding adds_mail_def Let_def using assms by blast

lemma adds_mailE:
  assumes "adds_mail base wd wd'"
  obtains ms rs as where "db_messages (db_tables (wd_db wd')) = db_messages (db_tables (wd_db wd)) @ ms"
    and "db_recipients (db_tables (wd_db wd')) = db_recipients (db_tables (wd_db wd)) @ rs"
    and "db_attachments (db_tables (wd_db wd')) = db_attachments (db_tables (wd_db wd)) @ as"
    and "\<And>i. i \<in> m_id ` set ms \<union> r_message ` set rs \<union> a_message ` set as \<Longrightarrow> \<not> message_exists i (db_tables (wd_db wd))"
    and "\<And>a. a \<in> set (db_attachments (db_tables (wd_db wd))) \<Longrightarrow>
      attachment_blob base (a_message a, a_key a) (wd_fs wd') = attachment_blob base (a_message a, a_key a) (wd_fs wd)"
proof -
  from assms obtain ms rs as where m: "db_messages (db_tables (wd_db wd')) = db_messages (db_tables (wd_db wd)) @ ms"
    and r: "db_recipients (db_tables (wd_db wd')) = db_recipients (db_tables (wd_db wd)) @ rs"
    and a: "db_attachments (db_tables (wd_db wd')) = db_attachments (db_tables (wd_db wd)) @ as"
    and n: "\<forall>i \<in> m_id ` set ms \<union> r_message ` set rs \<union> a_message ` set as. \<not> message_exists i (db_tables (wd_db wd))"
    unfolding adds_mail_def Let_def by (elim conjE exE)
  from assms have f: "\<forall>a \<in> set (db_attachments (db_tables (wd_db wd))).
      attachment_blob base (a_message a, a_key a) (wd_fs wd') = attachment_blob base (a_message a, a_key a) (wd_fs wd)"
    unfolding adds_mail_def Let_def by (rule conjunct2)
  show ?thesis by (rule that [OF m r a bspec [OF n] bspec [OF f]])
qed


lemma adds_mail_same:
  assumes "db_tables (wd_db wd') = db_tables (wd_db wd)"
    and "\<And>a. a \<in> set (db_attachments (db_tables (wd_db wd))) \<Longrightarrow>
      attachment_blob base (a_message a, a_key a) (wd_fs wd') = attachment_blob base (a_message a, a_key a) (wd_fs wd)"
  shows "adds_mail base wd wd'"
  by (rule adds_mailI [of _ _ "[]" "[]" "[]"]) (simp_all add: assms)

lemma adds_mail_trans:
  assumes "adds_mail base a b" and "adds_mail base b c"
  shows "adds_mail base a c"
proof (rule adds_mailE [OF assms(1)])
  fix ms rs as assume ab: "db_messages (db_tables (wd_db b)) = db_messages (db_tables (wd_db a)) @ ms"
    "db_recipients (db_tables (wd_db b)) = db_recipients (db_tables (wd_db a)) @ rs"
    "db_attachments (db_tables (wd_db b)) = db_attachments (db_tables (wd_db a)) @ as"
    and new: "\<And>i. i \<in> m_id ` set ms \<union> r_message ` set rs \<union> a_message ` set as \<Longrightarrow> \<not> message_exists i (db_tables (wd_db a))"
    and f: "\<And>x. x \<in> set (db_attachments (db_tables (wd_db a))) \<Longrightarrow>
      attachment_blob base (a_message x, a_key x) (wd_fs b) = attachment_blob base (a_message x, a_key x) (wd_fs a)"
  show ?thesis
  proof (rule adds_mailE [OF assms(2)])
    fix ms' rs' as' assume bc: "db_messages (db_tables (wd_db c)) = db_messages (db_tables (wd_db b)) @ ms'"
      "db_recipients (db_tables (wd_db c)) = db_recipients (db_tables (wd_db b)) @ rs'"
      "db_attachments (db_tables (wd_db c)) = db_attachments (db_tables (wd_db b)) @ as'"
      and new': "\<And>i. i \<in> m_id ` set ms' \<union> r_message ` set rs' \<union> a_message ` set as' \<Longrightarrow> \<not> message_exists i (db_tables (wd_db b))"
      and f': "\<And>x. x \<in> set (db_attachments (db_tables (wd_db b))) \<Longrightarrow>
        attachment_blob base (a_message x, a_key x) (wd_fs c) = attachment_blob base (a_message x, a_key x) (wd_fs b)"
    have old: "message_exists i (db_tables (wd_db b))" if "message_exists i (db_tables (wd_db a))" for i
      using that ab(1) by (auto simp: message_exists_iff)
    show ?thesis
    proof (rule adds_mailI)
      show "db_messages (db_tables (wd_db c)) = db_messages (db_tables (wd_db a)) @ (ms @ ms')"
        "db_recipients (db_tables (wd_db c)) = db_recipients (db_tables (wd_db a)) @ (rs @ rs')"
        "db_attachments (db_tables (wd_db c)) = db_attachments (db_tables (wd_db a)) @ (as @ as')" by (simp_all add: ab bc)
      show "\<not> message_exists i (db_tables (wd_db a))"
        if "i \<in> m_id ` set (ms @ ms') \<union> r_message ` set (rs @ rs') \<union> a_message ` set (as @ as')" for i
        using that new [of i] new' [of i] old [of i] by (simp add: image_Un) blast
    qed (use f f' ab(3) in simp)
  qed
qed

lemma stored_attachment_safe:
  assumes "world_inv E base wd" and "sha256_ok E" and "a \<in> set (db_attachments (db_tables (wd_db wd)))"
  shows "safe_comp (a_key a) \<and> 0 < a_message a \<and> a_message a < db_next_message (wd_db wd)"
  using assms attachment_message_id [OF world_invD(3) [OF assms(1)]] attachment_stored_key HashBytes_safe [OF assms(2)]
  unfolding world_inv_def by metis

lemma next_message_new:
  assumes "db_inv E db"
  shows "\<not> message_exists (db_next_message db) (db_tables db)"
  using assms by (auto simp: message_exists_iff db_inv_def Let_def ids_ok_def)

lemma ingest_phase_adds:
  assumes sha: "sha256_ok E" and inv: "world_inv E base wd" and ph: "ingest_phase E base clk w ph wd = (ph', wd')"
  shows "adds_mail base wd wd'"
proof (cases ph)
  case (Received raw)
  obtain r where d: "isDuplicate E (HashBytes E raw) wd = (r, wd')"
    using ph Received by (auto split: prod.splits sum.splits bool.splits)
  from isDuplicate_keeps [OF d] show ?thesis by (intro adds_mail_same) auto
next
  case (Checked raw)
  obtain r fs' where s: "SaveRawMIME base (HashBytes E raw) raw (wd_fs wd) = (r, fs')" by fastforce
  have wd': "wd' = wd\<lparr>wd_fs := fs'\<rparr>" using ph Checked s by (cases r) (auto simp: on_fs_def)
  have base: "base \<noteq> []" using world_invD(1) [OF inv] by (simp add: storage_inv_def)
  have "attachment_blob base (a_message a, a_key a) fs' = attachment_blob base (a_message a, a_key a) (wd_fs wd)"
    if "a \<in> set (db_attachments (db_tables (wd_db wd)))" for a
  proof -
    have "attachment_path base (a_message a) (a_key a) \<noteq> raw_path base (HashBytes E raw)"
      using stored_attachment_safe [OF inv sha that] base HashBytes_safe [OF sha] by (simp add: raw_path_eq attachment_path_eq)
    then show ?thesis
      using SaveRawMIME_effect [OF world_invD(1) [OF inv] HashBytes_safe [OF sha] s]
      unfolding attachment_blob_def fst_conv snd_conv by blast
  qed
  then show ?thesis by (intro adds_mail_same) (simp_all add: wd')
next
  case (Saved raw)
  obtain p st err where pf: "parse_or_fallback E clk raw = (p, st, err)" by (metis prod_cases3)
  obtain r wd2 where ps: "persist E base clk p st err wd = (r, wd2)" by fastforce
  have wd': "wd' = wd2" using ph Saved pf ps by (cases r) auto
  have p: "hashed E p" using parse_or_fallback_facts [OF pf sha] by simp
  have base: "base \<noteq> []" using world_invD(1) [OF inv] by (simp add: storage_inv_def)
  have fr: "mail_frame base (db_next_message (wd_db wd)) (wd_fs wd) (wd_fs wd2)"
    using persist_frame [OF sha p world_invD(3,1) [OF inv], of clk st err] ps by simp
  have blobs: "attachment_blob base (a_message a, a_key a) (wd_fs wd2) = attachment_blob base (a_message a, a_key a) (wd_fs wd)"
    if a: "a \<in> set (db_attachments (db_tables (wd_db wd)))" for a
  proof -
    note sa = stored_attachment_safe [OF inv sha a]
    have "attachment_path base (a_message a) (a_key a) \<noteq> attachment_path base (db_next_message (wd_db wd)) l" if "safe_comp l" for l
      using safe_attachment_path_inj [OF base _ _ _ that, of "a_message a" "db_next_message (wd_db wd)" "a_key a"] sa by simp
    then show ?thesis using fr unfolding mail_frame_def attachment_blob_def fst_conv snd_conv by blast
  qed
  have added: ?thesis if t: "db_tables (wd_db wd2) = add_mail clk p st err (wd_db wd)"
  proof (rule adds_mailI)
    let ?n = "db_next_message (wd_db wd)"
    show "db_messages (db_tables (wd_db wd')) = db_messages (db_tables (wd_db wd)) @ [stored_message clk p st err ?n]"
      "db_recipients (db_tables (wd_db wd')) = db_recipients (db_tables (wd_db wd)) @
         map (stored_recipient clk ?n (db_next_recipient (wd_db wd))) (enumerate 0 (Recipients p))"
      "db_attachments (db_tables (wd_db wd')) = db_attachments (db_tables (wd_db wd)) @
         map (stored_attachment ?n (db_next_attachment (wd_db wd))) (enumerate 0 (Attachments p))"
      by (simp_all add: wd' t add_mail_def Let_def)
    show "\<not> message_exists i (db_tables (wd_db wd))"
      if "i \<in> m_id ` set [stored_message clk p st err ?n] \<union>
        r_message ` set (map (stored_recipient clk ?n (db_next_recipient (wd_db wd))) (enumerate 0 (Recipients p))) \<union>
        a_message ` set (map (stored_attachment ?n (db_next_attachment (wd_db wd))) (enumerate 0 (Attachments p)))" for i
    proof -
      have "i = ?n"
        using that by (auto simp: stored_message_def Let_def stored_recipient_def new_recipient_def stored_attachment_def new_attachment_def)
      then show ?thesis using next_message_new [OF world_invD(3) [OF inv]] by simp
    qed
  qed (use blobs wd' in simp)
  show ?thesis
    by (cases rule: persist_cases [OF ps]) (use added blobs wd' in \<open>auto intro: adds_mail_same\<close>)
next
  case (Finished r)
  then show ?thesis using ph by (intro adds_mail_same) simp_all
qed

lemma steps_add:
  assumes "rtranclp (ingest_step E base) s s'" and "sha256_ok E" and "world_inv E base (fst s)"
  shows "adds_mail base (fst s) (fst s')"
  using assms(1)
proof (induction rule: rtranclp_induct)
  case base
  then show ?case by (simp add: adds_mail_same)
next
  case (step t t')
  have inv: "world_inv E base (fst t)" using steps_extend [OF step.hyps(1) assms(2,3)] by simp
  from step.hyps(2) have "adds_mail base (fst t) (fst t')"
    by (cases rule: ingest_stepE) (use ingest_phase_adds [OF assms(2)] inv in \<open>auto intro: adds_mail_same\<close>)
  then show ?case using step.IH adds_mail_trans by blast
qed

text \<open>What others are sent does not enter a user's view.\<close>

lemma adds_mail_view:
  assumes a: "adds_mail base wd wd'" and inv: "db_inv E (wd_db wd)" and s: "\<not> s_admin s"
    and others: "\<forall>r \<in> set (db_recipients (db_tables (wd_db wd'))) - set (db_recipients (db_tables (wd_db wd))).
      \<not> same_text E (r_email r) (s_email s)"
  shows "user_view E s (db_tables (wd_db wd)) = user_view E s (db_tables (wd_db wd'))"
proof (rule adds_mailE [OF a])
  let ?t = "db_tables (wd_db wd)" and ?t' = "db_tables (wd_db wd')"
  fix ms rs as assume t': "db_messages ?t' = db_messages ?t @ ms" "db_recipients ?t' = db_recipients ?t @ rs"
    "db_attachments ?t' = db_attachments ?t @ as"
    and new: "\<And>i. i \<in> m_id ` set ms \<union> r_message ` set rs \<union> a_message ` set as \<Longrightarrow> \<not> message_exists i ?t"
  have m: "may_read E ?t' s i = may_read E ?t s i" for i
    using others s unfolding may_read_def recipient_exists_def list_ex_iff t'(2) set_append by blast
  have "message_exists i ?t" if i: "may_read E ?t s i" for i
  proof -
    obtain r where "r \<in> set (db_recipients ?t)" "r_message r = i" using i s by (auto simp: may_read_def recipient_exists_def list_ex_iff)
    then show ?thesis using inv by (auto simp: message_exists_iff db_inv_def Let_def)
  qed
  then have "\<not> may_read E ?t s i" if "i \<in> m_id ` set ms \<union> r_message ` set rs \<union> a_message ` set as" for i
    using new [OF that] by blast
  then have "filter (\<lambda>m. may_read E ?t s (m_id m)) ms = []" "filter (\<lambda>r. may_read E ?t s (r_message r)) rs = []"
    "filter (\<lambda>a. may_read E ?t s (a_message a)) as = []" by (simp_all add: filter_empty_conv)
  then show ?thesis by (simp add: user_view_def m t')
qed

lemma others_same_view:
  assumes sha: "sha256_ok E" and inv: "world_inv E base wd"
    and raw: "\<forall>m \<in> set (db_messages (db_tables (wd_db wd))). raw_blob base (m_hash m) (wd_fs wd) \<noteq> None"
    and later: "rtranclp (ingest_step E base) (wd, pool) (wd', pool')" and s: "\<not> s_admin s"
    and others: "\<forall>r \<in> set (db_recipients (db_tables (wd_db wd'))) - set (db_recipients (db_tables (wd_db wd))).
      \<not> same_text E (r_email r) (s_email s)"
  shows "same_view E base s (quiet wd) (quiet wd')"
proof -
  have a: "adds_mail base wd wd'" using steps_add [OF later sha] inv by simp
  have e: "mail_extends base wd wd'" using steps_extend [OF later sha] inv by simp
  have "raw_blob base (m_hash m) (wd_fs wd) = raw_blob base (m_hash m) (wd_fs wd')"
    if m: "m \<in> set (db_messages (db_tables (wd_db wd)))" for m
  proof -
    obtain d where "raw_blob base (m_hash m) (wd_fs wd) = Some d" using raw m by blast
    moreover have "safe_comp (m_hash m)" using inv m HashBytes_safe [OF sha] unfolding world_inv_def by metis
    ultimately show ?thesis using e unfolding mail_extends_def by metis
  qed
  moreover have "attachment_blob base (a_message x, a_key x) (wd_fs wd) = attachment_blob base (a_message x, a_key x) (wd_fs wd')"
    if "x \<in> set (db_attachments (db_tables (wd_db wd)))" for x
    using a that by (auto elim: adds_mailE)
  ultimately show ?thesis
    using adds_mail_view [OF a world_invD(3) [OF inv] s others] by (simp add: same_view_def)
qed

section \<open>Properties\<close>

text \<open>
  Property C18: users are isolated. The answers of the four read handlers to a session depend only on the
  messages it may read, their recipients, attachments and files, and on the behaviour of disk and database:
  in two worlds that agree on these it gets the same answers, to whatever request. So no status, count,
  page or error of a user depends on mail he is not a recipient of.
\<close>

theorem user_isolation:
  assumes "same_view E base s wd wd'"
  shows "fst (GetMessage E (Some s) r w wd) = fst (GetMessage E (Some s) r w wd') \<and>
    fst (GetRawMIME E base (Some s) r w wd) = fst (GetRawMIME E base (Some s) r w wd') \<and>
    fst (GetAttachment E base (Some s) r w wd) = fst (GetAttachment E base (Some s) r w wd') \<and>
    fst (ListMessages E Q (Some s) r w wd) = fst (ListMessages E Q (Some s) r w wd')"
  by (intro conjI GetMessage_cong [OF assms] GetRawMIME_cong [OF assms] GetAttachment_cong [OF assms] ListMessages_cong [OF assms])

text \<open>Alice's mailbox beside a message for somebody else.\<close>

definition shared_mailbox :: world where
  "shared_mailbox = mailbox\<lparr>wd_db := (wd_db mailbox)\<lparr>db_tables := (db_tables (wd_db mailbox))\<lparr>
     db_messages := db_messages (db_tables (wd_db mailbox)) @ [stored_message demo_clock (plain_message ''secret'') ''success'' None 2],
     db_recipients := db_recipients (db_tables (wd_db mailbox)) @
       [stored_recipient demo_clock 2 2 (0, \<lparr>Email = ''bob@example.org'', Type = ''to''\<rparr>)]\<rparr>\<rparr>\<rparr>"

lemma shared_may_read:
  "may_read plain_ext (db_tables (wd_db shared_mailbox)) alice i = (i = 1)"
  "may_read plain_ext (db_tables (wd_db mailbox)) alice i = (i = 1)"
  unfolding shared_mailbox_def mailbox_tables
  by (auto simp: may_read_def recipient_exists_def add_mail_def Let_def plain_message_def zero_parsed_def same_text_def plain_ext_sel
      stored_recipient_def new_recipient_def alice_def empty_tables_def mailbox_tables) (auto simp: empty_database_def)

theorem user_isolation_witness:
  "rs_body (fst (GetRawMIME plain_ext ''data'' (Some alice) (by_id 1) fresh_writer shared_mailbox)) = Bytes ''hello''"
proof -
  have "same_view plain_ext ''data'' alice mailbox shared_mailbox"
    by (simp add: same_view_def user_view_def shared_may_read)
      (simp add: shared_mailbox_def stored_message_def Let_def stored_recipient_def new_recipient_def)
  from user_isolation [OF this, of "by_id 1" fresh_writer] show ?thesis using mailbox_read(2) by simp
qed

text \<open>
  Property C19: mail for others leaves no trace. Starting with complete raw files, any number of deliveries,
  interleaved and failing in any way, none of which adds a recipient row for the user, leaves every answer he
  gets from a working server the same: no total that grows, no id that starts to answer, no file that
  changes.
\<close>

theorem mail_for_others:
  assumes "sha256_ok E" and "world_inv E base wd"
    and "\<forall>m \<in> set (db_messages (db_tables (wd_db wd))). raw_blob base (m_hash m) (wd_fs wd) \<noteq> None"
    and "rtranclp (ingest_step E base) (wd, pool) (wd', pool')" and "\<not> s_admin s"
    and "\<forall>r \<in> set (db_recipients (db_tables (wd_db wd'))) - set (db_recipients (db_tables (wd_db wd))).
      \<not> same_text E (r_email r) (s_email s)"
  shows "fst (ListMessages E Q (Some s) r w (quiet wd')) = fst (ListMessages E Q (Some s) r w (quiet wd)) \<and>
    fst (GetMessage E (Some s) r w (quiet wd')) = fst (GetMessage E (Some s) r w (quiet wd)) \<and>
    fst (GetRawMIME E base (Some s) r w (quiet wd')) = fst (GetRawMIME E base (Some s) r w (quiet wd)) \<and>
    fst (GetAttachment E base (Some s) r w (quiet wd')) = fst (GetAttachment E base (Some s) r w (quiet wd))"
proof -
  note v = others_same_view [OF assms]
  show ?thesis
    by (intro conjI ListMessages_cong [OF v, symmetric] GetMessage_cong [OF v, symmetric]
        GetRawMIME_cong [OF v, symmetric] GetAttachment_cong [OF v, symmetric])
qed

lemma ingest_reach_steps: "ingest_reach E base wd s \<Longrightarrow> rtranclp (ingest_step E base) (wd, Map.empty) s"
  by (induction rule: ingest_reach.induct) (auto intro: rtranclp.rtrancl_into_rtrancl)

definition bob :: session where
  "bob = alice\<lparr>s_email := ''bob@example.org''\<rparr>"

theorem mail_for_others_witness:
  "fst (ListMessages plain_ext plain_engine (Some bob) (by_id 1) fresh_writer mailbox) =
   fst (ListMessages plain_ext plain_engine (Some bob) (by_id 1) fresh_writer (quiet (new_world [] [])))"
proof -
  let ?wd' = "snd (first_mail ''hello'')"
  obtain pool where "ingest_reach plain_ext ''data'' (new_world [] []) (?wd', pool)"
    using ingest_raw_reach [of plain_ext "''data''" demo_clock "''hello''" fresh_writer "new_world [] []" "fst (first_mail ''hello'')" ?wd']
    by (auto simp: first_mail_def)
  then have "rtranclp (ingest_step plain_ext ''data'') (new_world [] [], Map.empty) (?wd', pool)" by (rule ingest_reach_steps)
  moreover have "db_tables (wd_db ?wd') = add_mail demo_clock (plain_message ''hello'') ''success'' None (empty_database [])"
    using mailbox_tables by (simp add: mailbox_def)
  then have "\<forall>r \<in> set (db_recipients (db_tables (wd_db ?wd'))) - set (db_recipients (db_tables (wd_db (new_world [] [])))).
      \<not> same_text plain_ext (r_email r) (s_email bob)"
    by (simp add: add_mail_def Let_def plain_message_def zero_parsed_def same_text_def plain_ext_sel
      stored_recipient_def new_recipient_def bob_def empty_tables_def)
  ultimately show ?thesis
    using mail_for_others [where E = plain_ext and base = "''data''" and wd = "new_world [] []" and wd' = ?wd' and pool = Map.empty and pool' = pool
        and s = bob and Q = plain_engine and r = "by_id 1" and w = fresh_writer, OF plain_ext_ok(1)]
    by (simp add: new_world_inv mailbox_def bob_def alice_def empty_tables_def)
qed

end
