(* ===== verification/Mailbox.thy ===== *)
theory Mailbox
  imports Isolation
begin

text \<open>
  The abstract mailbox: a list of mails, each with its bytes, recipients and attachments, a delivery that
  appends one, and the four read operations on it. The server refines it: tables, files and requests that
  interleave and fail move the mailbox by deliveries or not at all, and what the read handlers of
  \<open>internal/api\<close> answer from tables and files is what the abstract operations answer from the list.
\<close>

section \<open>Refinement maps\<close>

text \<open>A step relation refines another when every step is one of the other, or none, on the images.\<close>

locale refinement_map =
  fixes step :: "'s \<Rightarrow> 's \<Rightarrow> bool" and good :: "'s \<Rightarrow> bool" and abs :: "'s \<Rightarrow> 'a" and spec :: "'a \<Rightarrow> 'a \<Rightarrow> bool"
  assumes good_step: "good s \<Longrightarrow> step s s' \<Longrightarrow> good s'"
    and square: "good s \<Longrightarrow> step s s' \<Longrightarrow> abs s' = abs s \<or> spec (abs s) (abs s')"
begin

lemma runs:
  assumes "rtranclp step s s'" and "good s"
  shows "good s' \<and> rtranclp spec (abs s) (abs s')"
  using assms(1)
proof (induction rule: rtranclp_induct)
  case base
  then show ?case using assms(2) by simp
next
  case (step t t')
  then show ?case using good_step square by (metis rtranclp.rtrancl_into_rtrancl)
qed

lemma inherits:
  assumes "rtranclp step s s'" and "good s" and "I (abs s)" and "\<And>a a'. I a \<Longrightarrow> spec a a' \<Longrightarrow> I a'"
  shows "I (abs s')"
proof -
  have "rtranclp spec (abs s) (abs s')" using runs assms(1,2) by blast
  then show ?thesis by (induction rule: rtranclp_induct) (use assms(3,4) in blast)+
qed

end

section \<open>The mailbox and its deliveries\<close>

record mail =
  ml_message :: message_row
  ml_raw :: string
  ml_recipients :: "recipient_row list"
  ml_attachments :: "(attachment_row \<times> string) list"

type_synonym mailbox = "mail list"

text \<open>The mail the bytes \<open>raw\<close> are parsed to, under new ids; \<open>d\<close> are the bytes kept for it.\<close>

definition new_mail :: "ext \<Rightarrow> clock \<Rightarrow> string \<Rightarrow> string \<Rightarrow> int \<Rightarrow> int \<Rightarrow> int \<Rightarrow> mail" where
  "new_mail E clk raw d n rid aid =
     (case parse_or_fallback E clk raw of (p, st, err) \<Rightarrow>
        \<lparr>ml_message = stored_message clk p st err n, ml_raw = d,
         ml_recipients = map (stored_recipient clk n rid) (enumerate 0 (Recipients p)),
         ml_attachments = map (\<lambda>ia. (stored_attachment n aid ia, Content (snd ia))) (enumerate 0 (Attachments p))\<rparr>)"

inductive deliver :: "ext \<Rightarrow> mailbox \<Rightarrow> mailbox \<Rightarrow> bool" for E where
  deliver: "\<lbrakk>\<forall>ml \<in> set mb. m_hash (ml_message ml) \<noteq> HashBytes E raw; \<forall>ml \<in> set mb. m_id (ml_message ml) < n; 0 < n;
      HashBytes E d = HashBytes E raw\<rbrakk> \<Longrightarrow> deliver E mb (mb @ [new_mail E clk raw d n rid aid])"

inductive_cases deliverE: "deliver E mb mb'"

text \<open>The mailbox in tables and files.\<close>

definition mail_view :: "string \<Rightarrow> world \<Rightarrow> message_row \<Rightarrow> mail" where
  "mail_view base wd m =
     \<lparr>ml_message = m, ml_raw = coalesce (raw_blob base (m_hash m) (wd_fs wd)),
      ml_recipients = filter (\<lambda>r. r_message r = m_id m) (db_recipients (db_tables (wd_db wd))),
      ml_attachments = map (\<lambda>a. (a, coalesce (attachment_blob base (a_message a, a_key a) (wd_fs wd))))
        (filter (\<lambda>a. a_message a = m_id m) (db_attachments (db_tables (wd_db wd))))\<rparr>"

definition mailbox_of :: "string \<Rightarrow> world \<Rightarrow> mailbox" where
  "mailbox_of base wd = map (mail_view base wd) (db_messages (db_tables (wd_db wd)))"

lemma mail_view_message [simp]: "ml_message (mail_view base wd m) = m"
  by (simp add: mail_view_def)

lemma mail_view_kept:
  assumes a: "adds_mail base wd wd'" and m: "m \<in> set (db_messages (db_tables (wd_db wd)))"
    and raw: "raw_blob base (m_hash m) (wd_fs wd') = raw_blob base (m_hash m) (wd_fs wd)"
  shows "mail_view base wd' m = mail_view base wd m"
proof (rule adds_mailE [OF a])
  let ?t = "db_tables (wd_db wd)" and ?t' = "db_tables (wd_db wd')"
  fix ms rs as assume t': "db_messages ?t' = db_messages ?t @ ms" "db_recipients ?t' = db_recipients ?t @ rs"
    "db_attachments ?t' = db_attachments ?t @ as"
    and new: "\<And>i. i \<in> m_id ` set ms \<union> r_message ` set rs \<union> a_message ` set as \<Longrightarrow> \<not> message_exists i ?t"
    and f: "\<And>x. x \<in> set (db_attachments ?t) \<Longrightarrow>
      attachment_blob base (a_message x, a_key x) (wd_fs wd') = attachment_blob base (a_message x, a_key x) (wd_fs wd)"
  have "message_exists (m_id m) ?t" using m by (simp add: message_exists_iff)
  then have "m_id m \<notin> r_message ` set rs" "m_id m \<notin> a_message ` set as" using new by blast+
  then have "filter (\<lambda>r. r_message r = m_id m) rs = []" "filter (\<lambda>a. a_message a = m_id m) as = []"
    unfolding filter_empty_conv by (metis imageI)+
  moreover have "attachment_blob base (m_id m, a_key x) (wd_fs wd') = attachment_blob base (m_id m, a_key x) (wd_fs wd)"
    if "x \<in> set (db_attachments ?t)" "a_message x = m_id m" for x using f [OF that(1)] that(2) by simp
  ultimately show ?thesis by (simp add: mail_view_def t' raw)
qed

lemma mailbox_kept:
  assumes "adds_mail base wd wd'" and "mail_extends base wd wd'" and "raw_inv E base (wd, pool)" and "sha256_ok E"
  shows "map (mail_view base wd') (db_messages (db_tables (wd_db wd))) = mailbox_of base wd"
  unfolding mailbox_of_def
proof (rule map_cong [OF refl])
  fix m assume m: "m \<in> set (db_messages (db_tables (wd_db wd)))"
  obtain d where "raw_blob base (m_hash m) (wd_fs wd) = Some d" using assms(3) m by (auto simp: raw_inv_def)
  moreover have "safe_comp (m_hash m)"
    using assms(3) m HashBytes_safe [OF assms(4)] unfolding raw_inv_def world_inv_def fst_conv by metis
  ultimately have "raw_blob base (m_hash m) (wd_fs wd') = raw_blob base (m_hash m) (wd_fs wd)"
    using assms(2) unfolding mail_extends_def by metis
  then show "mail_view base wd' m = mail_view base wd m" by (rule mail_view_kept [OF assms(1) m])
qed

text \<open>What a committed transaction makes of the mailbox.\<close>

lemma add_mail_view:
  assumes inv: "db_inv E (wd_db wd)" and t: "db_tables (wd_db wd') = add_mail clk p st err (wd_db wd)"
    and pf: "parse_or_fallback E clk raw = (p, st, err)" and h: "ContentHash p = HashBytes E raw"
    and d: "raw_blob base (HashBytes E raw) (wd_fs wd') = Some d"
    and as: "\<And>a. a \<in> set (Attachments p) \<Longrightarrow> attachment_blob base (db_next_message (wd_db wd), AttachmentHash a) (wd_fs wd') = Some (Content a)"
  shows "mail_view base wd' (stored_message clk p st err (db_next_message (wd_db wd))) =
    new_mail E clk raw d (db_next_message (wd_db wd)) (db_next_recipient (wd_db wd)) (db_next_attachment (wd_db wd))"
proof -
  let ?n = "db_next_message (wd_db wd)" and ?t = "db_tables (wd_db wd)"
  have "\<not> message_exists ?n ?t" by (rule next_message_new [OF inv])
  then have n: "?n \<notin> m_id ` set (db_messages ?t)" by (simp add: message_exists_iff)
  then have "?n \<notin> r_message ` set (db_recipients ?t)" "?n \<notin> a_message ` set (db_attachments ?t)"
    using inv by (force simp: db_inv_def Let_def)+
  then have "filter (\<lambda>r. r_message r = ?n) (db_recipients ?t) = []" "filter (\<lambda>a. a_message a = ?n) (db_attachments ?t) = []"
    unfolding filter_empty_conv by (metis imageI)+
  moreover have "r_message (stored_recipient clk ?n rid ir) = ?n" "a_message (stored_attachment ?n aid ia) = ?n"
    "a_key (stored_attachment ?n aid ia) = AttachmentHash (snd ia)" for rid ir aid ia
    by (simp_all add: stored_recipient_def new_recipient_def stored_attachment_def new_attachment_def)
  moreover have "m_id (stored_message clk p st err ?n) = ?n" by (simp add: stored_message_def Let_def)
  moreover have "snd ia \<in> set (Attachments p)" if "ia \<in> set (enumerate 0 (Attachments p))" for ia
    using that nth_mem [of "fst ia" "Attachments p"] by (simp add: in_set_enumerate_eq)
  ultimately show ?thesis
    by (simp add: mail_view_def new_mail_def pf t add_mail_def Let_def h d as coalesce_def filter_map comp_def)
qed

text \<open>A delivery with what it delivers: the bytes \<open>raw\<close> under the id \<open>n\<close>.\<close>

definition delivers :: "ext \<Rightarrow> clock \<Rightarrow> string \<Rightarrow> int \<Rightarrow> mailbox \<Rightarrow> mailbox \<Rightarrow> bool" where
  "delivers E clk raw n mb mb' \<longleftrightarrow>
     (\<forall>ml \<in> set mb. m_hash (ml_message ml) \<noteq> HashBytes E raw \<and> m_id (ml_message ml) < n) \<and> 0 < n \<and>
     (\<exists>d rid aid. HashBytes E d = HashBytes E raw \<and> mb' = mb @ [new_mail E clk raw d n rid aid])"

lemma delivers_deliver: "delivers E clk raw n mb mb' \<Longrightarrow> deliver E mb mb'"
  by (auto simp: delivers_def intro: deliver.deliver)

lemma mailbox_same:
  assumes sha: "sha256_ok E" and inv: "raw_inv E base (wd, pool)" and ph: "ingest_phase E base clk w ph wd = (ph', wd')"
    and t: "db_tables (wd_db wd') = db_tables (wd_db wd)"
  shows "mailbox_of base wd' = mailbox_of base wd"
proof -
  have "world_inv E base wd" using inv by (simp add: raw_inv_def)
  from mailbox_kept [OF ingest_phase_adds [OF sha this ph] ingest_phase_extends [OF sha this ph] inv sha] t
  show ?thesis by (simp add: mailbox_of_def)
qed

text \<open>The transaction of a request delivers its mail, under the id it answers, or changes nothing.\<close>

lemma persist_delivers:
  assumes inv: "raw_inv E base (wd, pool)" and sha: "sha256_ok E" and i: "pool i = Some (Saved raw)"
    and ph: "ingest_phase E base clk w (Saved raw) wd = (ph', wd')"
    and pf: "parse_or_fallback E clk raw = (p, st, err)" and ps: "persist E base clk p st err wd = (r, wd')"
    and t: "db_tables (wd_db wd') = add_mail clk p st err (wd_db wd)" and tx: "tx_done E base clk p st err wd wd'"
  shows "delivers E clk raw (db_next_message (wd_db wd)) (mailbox_of base wd) (mailbox_of base wd')"
proof -
  let ?n = "db_next_message (wd_db wd)"
  have wi: "world_inv E base wd" using inv by (simp add: raw_inv_def)
  note wi' = world_invD [OF wi] and facts = parse_or_fallback_facts [OF pf sha]
  have add: "adds_mail base wd wd'" and ext: "mail_extends base wd wd'"
    using ingest_phase_adds [OF sha wi ph] ingest_phase_extends [OF sha wi ph] by blast+
  note kept = mailbox_kept [OF add ext inv sha]
  have "raw_blob base (HashBytes E raw) (wd_fs wd) \<noteq> None"
    using inv i unfolding raw_inv_def by (metis fst_conv snd_conv)
  then obtain d where d: "raw_blob base (HashBytes E raw) (wd_fs wd) = Some d" "HashBytes E d = HashBytes E raw"
    using inv HashBytes_safe [OF sha] unfolding raw_inv_def raw_complete_def by auto
  have d': "raw_blob base (HashBytes E raw) (wd_fs wd') = Some d"
    using ext d(1) HashBytes_safe [OF sha] unfolding mail_extends_def by blast
  have mi: "mail_inv E (wd_db wd')" using persist_mail_inv [OF wi'(2)] ps by (metis snd_conv)
  have dist: "distinct (map AttachmentHash (Attachments p))"
    using new_attachments_distinct [OF _ t] mi unfolding mail_inv_def by blast
  have "mail_view base wd' (stored_message clk p st err ?n) =
      new_mail E clk raw d ?n (db_next_recipient (wd_db wd)) (db_next_attachment (wd_db wd))"
    using facts tx_done_attachments [OF tx sha _ wi'(3,1) dist] by (intro add_mail_view [OF wi'(3) t pf _ d']) simp_all
  then have "mailbox_of base wd' = mailbox_of base wd @
      [new_mail E clk raw d ?n (db_next_recipient (wd_db wd)) (db_next_attachment (wd_db wd))]"
    unfolding kept [symmetric] by (simp add: mailbox_of_def t add_mail_simps(1))
  moreover have "\<forall>ml \<in> set (mailbox_of base wd). m_hash (ml_message ml) \<noteq> HashBytes E raw \<and> m_id (ml_message ml) < ?n"
  proof -
    have "distinct (map m_hash (db_messages (db_tables (wd_db wd'))))" by (rule mail_inv_distinct [OF mi])
    then have "HashBytes E raw \<notin> m_hash ` set (db_messages (db_tables (wd_db wd)))"
      using facts unfolding t add_mail_simps(2) by simp
    moreover have "\<forall>m \<in> set (db_messages (db_tables (wd_db wd))). m_id m < ?n"
      using wi'(3) by (simp add: db_inv_def Let_def ids_ok_def)
    ultimately show ?thesis unfolding mailbox_of_def by simp (metis imageI)
  qed
  moreover have "0 < ?n" using wi'(3) by (simp add: db_inv_def Let_def ids_ok_def)
  ultimately show ?thesis using d(2) unfolding delivers_def by blast
qed

lemma saved_step:
  assumes inv: "raw_inv E base (wd, pool)" and sha: "sha256_ok E" and i: "pool i = Some (Saved raw)"
    and ph: "ingest_phase E base clk w (Saved raw) wd = (ph', wd')"
  obtains (accepted) n where "ph' = Finished (writeJSON w 200 (JObj [(''message_id'', JInt n), (''status'', JStr ''accepted'')]))"
      "delivers E clk raw n (mailbox_of base wd) (mailbox_of base wd')"
  | (failed) "ph' = Finished (writeJSON w 500 (json_error ''persist message''))" "mailbox_of base wd' = mailbox_of base wd"
  | (lost) n where "ph' = Finished (writeJSON w 500 (json_error ''persist message''))"
      "delivers E clk raw n (mailbox_of base wd) (mailbox_of base wd')"
proof -
  obtain p st err where pf: "parse_or_fallback E clk raw = (p, st, err)" by (metis prod_cases3)
  obtain r where ps: "persist E base clk p st err wd = (r, wd')" using ph pf by (auto split: prod.splits sum.splits)
  show ?thesis
  proof (cases rule: persist_cases [OF ps])
    case 1
    have "ph' = Finished (writeJSON w 200 (JObj [(''message_id'', JInt (db_next_message (wd_db wd))), (''status'', JStr ''accepted'')]))"
      using ph pf ps 1(1) by simp
    then show ?thesis by (rule accepted [OF _ persist_delivers [OF inv sha i ph pf ps 1(2,3)]])
  next
    case 2
    then show ?thesis using failed mailbox_same [OF sha inv ph] ph pf ps by simp
  next
    case 3
    have "ph' = Finished (writeJSON w 500 (json_error ''persist message''))" using ph pf ps 3(1) by simp
    then show ?thesis by (rule lost [OF _ persist_delivers [OF inv sha i ph pf ps 3(2,3)]])
  qed
qed

lemma other_step:
  assumes "raw_inv E base (wd, pool)" and "sha256_ok E" and "\<forall>raw. ph \<noteq> Saved raw"
    and ph: "ingest_phase E base clk w ph wd = (ph', wd')"
  shows "mailbox_of base wd' = mailbox_of base wd"
proof (rule mailbox_same [OF assms(2,1) ph])
  show "db_tables (wd_db wd') = db_tables (wd_db wd)"
  proof (cases ph)
    case (Received raw)
    obtain r where "isDuplicate E (HashBytes E raw) wd = (r, wd')"
      using ph Received by (auto split: prod.splits sum.splits bool.splits)
    from isDuplicate_keeps [OF this] show ?thesis by auto
  next
    case (Checked raw)
    obtain r fs' where "SaveRawMIME base (HashBytes E raw) raw (wd_fs wd) = (r, fs')" by fastforce
    then show ?thesis using ph Checked by (cases r) (auto simp: on_fs_def)
  qed (use assms in auto)
qed

lemma deliver_step:
  assumes "raw_inv E base (wd, pool)" and "sha256_ok E" and "pool i = Some ph"
    and "ingest_phase E base clk w ph wd = (ph', wd')"
  shows "mailbox_of base wd' = mailbox_of base wd \<or> deliver E (mailbox_of base wd) (mailbox_of base wd')"
proof (cases "\<exists>raw. ph = Saved raw")
  case True
  then obtain raw where "ph = Saved raw" by blast
  then show ?thesis
    using assms(3,4) by (cases rule: saved_step [OF assms(1,2), of i raw clk w ph' wd']) (use delivers_deliver in blast)+
next
  case False
  then show ?thesis using other_step [OF assms(1,2) _ assms(4)] by blast
qed

interpretation srv: refinement_map "ingest_step E base" "\<lambda>s. sha256_ok E \<and> raw_inv E base s"
  "\<lambda>s. mailbox_of base (fst s)" "deliver E"
  for E base
proof
  fix s s' assume g: "sha256_ok E \<and> raw_inv E base s" and st: "ingest_step E base s s'"
  from st show "sha256_ok E \<and> raw_inv E base s'"
  proof (cases rule: ingest_step.cases)
    case (arrive pool i wd raw)
    then show ?thesis using g by (auto simp: raw_inv_def)
  next
    case (advance pool i ph clk w wd ph' wd')
    then show ?thesis using g ingest_phase_raw_inv by blast
  qed
  from st show "mailbox_of base (fst s') = mailbox_of base (fst s) \<or> deliver E (mailbox_of base (fst s)) (mailbox_of base (fst s'))"
  proof (cases rule: ingest_step.cases)
    case (advance pool i ph clk w wd ph' wd')
    then show ?thesis using g deliver_step by (metis fst_conv)
  qed simp
qed

section \<open>Reading the mailbox\<close>

definition visible :: "ext \<Rightarrow> session \<Rightarrow> mail \<Rightarrow> bool" where
  "visible E s ml \<longleftrightarrow> s_admin s \<or> list_ex (\<lambda>r. same_text E (r_email r) (s_email s)) (ml_recipients ml)"

definition open_mail :: "ext \<Rightarrow> session \<Rightarrow> int \<Rightarrow> mailbox \<Rightarrow> mail option" where
  "open_mail E s i mb = find (\<lambda>ml. m_id (ml_message ml) = i \<and> visible E s ml) mb"

definition download :: "writer \<Rightarrow> string \<Rightarrow> string \<Rightarrow> string \<Rightarrow> response" where
  "download w mime name data =
     write_bytes (set_header ''Content-Length'' (format_int (int (length data)))
       (set_header ''Content-Disposition'' (''attachment; filename='' @ [CHR 0x22] @ name @ [CHR 0x22])
         (set_header ''Content-Type'' mime w))) data"

definition mb_message :: "ext \<Rightarrow> session option \<Rightarrow> request \<Rightarrow> writer \<Rightarrow> mailbox \<Rightarrow> response" where
  "mb_message E session r w mb =
     (case (numericURLParam r ''id'', session) of
        (Some i, Some s) \<Rightarrow>
          (case open_mail E s i mb of
             None \<Rightarrow> http_not_found w
           | Some ml \<Rightarrow> writeJSON w 200 (messageDTO (ml_message ml) (m_status (ml_message ml)) (ml_recipients ml) (map fst (ml_attachments ml))))
      | _ \<Rightarrow> http_not_found w)"

definition mb_raw :: "ext \<Rightarrow> session option \<Rightarrow> request \<Rightarrow> writer \<Rightarrow> mailbox \<Rightarrow> response" where
  "mb_raw E session r w mb =
     (case (numericURLParam r ''id'', session) of
        (Some i, Some s) \<Rightarrow>
          (case open_mail E s i mb of
             None \<Rightarrow> http_not_found w
           | Some ml \<Rightarrow> download w ''message/rfc822'' (''message-'' @ format_int i @ ''.eml'') (ml_raw ml))
      | _ \<Rightarrow> http_not_found w)"

definition mb_attachment :: "ext \<Rightarrow> session option \<Rightarrow> request \<Rightarrow> writer \<Rightarrow> mailbox \<Rightarrow> response" where
  "mb_attachment E session r w mb =
     (case (numericURLParam r ''id'', numericURLParamAllowZero r ''idx'', session) of
        (Some i, Some idx, Some s) \<Rightarrow>
          (case open_mail E s i mb of
             None \<Rightarrow> http_not_found w
           | Some ml \<Rightarrow>
               if nat idx < length (ml_attachments ml)
               then (case ml_attachments ml ! nat idx of (a, d) \<Rightarrow>
                 download w (a_mime a) (attachment_filename (coalesce (a_filename a))) d)
               else http_not_found w)
      | _ \<Rightarrow> http_not_found w)"

definition mb_list :: "ext \<Rightarrow> engine \<Rightarrow> session option \<Rightarrow> request \<Rightarrow> writer \<Rightarrow> mailbox \<Rightarrow> response" where
  "mb_list E Q session r w mb =
     (case session of
        None \<Rightarrow> http_not_found w
      | Some s \<Rightarrow>
          let q = trim_space (rq_query r ''q''); offset = wrap64 (wrap64 (list_page r - 1) * list_per_page r);
              found = map ml_message (filter (visible E s) mb);
              hits = filter (\<lambda>m. isSearchQueryUsable q \<longrightarrow> q_match Q q (m_sender m, m_subject m, m_text m)) found
          in if offset < 0 \<or> isSearchQueryUsable q \<and> \<not> q_syntax Q q then http_internal_error w
             else writeJSON w 200
               (JObj [(''messages'', JArr (map (\<lambda>m. messageDTO m [] [] [])
                        (take (nat (list_per_page r)) (drop (nat offset) (q_order Q (list_per_page r) offset hits))))),
                      (''page'', JInt (list_page r)), (''per_page'', JInt (list_per_page r)), (''total'', JInt (int (length hits)))]))"

lemma visible_view: "visible E s (mail_view base wd m) = may_read E (db_tables (wd_db wd)) s (m_id m)"
  by (auto simp: visible_def may_read_def recipient_exists_def mail_view_def list_ex_iff)

lemma find_map: "find P (map f xs) = map_option f (find (\<lambda>x. P (f x)) xs)"
  by (induction xs) simp_all

lemma find_filter: "find P xs = (case filter P xs of [] \<Rightarrow> None | x # _ \<Rightarrow> Some x)"
  by (induction xs) simp_all

lemma open_mail_query:
  "open_mail E s i (mailbox_of base wd) =
     (case messageAuthQuery E s i (db_tables (wd_db wd)) of [] \<Rightarrow> None | m # _ \<Rightarrow> Some (mail_view base wd m))"
proof -
  have "messageAuthQuery E s i (db_tables (wd_db wd)) =
      filter (\<lambda>m. m_id m = i \<and> visible E s (mail_view base wd m)) (db_messages (db_tables (wd_db wd)))"
    by (simp add: queries_of_view(1) visible_view conj_commute)
  then show ?thesis
    by (simp add: open_mail_def mailbox_of_def find_map) (simp add: find_filter split: list.splits)
qed

lemma ids_ok_sort: "ids_ok (map f xs) n \<Longrightarrow> sort_key f (filter P xs) = filter P (xs :: 'a list)" for f :: "'a \<Rightarrow> int"
proof -
  assume "ids_ok (map f xs) n"
  then have "sorted (map f xs)" by (auto simp: ids_ok_def strict_sorted_iff)
  then have "sorted (map f (filter P xs))" by (rule sorted_filter)
  then show ?thesis by (rule sort_key_id_if_sorted)
qed

text \<open>The rows behind a mail that a session may open.\<close>

lemma message_query_one:
  assumes "db_inv E (wd_db wd)" and "messageAuthQuery E s i (db_tables (wd_db wd)) = m # ms"
  shows "m \<in> set (db_messages (db_tables (wd_db wd)))" and "m_id m = i" and "may_read E (db_tables (wd_db wd)) s i"
proof -
  have "m \<in> set (messageAuthQuery E s i (db_tables (wd_db wd)))" using assms(2) by simp
  then show "m \<in> set (db_messages (db_tables (wd_db wd)))" "m_id m = i" "may_read E (db_tables (wd_db wd)) s i"
    unfolding auth_query_members(1) by blast+
qed

lemma GetMessage_mailbox:
  assumes inv: "db_inv E (wd_db wd)"
  shows "fst (GetMessage E session r w (quiet wd)) = mb_message E session r w (mailbox_of base wd)"
proof (cases "numericURLParam r ''id'' = None \<or> session = None")
  case False
  then obtain i s where p: "numericURLParam r ''id'' = Some i" "session = Some s" by auto
  have srt: "sort_key r_id (filter P (db_recipients (db_tables (wd_db wd)))) = filter P (db_recipients (db_tables (wd_db wd)))"
    "sort_key a_id (filter P' (db_attachments (db_tables (wd_db wd)))) = filter P' (db_attachments (db_tables (wd_db wd)))" for P P'
    using inv ids_ok_sort by (metis db_inv_def)+
  show ?thesis
  proof (cases "messageAuthQuery E s i (db_tables (wd_db wd))")
    case Nil
    then show ?thesis
      by (simp add: p GetMessage_def mb_message_def open_mail_query getMessage_def query_row_no_fault)
  next
    case (Cons m ms)
    note m = message_query_one [OF inv Cons]
    show ?thesis
      by (simp add: p GetMessage_def mb_message_def open_mail_query getMessage_def query_row_no_fault query_rows_no_fault Cons
          api_recipients_def api_attachments_def srt m(2) mail_view_def comp_def)
  qed
qed (auto simp: GetMessage_def mb_message_def split: option.splits)

lemma GetRawMIME_mailbox:
  assumes inv: "raw_inv E base (wd, pool)" and sha: "sha256_ok E"
  shows "fst (GetRawMIME E base session r w (quiet wd)) = mb_raw E session r w (mailbox_of base wd)"
proof (cases "numericURLParam r ''id'' = None \<or> session = None")
  case False
  then obtain i s where p: "numericURLParam r ''id'' = Some i" "session = Some s" by auto
  show ?thesis
  proof (cases "messageAuthQuery E s i (db_tables (wd_db wd))")
    case Nil
    then show ?thesis
      by (simp add: p GetRawMIME_def mb_raw_def open_mail_query query_row_no_fault auth_query_members(2))
  next
    case (Cons m ms)
    have w: "world_inv E base wd" using inv by (simp add: raw_inv_def)
    note m = message_query_one [OF world_invD(3) [OF w] Cons]
    obtain d where d: "raw_blob base (m_hash m) (wd_fs wd) = Some d" using inv m(1) by (auto simp: raw_inv_def)
    have "safe_comp (m_hash m)" using w m(1) HashBytes_safe [OF sha] unfolding world_inv_def by metis
    then have "ReadRawMIME base (m_hash m) (wd_fs (quiet wd)) = (Inr d, wd_fs (quiet wd))" using d by (simp add: ReadRawMIME_blob)
    then show ?thesis
      by (simp add: p GetRawMIME_def mb_raw_def open_mail_query query_row_no_fault auth_query_members(2) Cons d mail_view_def coalesce_def download_def)
  qed
qed (auto simp: GetRawMIME_def mb_raw_def split: option.splits)

lemma attachment_query_view:
  assumes inv: "db_inv E (wd_db wd)"
  shows "attachmentAuthQuery E s i idx (db_tables (wd_db wd)) =
    (if messageAuthQuery E s i (db_tables (wd_db wd)) = [] then []
     else take 1 (drop (nat idx) (filter (\<lambda>a. a_message a = i) (db_attachments (db_tables (wd_db wd))))))"
proof -
  let ?t = "db_tables (wd_db wd)"
  have one: "messageAuthQuery E s i ?t = [] \<longleftrightarrow> \<not> (message_exists i ?t \<and> may_read E ?t s i)"
  proof -
    have "messageAuthQuery E s i ?t = [] \<longleftrightarrow> (\<forall>m. m \<notin> set (messageAuthQuery E s i ?t))" by (simp add: filter_empty_conv)
    then show ?thesis unfolding auth_query_members(1) message_exists_iff by blast
  qed
  have "filter (\<lambda>a. a_message a = i \<and> message_exists (a_message a) ?t) (filter (\<lambda>a. may_read E ?t s (a_message a)) (db_attachments ?t)) =
      (if messageAuthQuery E s i ?t = [] then [] else filter (\<lambda>a. a_message a = i) (db_attachments ?t))"
    unfolding one by (auto simp: filter_empty_conv intro!: filter_cong)
  moreover have "sort_key a_id (filter P (db_attachments ?t)) = filter P (db_attachments ?t)" for P
    using inv ids_ok_sort by (metis db_inv_def)
  ultimately show ?thesis by (simp add: queries_of_view(3))
qed

lemma GetAttachment_mailbox:
  assumes w: "world_inv E base wd" and sha: "sha256_ok E"
  shows "fst (GetAttachment E base session r w (quiet wd)) = mb_attachment E session r w (mailbox_of base wd)"
proof (cases "numericURLParam r ''id'' = None \<or> numericURLParamAllowZero r ''idx'' = None \<or> session = None")
  case False
  then obtain i idx s where p: "numericURLParam r ''id'' = Some i" "numericURLParamAllowZero r ''idx'' = Some idx" "session = Some s" by auto
  let ?t = "db_tables (wd_db wd)"
  note inv = world_invD(3) [OF w]
  note q = attachment_query_view [OF inv, of s i idx]
  show ?thesis
  proof (cases "messageAuthQuery E s i ?t")
    case Nil
    then show ?thesis by (simp add: p GetAttachment_def mb_attachment_def open_mail_query query_row_no_fault q)
  next
    case (Cons m ms)
    note m = message_query_one [OF inv Cons]
    let ?as = "filter (\<lambda>a. a_message a = i) (db_attachments ?t)"
    have ml: "open_mail E s i (mailbox_of base wd) = Some (mail_view base wd m)" by (simp add: open_mail_query Cons)
    have as: "ml_attachments (mail_view base wd m) = map (\<lambda>a. (a, coalesce (attachment_blob base (a_message a, a_key a) (wd_fs wd)))) ?as"
      by (simp add: mail_view_def m(2))
    show ?thesis
    proof (cases "nat idx < length ?as")
      case True
      let ?a = "?as ! nat idx"
      have a: "?a \<in> set ?as" using True by (rule nth_mem)
      then have aw: "?a \<in> set (db_attachments ?t)" "a_message ?a = i" by simp_all
      have st: "attachment_stored E base (wd_fs wd) ?a" using w aw(1) unfolding world_inv_def by blast
      then obtain d where d: "attachment_blob base (i, a_key ?a) (wd_fs wd) = Some d" "int (length d) = a_size ?a"
        unfolding attachment_stored_def aw(2) by (auto split: option.splits)
      have "safe_comp (a_key ?a)" using stored_attachment_safe [OF w sha aw(1)] by blast
      then have "valid_attachment_key (i, a_key ?a)"
        using p(1) unfolding numericURLParam_iff by (simp add: valid_attachment_key_def)
      then have rd: "ReadAttachment base i (a_key ?a) (wd_fs (quiet wd)) = (Inr d, wd_fs (quiet wd))"
        by (simp add: ReadAttachment_blob d(1))
      have row: "attachmentAuthQuery E s i idx ?t = [?a]" using True by (simp add: q Cons take_Suc hd_drop_conv_nth)
      have e: "ml_attachments (mail_view base wd m) ! nat idx = (?a, d)" using True d(1) aw(2) by (simp add: as coalesce_def)
      have len: "nat idx < length (ml_attachments (mail_view base wd m))" using True by (simp add: as)
      show ?thesis
        unfolding GetAttachment_def mb_attachment_def p option.case prod.case ml
        by (simp add: query_row_no_fault row rd e len download_def d(2))
    next
      case False
      then have "attachmentAuthQuery E s i idx ?t = []" by (simp add: q)
      then show ?thesis using False by (simp add: p GetAttachment_def mb_attachment_def ml as query_row_no_fault)
    qed
  qed
qed (auto simp: GetAttachment_def mb_attachment_def split: option.splits)

lemma ListMessages_mailbox: "fst (ListMessages E Q session r w (quiet wd)) = mb_list E Q session r w (mailbox_of base wd)"
proof (cases session)
  case (Some s)
  let ?t = "db_tables (wd_db wd)" and ?q = "trim_space (rq_query r ''q'')"
  have "map ml_message (filter (visible E s) (mailbox_of base wd)) = filter (\<lambda>m. may_read E ?t s (m_id m)) (db_messages ?t)"
    by (simp add: mailbox_of_def filter_map comp_def visible_view)
  then have hits: "filter (\<lambda>m. isSearchQueryUsable ?q \<longrightarrow> q_match Q ?q (m_sender m, m_subject m, m_text m))
      (map ml_message (filter (visible E s) (mailbox_of base wd))) = filter (listWhere E Q s ?q ?t) (db_messages ?t)"
    by (simp only: queries_of_view(2))
  show ?thesis
    unfolding ListMessages_def mb_list_def Some option.case Let_def hits
    by (simp add: list_stmt_def select_page_def exec_stmt_no_fault page_rows_def)
qed (simp add: ListMessages_def mb_list_def)

section \<open>Properties\<close>


lemma no_faults_no_partial: "no_partial (empty_fs [])"
  by (simp add: no_partial_def empty_fs_def)

lemma first_mail_mailbox: "map ml_raw (mailbox_of ''data'' (snd (first_mail ''hello''))) = [''hello'']"
proof -
  obtain m where "db_messages (db_tables (wd_db mailbox)) = [m]" "m_hash m = HashBytes plain_ext ''hello''"
    using mailbox_message by blast
  moreover have "raw_blob ''data'' (HashBytes plain_ext ''hello'') (wd_fs (snd (first_mail ''hello''))) = Some ''hello''"
    using mailbox_raw by (simp add: mailbox_def)
  ultimately show ?thesis by (simp add: mailbox_of_def mail_view_def mailbox_def coalesce_def)
qed




text \<open>
  Property C4: the read handlers read the mailbox. On a working disk and database the complete response of
  each of the four handlers, in every reachable state and for every request and session, is that of the
  operation on the abstract mailbox: opening the mail with the id if the session is an administrator's
  or a recipient's, its bytes, its attachment with the index, the page of the mails that match.
\<close>

theorem reads_refine_mailbox:
  assumes "sha256_ok E" and "base \<noteq> []" and "no_partial (empty_fs disk)"
    and "ingest_reach E base (new_world disk conn) (wd, pool)"
  shows "fst (GetMessage E session r w (quiet wd)) = mb_message E session r w (mailbox_of base wd) \<and>
    fst (GetRawMIME E base session r w (quiet wd)) = mb_raw E session r w (mailbox_of base wd) \<and>
    fst (GetAttachment E base session r w (quiet wd)) = mb_attachment E session r w (mailbox_of base wd) \<and>
    fst (ListMessages E Q session r w (quiet wd)) = mb_list E Q session r w (mailbox_of base wd)"
proof -
  have raw: "raw_inv E base (wd, pool)"
    using ingest_reach_raw_inv [OF assms(4,1)] new_world_raw_inv [OF assms(2,3)] by blast
  then have w: "world_inv E base wd" by (simp add: raw_inv_def)
  show ?thesis
    by (intro conjI GetMessage_mailbox [OF world_invD(3) [OF w]] GetRawMIME_mailbox [OF raw assms(1)]
        GetAttachment_mailbox [OF w assms(1)] ListMessages_mailbox)
qed

theorem reads_refine_mailbox_witness:
  "rs_body (mb_raw plain_ext (Some alice) (by_id 1) fresh_writer (mailbox_of ''data'' (snd (first_mail ''hello'')))) = Bytes ''hello''"
proof -
  obtain pool where "ingest_reach plain_ext ''data'' (new_world [] []) (snd (first_mail ''hello''), pool)"
    using first_mail_reach by blast
  from reads_refine_mailbox [OF plain_ext_ok(1) _ no_faults_no_partial this, of "Some alice" "by_id 1" fresh_writer plain_engine]
  show ?thesis using mailbox_read(2) by (simp add: mailbox_def)
qed

end
