(* ===== verification/Rate_Race.thy ===== *)
theory Rate_Race
  imports Rate_Limit
begin

text \<open>
  \<open>internal/middleware/ratelimit.go\<close> with its goroutines: a call of \<open>Allow\<close> reads the clock, then loads or
  stores its bucket in the \<open>sync.Map\<close>, then locks it; the loop of \<open>cleanup\<close> runs beside the calls and
  takes buckets out of the map. \<open>Rate_Limit\<close> is what this does when nobody overtakes; here is what it
  does in general.
\<close>

section \<open>Goroutines\<close>

text \<open>Behind the mutex of a bucket: the second half of \<open>Allow\<close>.\<close>

definition take_token :: "int \<Rightarrow> int \<Rightarrow> rate_entry \<Rightarrow> (bool \<times> int \<times> int) \<times> rate_entry" where
  "take_token rpm now e =
     (let tokens = refill rpm (re_tokens e) (time_sub now (re_last e));
          remaining = (if tokens - 1 < 0 then 0 else tokens - 1);
          resetAt = (now + rl_window) div 1000000000
      in if tokens \<le> 0 then ((False, 0, resetAt), \<lparr>re_tokens = tokens, re_last = now\<rparr>)
         else ((True, remaining, resetAt), \<lparr>re_tokens = tokens - 1, re_last = now\<rparr>))"

text \<open>
  A call has read the clock, or holds a pointer to a bucket, or is done. \<open>lm_buckets ip\<close> are the buckets
  made for \<open>ip\<close> since the start; a pointer is an index, and the map has one of them or none. \<open>lm_cleaned\<close> is
  the variable \<open>now\<close> of the clean-up that runs or ran last.
\<close>

datatype call = Called string int | Holding string int nat | Answered bool int int

record limiter =
  lm_rpm :: int
  lm_map :: "string \<rightharpoonup> nat"
  lm_buckets :: "string \<Rightarrow> rate_entry list"
  lm_calls :: "nat \<rightharpoonup> call"
  lm_clock :: int
  lm_cleaned :: int
  lm_cleaning :: bool

definition new_limiter :: "int \<Rightarrow> int \<Rightarrow> limiter" where
  "new_limiter rpm now = \<lparr>lm_rpm = rpm, lm_map = Map.empty, lm_buckets = (\<lambda>ip. []), lm_calls = Map.empty,
     lm_clock = now, lm_cleaned = now, lm_cleaning = False\<rparr>"

text \<open>\<open>rl.entries.LoadOrStore(ip, &rateLimitEntry{...})\<close>.\<close>

definition load_or_store :: "string \<Rightarrow> int \<Rightarrow> limiter \<Rightarrow> nat \<times> limiter" where
  "load_or_store ip now s =
     (case lm_map s ip of
        Some k \<Rightarrow> (k, s)
      | None \<Rightarrow>
          (length (lm_buckets s ip),
           s\<lparr>lm_map := (lm_map s)(ip \<mapsto> length (lm_buckets s ip)),
             lm_buckets := (lm_buckets s)(ip := lm_buckets s ip @ [\<lparr>re_tokens = lm_rpm s, re_last = now\<rparr>])\<rparr>))"

text \<open>
  A step shows whether it made or used a bucket, and whether the call was overtaken: by a clean-up that
  started after the call read the clock, by a clean-up that took its bucket away, or by a later call.
\<close>

datatype mark = Quiet | Made string bool | Used string bool bool

definition in_flight :: "limiter \<Rightarrow> int set" where
  "in_flight s = {t. \<exists>i ip k. lm_calls s i = Some (Called ip t) \<or> lm_calls s i = Some (Holding ip t k)}"

text \<open>A call is answered within \<open>d\<close> nanoseconds after it has read the clock.\<close>

inductive lm_step :: "int \<Rightarrow> limiter \<Rightarrow> mark \<Rightarrow> limiter \<Rightarrow> bool" for d where
  tick: "\<lbrakk>lm_clock s \<le> now; \<forall>t \<in> in_flight s. now - t \<le> d\<rbrakk> \<Longrightarrow> lm_step d s Quiet (s\<lparr>lm_clock := now\<rparr>)"
| call: "lm_calls s i = None \<Longrightarrow> lm_step d s Quiet (s\<lparr>lm_calls := (lm_calls s)(i \<mapsto> Called ip (lm_clock s))\<rparr>)"
| load: "\<lbrakk>lm_calls s i = Some (Called ip t); load_or_store ip t s = (k, s')\<rbrakk> \<Longrightarrow>
    lm_step d s (if lm_map s ip = None then Made ip (t < lm_cleaned s) else Quiet)
      (s'\<lparr>lm_calls := (lm_calls s)(i \<mapsto> Holding ip t k)\<rparr>)"
| lock: "\<lbrakk>lm_calls s i = Some (Holding ip t k); take_token (lm_rpm s) t (lm_buckets s ip ! k) = ((a, remaining, resetAt), e)\<rbrakk> \<Longrightarrow>
    lm_step d s (Used ip a (lm_map s ip \<noteq> Some k \<or> t < re_last (lm_buckets s ip ! k)))
      (s\<lparr>lm_buckets := (lm_buckets s)(ip := (lm_buckets s ip)[k := e]),
         lm_calls := (lm_calls s)(i \<mapsto> Answered a remaining resetAt)\<rparr>)"
| clean_start: "\<not> lm_cleaning s \<Longrightarrow> lm_step d s Quiet (s\<lparr>lm_cleaned := lm_clock s, lm_cleaning := True\<rparr>)"
| clean_key: "\<lbrakk>lm_cleaning s; lm_map s ip = Some k; time_sub (lm_cleaned s) (re_last (lm_buckets s ip ! k)) > rl_window\<rbrakk> \<Longrightarrow>
    lm_step d s Quiet (s\<lparr>lm_map := (lm_map s)(ip := None)\<rparr>)"
| clean_end: "lm_cleaning s \<Longrightarrow> lm_step d s Quiet (s\<lparr>lm_cleaning := False\<rparr>)"

inductive lm_run :: "int \<Rightarrow> limiter \<Rightarrow> mark list \<Rightarrow> limiter \<Rightarrow> bool" for d where
  stop: "lm_run d s [] s"
| step: "\<lbrakk>lm_step d s m s'; lm_run d s' ms s''\<rbrakk> \<Longrightarrow> lm_run d s (m # ms) s''"

definition lm_admitted :: "string \<Rightarrow> mark list \<Rightarrow> int" where
  "lm_admitted ip ms = int (length (filter (\<lambda>m. case m of Used k a ov \<Rightarrow> k = ip \<and> a | _ \<Rightarrow> False) ms))"

definition lm_overtaken :: "string \<Rightarrow> mark list \<Rightarrow> int" where
  "lm_overtaken ip ms = int (length (filter (\<lambda>m. case m of Used k a ov \<Rightarrow> k = ip \<and> ov | Made k ov \<Rightarrow> k = ip \<and> ov | Quiet \<Rightarrow> False) ms))"

section \<open>Without overtaking\<close>

definition limiter_of :: "limiter \<Rightarrow> rate_limiter" where
  "limiter_of s = \<lparr>rl_rpm = lm_rpm s, rl_entries = (\<lambda>ip. map_option (\<lambda>k. lm_buckets s ip ! k) (lm_map s ip))\<rparr>"

lemma Allow_take:
  "Allow ip now rl =
     (let e = (case rl_entries rl ip of None \<Rightarrow> \<lparr>re_tokens = rl_rpm rl, re_last = now\<rparr> | Some e \<Rightarrow> e);
          (res, e') = take_token (rl_rpm rl) now e
      in (res, rl\<lparr>rl_entries := (rl_entries rl)(ip \<mapsto> e')\<rparr>))"
  by (simp add: Allow_def take_token_def Let_def)

text \<open>The buckets are well filled, the map points to buckets, no time is in the future.\<close>

definition lm_ok :: "limiter \<Rightarrow> bool" where
  "lm_ok s \<longleftrightarrow> 0 < lm_rpm s \<and> lm_rpm s \<le> 10000 \<and> lm_cleaned s \<le> lm_clock s \<and>
     (\<forall>ip. \<forall>e \<in> set (lm_buckets s ip). 0 \<le> re_tokens e \<and> re_tokens e \<le> lm_rpm s \<and> re_last e \<le> lm_clock s) \<and>
     (\<forall>ip k. lm_map s ip = Some k \<longrightarrow> k < length (lm_buckets s ip)) \<and>
     (\<forall>i ip t k. lm_calls s i = Some (Holding ip t k) \<longrightarrow> t \<le> lm_clock s \<and> k < length (lm_buckets s ip)) \<and>
     (\<forall>i ip t. lm_calls s i = Some (Called ip t) \<longrightarrow> t \<le> lm_clock s) \<and>
     (\<forall>i a n r. lm_calls s i = Some (Answered a n r) \<longrightarrow> 0 \<le> n \<and> n < lm_rpm s)"

text \<open>A time that goes back recovers nothing.\<close>

lemma f64_nonpos: "x \<le> 0 \<Longrightarrow> f64 x \<le> 0"
  using f64_nonneg [of "- x"] by (auto simp: f64_def split: if_splits)

lemma recovered_back:
  assumes "d \<le> 0" and "0 \<le> rpm"
  shows "recovered_tokens rpm d \<le> 0"
proof -
  have "go_div d 1000000000 \<le> 0" "go_mod d 1000000000 \<le> 0"
    using assms(1) by (auto simp: go_div_def go_mod_def minus_div_mult_eq_mod mult.commute)
  then have S: "Seconds d \<le> 0"
    unfolding Seconds_def by (intro f64_nonpos add_nonpos_nonpos divide_nonpos_pos) (simp_all add: f64_nonpos)
  have "0 \<le> f64 (of_int rpm)" using assms(2) by (intro f64_nonneg) simp
  then have "f64 (f64 (Seconds d * f64 (of_int rpm)) / Seconds rl_window) \<le> 0"
    using S unfolding Seconds_window by (intro f64_nonpos divide_nonpos_pos mult_nonpos_nonneg) simp_all
  then show ?thesis by (auto simp: recovered_tokens_def trunc_def)
qed

lemma time_sub_back: "t < u \<Longrightarrow> time_sub t u < 0"
  by (auto simp: time_sub_def int64_min_def int64_max_def)

lemma take_token_tokens:
  assumes take: "take_token rpm t e = ((a, n, r), e')" and rpm: "0 < rpm" "rpm \<le> 10000"
    and e: "0 \<le> re_tokens e" "re_tokens e \<le> rpm"
  shows "re_last e' = t" and "0 \<le> re_tokens e'" and "re_tokens e' + (if a then 1 else 0) \<le> rpm"
    and "0 \<le> n \<and> n < rpm"
    and "re_last e \<le> t \<Longrightarrow> (re_tokens e' + (if a then 1 else 0)) * 60000000000 \<le> re_tokens e * 60000000000 + (t - re_last e) * rpm"
    and "t < re_last e \<Longrightarrow> re_tokens e' + (if a then 1 else 0) = re_tokens e"
proof -
  let ?d = "time_sub t (re_last e)"
  let ?x = "refill rpm (re_tokens e) ?d"
  have bwd: "?x = re_tokens e" if "t < re_last e"
    using recovered_back [of ?d rpm] time_sub_back [OF that] rpm by (simp add: refill_def Let_def)
  have fwd: "re_tokens e \<le> ?x \<and> ?x \<le> rpm \<and> ?x * 60000000000 \<le> re_tokens e * 60000000000 + (t - re_last e) * rpm"
    if "re_last e \<le> t"
  proof -
    have d: "0 \<le> ?d" "?d \<le> int64_max" "?d \<le> t - re_last e" using time_sub_bounds [OF that] by simp_all
    have "?d * rpm \<le> (t - re_last e) * rpm" using d(3) rpm by (intro mult_right_mono) simp_all
    then show ?thesis using refill_bounds [OF d(1,2) rpm e] by simp
  qed
  have x: "0 \<le> ?x" "?x \<le> rpm" using bwd fwd e by (cases "t < re_last e"; force)+
  have r: "re_last e' = t \<and> 0 \<le> re_tokens e' \<and> re_tokens e' + (if a then 1 else 0) = ?x \<and> 0 \<le> n \<and> n < rpm"
    using take x rpm by (auto simp: take_token_def Let_def split: if_splits)
  then show "re_last e' = t" "0 \<le> re_tokens e'" "re_tokens e' + (if a then 1 else 0) \<le> rpm" "0 \<le> n \<and> n < rpm"
    using x by simp_all
  show "re_last e \<le> t \<Longrightarrow> (re_tokens e' + (if a then 1 else 0)) * 60000000000 \<le> re_tokens e * 60000000000 + (t - re_last e) * rpm"
    and "t < re_last e \<Longrightarrow> re_tokens e' + (if a then 1 else 0) = re_tokens e"
    using r fwd bwd by simp_all
qed

lemma load_or_store_sel:
  assumes "load_or_store ip t s = (k, s')"
  shows "lm_rpm s' = lm_rpm s" "lm_calls s' = lm_calls s" "lm_clock s' = lm_clock s" "lm_cleaned s' = lm_cleaned s"
    "lm_cleaning s' = lm_cleaning s" "lm_map s' = (lm_map s)(ip \<mapsto> k)"
    "lm_buckets s' = (if lm_map s ip = None
       then (lm_buckets s)(ip := lm_buckets s ip @ [\<lparr>re_tokens = lm_rpm s, re_last = t\<rparr>]) else lm_buckets s)"
    "lm_map s ip = None \<Longrightarrow> k = length (lm_buckets s ip)" "lm_map s ip \<noteq> None \<Longrightarrow> lm_map s ip = Some k"
  using assms by (auto simp: load_or_store_def split: option.splits)

lemma lm_okD:
  assumes "lm_ok s"
  shows "0 < lm_rpm s" "lm_rpm s \<le> 10000" "lm_cleaned s \<le> lm_clock s"
    "e \<in> set (lm_buckets s ip) \<Longrightarrow> 0 \<le> re_tokens e \<and> re_tokens e \<le> lm_rpm s \<and> re_last e \<le> lm_clock s"
    "lm_map s ip = Some k \<Longrightarrow> k < length (lm_buckets s ip)"
    "lm_calls s i = Some (Holding ip t k) \<Longrightarrow> t \<le> lm_clock s \<and> k < length (lm_buckets s ip)"
    "lm_calls s i = Some (Called ip t) \<Longrightarrow> t \<le> lm_clock s"
    "lm_calls s i = Some (Answered a n r) \<Longrightarrow> 0 \<le> n \<and> n < lm_rpm s"
  using assms unfolding lm_ok_def by blast+

lemma lm_step_ok:
  assumes "lm_step d s m s'" and ok: "lm_ok s"
  shows "lm_ok s' \<and> lm_rpm s' = lm_rpm s \<and> lm_clock s \<le> lm_clock s' \<and> lm_cleaned s \<le> lm_cleaned s'"
  using assms(1)
proof (cases rule: lm_step.cases)
  case (tick now)
  have "t \<le> now" if "t \<le> lm_clock s" for t using that tick(3) by simp
  with tick show ?thesis using ok unfolding lm_ok_def by simp
next
  case (call i ip)
  then show ?thesis using ok unfolding lm_ok_def by (auto split: if_splits)
next
  case (load i ip t k s1)
  note sel = load_or_store_sel [OF load(4)]
  have t: "t \<le> lm_clock s" using lm_okD(7) [OF ok load(3)] .
  have k: "k < length (lm_buckets s1 ip)"
    using sel(7,8) sel(9) lm_okD(5) [OF ok] by (cases "lm_map s ip") auto
  have mono: "length (lm_buckets s j) \<le> length (lm_buckets s1 j)" for j by (simp add: sel(7))
  have "lm_ok s'"
    unfolding lm_ok_def
  proof (intro conjI allI impI ballI)
    fix j e assume "e \<in> set (lm_buckets s' j)"
    then have "e \<in> set (lm_buckets s j) \<or> e = \<lparr>re_tokens = lm_rpm s, re_last = t\<rparr>"
      by (auto simp: load(2) sel(7) split: if_splits)
    then show "0 \<le> re_tokens e" "re_tokens e \<le> lm_rpm s'" "re_last e \<le> lm_clock s'"
      using lm_okD(4) [OF ok] lm_okD(1) [OF ok] t by (auto simp: load(2) sel)
  next
    fix j l assume "lm_map s' j = Some l"
    then show "l < length (lm_buckets s' j)"
      using k lm_okD(5) [OF ok] mono by (auto simp: load(2) sel(6) split: if_splits intro: less_le_trans)
  next
    fix j u x l assume a: "lm_calls s' j = Some (Holding x u l)"
    have "l < length (lm_buckets s1 x)" if "lm_calls s j = Some (Holding x u l)"
      using lm_okD(6) [OF ok that] mono [of x] by simp
    then show "l < length (lm_buckets s' x)" "u \<le> lm_clock s'"
      using a k lm_okD(6) [OF ok] t by (auto simp: load(2) sel(3) split: if_splits)
  qed (use ok sel in \<open>auto simp: load(2) lm_okD split: if_splits\<close>)
  then show ?thesis by (simp add: load(2) sel)
next
  case (lock i ip t k a n r e)
  have h: "t \<le> lm_clock s" "k < length (lm_buckets s ip)" using lm_okD(6) [OF ok lock(3)] by simp_all
  have b: "0 \<le> re_tokens (lm_buckets s ip ! k)" "re_tokens (lm_buckets s ip ! k) \<le> lm_rpm s"
    using lm_okD(4) [OF ok nth_mem [OF h(2)]] by simp_all
  note tk = take_token_tokens [OF lock(4) lm_okD(1,2) [OF ok] b]
  have e: "0 \<le> re_tokens e" "re_tokens e \<le> lm_rpm s" "re_last e \<le> lm_clock s"
    using tk(1-3) h(1) by (auto split: if_splits)
  have "lm_ok s'"
    unfolding lm_ok_def
  proof (intro conjI allI impI ballI)
    fix j x assume "x \<in> set (lm_buckets s' j)"
    then have "x \<in> set (lm_buckets s j) \<or> x = e"
      using set_update_subset_insert [of "lm_buckets s ip" k e] by (auto simp: lock(2) split: if_splits)
    then show "0 \<le> re_tokens x" "re_tokens x \<le> lm_rpm s'" "re_last x \<le> lm_clock s'"
      using lm_okD(4) [OF ok] e by (auto simp: lock(2))
  next
    fix j l assume "lm_map s' j = Some l"
    then show "l < length (lm_buckets s' j)" using lm_okD(5) [OF ok] by (auto simp: lock(2))
  next
    fix j u x l assume "lm_calls s' j = Some (Holding x u l)"
    then show "l < length (lm_buckets s' x)" "u \<le> lm_clock s'"
      using lm_okD(6) [OF ok] by (auto simp: lock(2) split: if_splits)
  next
    fix j a' n' r' assume "lm_calls s' j = Some (Answered a' n' r')"
    then show "0 \<le> n'" "n' < lm_rpm s'" using lm_okD(8) [OF ok] tk(4) by (auto simp: lock(2) split: if_splits)
  qed (use ok in \<open>auto simp: lock(2) lm_okD split: if_splits\<close>)
  then show ?thesis by (simp add: lock(2))
next
  case clean_start
  then show ?thesis using ok unfolding lm_ok_def by auto
next
  case (clean_key ip k)
  then show ?thesis using ok unfolding lm_ok_def by (auto split: if_splits)
next
  case clean_end
  then show ?thesis using ok unfolding lm_ok_def by auto
qed

section \<open>The bound\<close>

definition prompt :: "int \<Rightarrow> limiter \<Rightarrow> bool" where
  "prompt d s \<longleftrightarrow> 0 \<le> d \<and> (\<forall>t \<in> in_flight s. lm_clock s - t \<le> d)"

lemma lm_step_prompt: "lm_step d s m s' \<Longrightarrow> prompt d s \<Longrightarrow> prompt d s'"
  by (induction rule: lm_step.induct)
    (auto simp: prompt_def in_flight_def load_or_store_sel(3) split: if_splits)

text \<open>
  Since \<open>t0\<close>, \<open>n\<close> requests of the client were let through and it was overtaken \<open>l\<close> times, which is worth a
  request and the tokens of \<open>d\<close> nanoseconds each time.
\<close>

definition race_inv :: "string \<Rightarrow> int \<Rightarrow> int \<Rightarrow> int \<Rightarrow> int \<Rightarrow> limiter \<Rightarrow> bool" where
  "race_inv ip d t0 n l s \<longleftrightarrow> t0 \<le> lm_clock s \<and>
     (let allowance = l * (60000000000 + d * lm_rpm s) in
      n * 60000000000 \<le> allowance \<or>
      (case lm_map s ip of
         None \<Rightarrow> n * 60000000000 \<le> (lm_cleaned s - t0 + d) * lm_rpm s + allowance
       | Some k \<Rightarrow>
           (n + re_tokens (lm_buckets s ip ! k)) * 60000000000 \<le>
             lm_rpm s * 60000000000 + (re_last (lm_buckets s ip ! k) - t0 + d) * lm_rpm s + allowance))"

lemma race_inv_same:
  assumes "race_inv ip d t0 n l s" and "0 < lm_rpm s" and "lm_rpm s' = lm_rpm s" and "lm_map s' ip = lm_map s ip"
    and "\<And>k. lm_map s ip = Some k \<Longrightarrow> lm_buckets s' ip ! k = lm_buckets s ip ! k"
    and "lm_clock s \<le> lm_clock s'" and "lm_cleaned s \<le> lm_cleaned s'"
  shows "race_inv ip d t0 n l s'"
proof -
  have "(lm_cleaned s - t0 + d) * lm_rpm s \<le> (lm_cleaned s' - t0 + d) * lm_rpm s"
    using assms(2,7) by (intro mult_right_mono) simp_all
  note c = this
  let ?A = "l * (60000000000 + d * lm_rpm s)"
  show ?thesis
  proof (cases "lm_map s ip")
    case None
    then have "n * 60000000000 \<le> ?A \<or> n * 60000000000 \<le> (lm_cleaned s - t0 + d) * lm_rpm s + ?A"
      using assms(1) by (simp add: race_inv_def Let_def)
    then have "n * 60000000000 \<le> ?A \<or> n * 60000000000 \<le> (lm_cleaned s' - t0 + d) * lm_rpm s + ?A"
      using c by linarith
    then show ?thesis using assms None by (simp add: race_inv_def Let_def)
  qed (use assms in \<open>simp add: race_inv_def Let_def\<close>)
qed

lemma race_inv_calls [simp]: "race_inv ip d t0 n l (s\<lparr>lm_calls := c\<rparr>) = race_inv ip d t0 n l s"
  by (simp add: race_inv_def Let_def split: option.split)

lemma lm_mark_simps [simp]:
  "lm_admitted ip [] = 0" "lm_overtaken ip [] = 0"
  "lm_admitted ip (m # ms) = (case m of Used k a ov \<Rightarrow> if k = ip \<and> a then 1 else 0 | _ \<Rightarrow> 0) + lm_admitted ip ms"
  "lm_overtaken ip (m # ms) =
     (case m of Used k a ov \<Rightarrow> if k = ip \<and> ov then 1 else 0 | Made k ov \<Rightarrow> if k = ip \<and> ov then 1 else 0 | Quiet \<Rightarrow> 0) + lm_overtaken ip ms"
  by (auto simp: lm_admitted_def lm_overtaken_def split: mark.splits)

lemma race_inv_load:
  assumes inv: "race_inv ip d t0 n l s" and ok: "lm_ok s" and pr: "prompt d s"
    and c: "lm_calls s i = Some (Called ip t)" and ld: "load_or_store ip t s = (k, s')" and new: "lm_map s ip = None"
  shows "race_inv ip d t0 n (l + (if t < lm_cleaned s then 1 else 0)) s'"
proof -
  note sel = load_or_store_sel [OF ld]
  let ?R = "lm_rpm s"
  have R: "0 < ?R" and cl: "lm_cleaned s \<le> lm_clock s" using lm_okD [OF ok] by simp_all
  have d: "0 \<le> d" "lm_clock s - t \<le> d" using pr c by (auto simp: prompt_def in_flight_def)
  have e: "lm_buckets s' ip ! k = \<lparr>re_tokens = ?R, re_last = t\<rparr>" using new by (simp add: sel)
  have dR: "0 \<le> d * ?R" using d R by simp
  have t: "(lm_cleaned s - t0 + d) * ?R \<le> (t - t0 + d) * ?R + (if t < lm_cleaned s then 1 else 0) * (60000000000 + d * ?R)"
  proof (cases "t < lm_cleaned s")
    case True
    have "(lm_cleaned s - t) * ?R \<le> d * ?R" using d(2) cl R by (intro mult_right_mono) simp_all
    then show ?thesis using True by (simp add: algebra_simps)
  next
    case False
    then have "(lm_cleaned s - t0 + d) * ?R \<le> (t - t0 + d) * ?R" using R by (intro mult_right_mono) simp_all
    then show ?thesis using False by simp
  qed
  show ?thesis
    using inv new t dR unfolding race_inv_def Let_def by (auto simp: sel(1,3,4,6) e algebra_simps)
qed

lemma race_inv_lock:
  assumes inv: "race_inv ip d t0 n l s" and ok: "lm_ok s" and pr: "prompt d s"
    and c: "lm_calls s i = Some (Holding ip t k)"
    and tk: "take_token (lm_rpm s) t (lm_buckets s ip ! k) = ((a, remaining, resetAt), e)"
    and s': "lm_rpm s' = lm_rpm s" "lm_map s' = lm_map s" "lm_clock s' = lm_clock s" "lm_cleaned s' = lm_cleaned s"
      "lm_buckets s' ip = (lm_buckets s ip)[k := e]"
  shows "race_inv ip d t0 (n + (if a then 1 else 0))
    (l + (if lm_map s ip \<noteq> Some k \<or> t < re_last (lm_buckets s ip ! k) then 1 else 0)) s'"
proof -
  let ?R = "lm_rpm s" and ?b = "lm_buckets s ip ! k" and ?K = "60000000000 + d * lm_rpm s"
  have R: "0 < ?R" "?R \<le> 10000" using lm_okD [OF ok] by simp_all
  have k: "k < length (lm_buckets s ip)" "t \<le> lm_clock s" using lm_okD(6) [OF ok c] by simp_all
  have b: "0 \<le> re_tokens ?b" "re_tokens ?b \<le> ?R" "re_last ?b \<le> lm_clock s" using lm_okD(4) [OF ok nth_mem [OF k(1)]] by simp_all
  have d: "0 \<le> d" "lm_clock s - t \<le> d" using pr c by (auto simp: prompt_def in_flight_def)
  have t0: "t0 \<le> lm_clock s" using inv by (simp add: race_inv_def)
  have dR: "0 \<le> d * ?R" "0 \<le> (t - t0 + d) * ?R" using d R t0 by simp_all
  note f = take_token_tokens [OF tk R b(1,2)]
  show ?thesis
  proof (cases "lm_map s ip = Some k")
    case True
    have e: "lm_buckets s' ip ! k = e" using k(1) by (simp add: s'(5))
    let ?ov = "if t < re_last ?b then 1 else 0 :: int"
    have gain: "(re_tokens e + (if a then 1 else 0)) * 60000000000 + (re_last ?b - t0 + d) * ?R \<le>
        re_tokens ?b * 60000000000 + (t - t0 + d) * ?R + ?ov * ?K"
    proof (cases "t < re_last ?b")
      case True
      have "(re_last ?b - t) * ?R \<le> d * ?R" using d(2) b(3) R by (intro mult_right_mono) simp_all
      then show ?thesis using True f(6) by (simp add: algebra_simps)
    next
      case False
      then show ?thesis using f(5) by (simp add: algebra_simps)
    qed
    have full: "(re_tokens e + (if a then 1 else 0)) * 60000000000 \<le> ?R * 60000000000"
      using f(3) by (intro mult_right_mono) simp_all
    have ov: "0 \<le> ?ov * ?K" using dR by simp
    have goal: "(n + (if a then 1 else 0) + re_tokens e) * 60000000000 \<le>
        ?R * 60000000000 + (t - t0 + d) * ?R + (l + ?ov) * ?K"
    proof (cases "n * 60000000000 \<le> l * ?K")
      case True
      then show ?thesis using full ov dR(2) by (simp add: distrib_right)
    next
      case False
      then have "(n + re_tokens ?b) * 60000000000 \<le> ?R * 60000000000 + (re_last ?b - t0 + d) * ?R + l * ?K"
        using inv True by (simp add: race_inv_def Let_def)
      then show ?thesis using gain by (simp add: distrib_right)
    qed
    show ?thesis
      unfolding race_inv_def Let_def s'(1-4) using goal t0 by (simp only: True e f(1) option.case) simp
  next
    case False
    have "(if a then 1 else 0) * 60000000000 \<le> ?K" using dR by simp
    moreover have "lm_buckets s' ip ! j = lm_buckets s ip ! j" if "lm_map s ip = Some j" for j
      using False that by (auto simp: s'(5))
    ultimately show ?thesis
      using inv False unfolding race_inv_def Let_def s'
      by (auto simp: distrib_right split: option.splits)
  qed
qed

lemma race_inv_clean:
  assumes inv: "race_inv ip d t0 n l s" and ok: "lm_ok s"
    and k: "lm_map s ip = Some k" and old: "time_sub (lm_cleaned s) (re_last (lm_buckets s ip ! k)) > rl_window"
  shows "race_inv ip d t0 n l (s\<lparr>lm_map := (lm_map s)(ip := None)\<rparr>)"
proof -
  let ?b = "lm_buckets s ip ! k" and ?R = "lm_rpm s"
  have R: "0 < ?R" using lm_okD [OF ok] by simp
  have b: "0 \<le> re_tokens ?b" using lm_okD(4) [OF ok nth_mem [OF lm_okD(5) [OF ok k]]] by simp
  have "60000000000 \<le> lm_cleaned s - re_last ?b" using old by (auto simp: time_sub_def rl_window_def int64_min_def)
  then have "60000000000 * ?R \<le> (lm_cleaned s - re_last ?b) * ?R" using R by (intro mult_right_mono) simp_all
  then show ?thesis using inv k b by (auto simp: race_inv_def Let_def algebra_simps)
qed

lemma lm_step_race_inv:
  assumes st: "lm_step d s m s'" and inv: "race_inv ip d t0 n l s" and ok: "lm_ok s" and pr: "prompt d s"
  shows "race_inv ip d t0 (n + lm_admitted ip [m]) (l + lm_overtaken ip [m]) s'"
proof -
  note mono = lm_step_ok [OF st ok]
  have R: "0 < lm_rpm s" using lm_okD [OF ok] by simp
  note same = race_inv_same [OF inv R, of s']
  have quiet: ?thesis if "m = Quiet" "lm_map s' = lm_map s" "lm_buckets s' = lm_buckets s"
  proof -
    have "race_inv ip d t0 n l s'" using mono by (intro same) (auto simp: that(2,3))
    then show ?thesis by (simp add: that(1))
  qed
  from st show ?thesis
  proof (cases rule: lm_step.cases)
    case (load i j t k s1)
    note sel = load_or_store_sel [OF load(4)]
    show ?thesis
    proof (cases "j = ip \<and> lm_map s ip = None")
      case True
      with load have "race_inv ip d t0 n (l + (if t < lm_cleaned s then 1 else 0)) s1"
        using race_inv_load [OF inv ok pr] by blast
      then show ?thesis using True by (simp add: load(1,2))
    next
      case False
      then have "race_inv ip d t0 n l s'"
        using mono sel(9) by (intro same) (auto simp: load(2) sel(6,7))
      then show ?thesis using False by (auto simp: load(1))
    qed
  next
    case (lock i j t k a remaining resetAt e)
    show ?thesis
    proof (cases "j = ip")
      case True
      have "race_inv ip d t0 (n + (if a then 1 else 0))
          (l + (if lm_map s ip \<noteq> Some k \<or> t < re_last (lm_buckets s ip ! k) then 1 else 0)) s'"
        using lock True by (intro race_inv_lock [OF inv ok pr]) simp_all
      then show ?thesis using True by (simp add: lock(1))
    next
      case False
      then have "race_inv ip d t0 n l s'" using mono by (intro same) (auto simp: lock(2))
      then show ?thesis using False by (simp add: lock(1))
    qed
  next
    case (clean_key j k)
    show ?thesis
    proof (cases "j = ip")
      case True
      then show ?thesis using race_inv_clean [OF inv ok] clean_key by simp
    next
      case False
      then have "race_inv ip d t0 n l s'" using mono by (intro same) (auto simp: clean_key(2))
      then show ?thesis by (simp add: clean_key(1))
    qed
  qed (rule quiet; simp)+
qed

lemma lm_run_race_inv:
  assumes "lm_run d s ms s'" and "race_inv ip d t0 n l s" and "lm_ok s" and "prompt d s"
  shows "race_inv ip d t0 (n + lm_admitted ip ms) (l + lm_overtaken ip ms) s' \<and> lm_ok s' \<and> lm_rpm s' = lm_rpm s"
  using assms
proof (induction arbitrary: n l rule: lm_run.induct)
  case (stop s)
  then show ?case by simp
next
  case (step s m s' ms s'')
  have "race_inv ip d t0 (n + lm_admitted ip [m]) (l + lm_overtaken ip [m]) s'" "lm_ok s'" "prompt d s'" "lm_rpm s' = lm_rpm s"
    using lm_step_race_inv [OF step.hyps(1) step.prems] lm_step_ok [OF step.hyps(1) step.prems(2)]
      lm_step_prompt [OF step.hyps(1) step.prems(3)] by simp_all
  from step.IH [OF this(1-3)] this(4) show ?case by (simp add: add.assoc)
qed

lemma race_inv_bound:
  assumes inv: "race_inv ip d t0 n l s" and ok: "lm_ok s" and d: "0 \<le> d" and l: "0 \<le> l"
  shows "n * 60000000000 \<le> lm_rpm s * 60000000000 + (lm_clock s - t0 + d) * lm_rpm s + l * (60000000000 + d * lm_rpm s)"
proof -
  let ?R = "lm_rpm s" and ?a = "l * (60000000000 + d * lm_rpm s)"
  have R: "0 < ?R" and cl: "lm_cleaned s \<le> lm_clock s" and t0: "t0 \<le> lm_clock s"
    using lm_okD [OF ok] inv by (simp_all add: race_inv_def)
  have n: "0 \<le> (lm_clock s - t0 + d) * ?R" using R t0 d by simp
  show ?thesis
  proof (cases "n * 60000000000 \<le> ?a")
    case True
    then show ?thesis using n R by simp
  next
    case False
    show ?thesis
    proof (cases "lm_map s ip")
      case None
      have "(lm_cleaned s - t0 + d) * ?R \<le> (lm_clock s - t0 + d) * ?R" using cl R by (intro mult_right_mono) simp_all
      moreover have "n * 60000000000 \<le> (lm_cleaned s - t0 + d) * ?R + ?a" using inv None False by (simp add: race_inv_def Let_def)
      ultimately show ?thesis using R by linarith
    next
      case (Some k)
      let ?b = "lm_buckets s ip ! k"
      have b: "0 \<le> re_tokens ?b" "re_last ?b \<le> lm_clock s" using lm_okD(4) [OF ok nth_mem [OF lm_okD(5) [OF ok Some]]] by simp_all
      have "(re_last ?b - t0 + d) * ?R \<le> (lm_clock s - t0 + d) * ?R" using b R by (intro mult_right_mono) simp_all
      then show ?thesis using inv Some False b(1) by (simp add: race_inv_def Let_def algebra_simps)
    qed
  qed
qed

lemma lm_overtaken_nonneg: "0 \<le> lm_overtaken ip ms"
  by (simp add: lm_overtaken_def)

section \<open>Sequential histories\<close>

text \<open>Nobody is in the limiter.\<close>

definition lm_idle :: "limiter \<Rightarrow> bool" where
  "lm_idle s \<longleftrightarrow> in_flight s = {} \<and> \<not> lm_cleaning s \<and> finite (dom (lm_map s)) \<and> finite (dom (lm_calls s))"

lemma lm_run_append: "lm_run d s ms s' \<Longrightarrow> lm_run d s' ms' s'' \<Longrightarrow> lm_run d s (ms @ ms') s''"
  by (induction rule: lm_run.induct) (auto intro: lm_run.step)

lemma lm_run_one: "lm_step d s m s' \<Longrightarrow> lm_run d s [m] s'"
  by (rule lm_run.step [OF _ lm_run.stop])

lemma lm_admitted_append [simp]: "lm_admitted ip (ms @ ms') = lm_admitted ip ms + lm_admitted ip ms'"
  by (simp add: lm_admitted_def)

lemma lm_overtaken_append [simp]: "lm_overtaken ip (ms @ ms') = lm_overtaken ip ms + lm_overtaken ip ms'"
  by (simp add: lm_overtaken_def)

lemma lm_run_ok:
  "lm_run d s ms s' \<Longrightarrow> lm_ok s \<Longrightarrow> lm_ok s'"
  by (induction rule: lm_run.induct) (use lm_step_ok in blast)+

text \<open>One call, alone in the limiter, is \<open>Allow\<close>.\<close>

lemma Request_run:
  assumes ok: "lm_ok s" and idle: "lm_idle s" and now: "lm_clock s \<le> now"
  shows "\<exists>ms s'. lm_run d s ms s' \<and> limiter_of s' = snd (Allow ip now (limiter_of s)) \<and> lm_clock s' = now \<and> lm_idle s' \<and>
    (\<forall>k. lm_overtaken k ms = 0 \<and> lm_admitted k ms = (if k = ip \<and> fst (fst (Allow ip now (limiter_of s))) then 1 else 0))"
proof -
  define s1 where "s1 = s\<lparr>lm_clock := now\<rparr>"
  obtain i where i: "lm_calls s i = None"
    using idle ex_new_if_finite [of "dom (lm_calls s)"] by (auto simp: lm_idle_def domIff)
  define s2 where "s2 = s1\<lparr>lm_calls := (lm_calls s1)(i \<mapsto> Called ip (lm_clock s1))\<rparr>"
  obtain k s3 where ld: "load_or_store ip now s2 = (k, s3)" by fastforce
  note sel = load_or_store_sel [OF ld]
  define s4 where "s4 = s3\<lparr>lm_calls := (lm_calls s2)(i \<mapsto> Holding ip now k)\<rparr>"
  obtain x e where x: "take_token (lm_rpm s4) now (lm_buckets s4 ip ! k) = (x, e)" by fastforce
  obtain a n r where "x = (a, n, r)" by (cases x)
  with x have tk: "take_token (lm_rpm s4) now (lm_buckets s4 ip ! k) = ((a, n, r), e)" by simp
  define s5 where "s5 = s4\<lparr>lm_buckets := (lm_buckets s4)(ip := (lm_buckets s4 ip)[k := e]),
    lm_calls := (lm_calls s4)(i \<mapsto> Answered a n r)\<rparr>"
  let ?m = "if lm_map s2 ip = None then Made ip (now < lm_cleaned s2) else Quiet"
  let ?u = "Used ip a (lm_map s4 ip \<noteq> Some k \<or> now < re_last (lm_buckets s4 ip ! k))"
  have st: "lm_step d s Quiet s1" "lm_step d s1 Quiet s2"
    unfolding s1_def s2_def using idle now i by (intro lm_step.tick lm_step.call; simp add: lm_idle_def)+
  have st3: "lm_step d s2 ?m s4"
    unfolding s4_def by (rule lm_step.load [OF _ ld]) (simp add: s2_def s1_def)
  have st4: "lm_step d s4 ?u s5"
    unfolding s5_def by (rule lm_step.lock [OF _ tk]) (simp add: s4_def)
  have run: "lm_run d s [Quiet, Quiet, ?m, ?u] s5"
    by (intro lm_run.step [OF st(1)] lm_run.step [OF st(2)] lm_run.step [OF st3] lm_run.step [OF st4] lm_run.stop)
  have ok4: "lm_ok s4" using lm_step_ok ok st st3 by blast
  have k4: "k < length (lm_buckets s4 ip)" by (rule lm_okD(5) [OF ok4]) (simp add: s4_def sel)
  have late: "\<not> now < re_last (lm_buckets s4 ip ! k)"
    using lm_okD(4) [OF ok4 nth_mem [OF k4]] by (simp add: s4_def sel s2_def s1_def)
  have old: "\<not> now < lm_cleaned s2" using lm_okD(3) [OF ok] now by (simp add: s2_def s1_def)
  have b: "lm_buckets s4 ip ! k = (case rl_entries (limiter_of s) ip of None \<Rightarrow> \<lparr>re_tokens = rl_rpm (limiter_of s), re_last = now\<rparr> | Some e \<Rightarrow> e)"
    using sel(8,9) by (cases "lm_map s ip") (auto simp: s4_def sel(7) s2_def s1_def limiter_of_def)
  have A: "Allow ip now (limiter_of s) = ((a, n, r), (limiter_of s)\<lparr>rl_entries := (rl_entries (limiter_of s))(ip \<mapsto> e)\<rparr>)"
  proof -
    have "lm_rpm s4 = rl_rpm (limiter_of s)" by (simp add: s4_def sel s2_def s1_def limiter_of_def)
    from tk [unfolded b this] show ?thesis unfolding Allow_take Let_def by simp
  qed
  have lim: "limiter_of s5 = (limiter_of s)\<lparr>rl_entries := (rl_entries (limiter_of s))(ip \<mapsto> e)\<rparr>"
  proof -
    have "rl_entries (limiter_of s5) j = ((rl_entries (limiter_of s))(ip \<mapsto> e)) j" for j
      using k4 by (cases "j = ip") (auto simp: limiter_of_def s5_def s4_def sel(6,7) s2_def s1_def)
    then show ?thesis by (simp add: limiter_of_def fun_eq_iff) (simp add: s5_def s4_def sel(1) s2_def s1_def)
  qed
  have "lm_idle s5"
    using idle by (auto simp: lm_idle_def in_flight_def s5_def s4_def sel s2_def s1_def split: if_splits)
  moreover have "lm_map s4 ip = Some k" "lm_clock s5 = now" by (simp_all add: s5_def s4_def sel s2_def s1_def)
  ultimately show ?thesis
    using run lim A late old by (intro exI [of _ "[Quiet, Quiet, ?m, ?u]"] exI [of _ s5]) auto
qed

text \<open>The visits of \<open>Range\<close> to the entries that are too old.\<close>

lemma clean_run:
  assumes "finite A" and "lm_cleaning s"
    and "\<forall>ip \<in> A. \<exists>k. lm_map s ip = Some k \<and> time_sub (lm_cleaned s) (re_last (lm_buckets s ip ! k)) > rl_window"
  shows "\<exists>ms. set ms \<subseteq> {Quiet} \<and> lm_run d s ms (s\<lparr>lm_map := (\<lambda>ip. if ip \<in> A then None else lm_map s ip)\<rparr>)"
  using assms
proof (induction A arbitrary: s rule: finite_induct)
  case empty
  have "lm_run d s [] (s\<lparr>lm_map := (\<lambda>ip. if ip \<in> {} then None else lm_map s ip)\<rparr>)" by (simp add: lm_run.stop)
  then show ?case by (intro exI [of _ "[]"]) simp
next
  case (insert x A)
  let ?s = "s\<lparr>lm_map := (lm_map s)(x := None)\<rparr>"
  have st: "lm_step d s Quiet ?s" using insert.prems by (auto intro: lm_step.clean_key)
  have "\<exists>ms. set ms \<subseteq> {Quiet} \<and> lm_run d ?s ms (?s\<lparr>lm_map := (\<lambda>ip. if ip \<in> A then None else lm_map ?s ip)\<rparr>)"
    by (rule insert.IH) (use insert in auto)
  then obtain ms where ms: "set ms \<subseteq> {Quiet}" "lm_run d ?s ms (?s\<lparr>lm_map := (\<lambda>ip. if ip \<in> A then None else lm_map ?s ip)\<rparr>)" by blast
  have "(\<lambda>ip. if ip \<in> A then None else lm_map ?s ip) = (\<lambda>ip. if ip \<in> insert x A then None else lm_map s ip)" by auto
  with ms(2) have "lm_run d ?s ms (s\<lparr>lm_map := (\<lambda>ip. if ip \<in> insert x A then None else lm_map s ip)\<rparr>)" by simp
  then show ?case using ms(1) lm_run.step [OF st] by (intro exI [of _ "Quiet # ms"]) auto
qed

lemma quiet_marks: "set ms \<subseteq> {Quiet} \<Longrightarrow> lm_admitted ip ms = 0 \<and> lm_overtaken ip ms = 0"
  by (induction ms) auto

lemma Cleanup_run:
  assumes idle: "lm_idle s" and now: "lm_clock s \<le> now"
  shows "\<exists>ms s'. lm_run d s ms s' \<and> limiter_of s' = cleanup now (limiter_of s) \<and> lm_clock s' = now \<and> lm_idle s' \<and> set ms \<subseteq> {Quiet}"
proof -
  let ?s2 = "s\<lparr>lm_clock := now, lm_cleaned := now, lm_cleaning := True\<rparr>"
  let ?A = "{ip. \<exists>k. lm_map s ip = Some k \<and> time_sub now (re_last (lm_buckets s ip ! k)) > rl_window}"
  let ?map = "\<lambda>ip. if ip \<in> ?A then None else lm_map s ip"
  have st: "lm_step d s Quiet (s\<lparr>lm_clock := now\<rparr>)" using idle now by (auto simp: lm_idle_def intro: lm_step.tick)
  have st2: "lm_step d (s\<lparr>lm_clock := now\<rparr>) Quiet ?s2"
    using lm_step.clean_start [of "s\<lparr>lm_clock := now\<rparr>" d] idle by (simp add: lm_idle_def)
  have "finite ?A" by (rule finite_subset [of _ "dom (lm_map s)"]) (use idle in \<open>auto simp: lm_idle_def\<close>)
  then have "\<exists>ms. set ms \<subseteq> {Quiet} \<and> lm_run d ?s2 ms (?s2\<lparr>lm_map := (\<lambda>ip. if ip \<in> ?A then None else lm_map ?s2 ip)\<rparr>)"
    by (rule clean_run) auto
  then obtain ms where ms: "set ms \<subseteq> {Quiet}" "lm_run d ?s2 ms (?s2\<lparr>lm_map := ?map\<rparr>)"
    by (auto cong: if_cong)
  let ?s4 = "s\<lparr>lm_clock := now, lm_cleaned := now, lm_map := ?map, lm_cleaning := False\<rparr>"
  have st4: "lm_step d (?s2\<lparr>lm_map := ?map\<rparr>) Quiet ?s4"
    using lm_step.clean_end [of "?s2\<lparr>lm_map := ?map\<rparr>" d] by simp
  have run: "lm_run d s ([Quiet, Quiet] @ ms @ [Quiet]) ?s4"
    by (intro lm_run_append [OF _ lm_run_append [OF ms(2) lm_run_one [OF st4]]] lm_run.step [OF st] lm_run_one [OF st2])
  have "rl_entries (limiter_of ?s4) ip = rl_entries (cleanup now (limiter_of s)) ip" for ip
    by (cases "lm_map s ip") (auto simp: limiter_of_def cleanup_def)
  then have lim: "limiter_of ?s4 = cleanup now (limiter_of s)"
    by (simp add: limiter_of_def cleanup_def fun_eq_iff)
  have "dom ?map \<subseteq> dom (lm_map s)" by (auto split: if_splits)
  then have "lm_idle ?s4" using idle finite_subset by (auto simp: lm_idle_def in_flight_def)
  then show ?thesis using run lim ms(1) by (intro exI [of _ "[Quiet, Quiet] @ ms @ [Quiet]"] exI [of _ ?s4]) auto
qed

lemma history_run:
  assumes "lm_ok s" and "lm_idle s" and "sorted_wrt (\<le>) (lm_clock s # map event_time evs)"
  shows "\<exists>ms s'. lm_run d s ms s' \<and> limiter_of s' = fold rate_step evs (limiter_of s) \<and>
    (\<forall>ip. lm_admitted ip ms = admitted ip evs (limiter_of s) \<and> lm_overtaken ip ms = 0)"
  using assms
proof (induction evs arbitrary: s)
  case Nil
  then show ?case by (intro exI [of _ "[]"] exI [of _ s]) (simp add: lm_run.stop)
next
  case (Cons ev evs)
  have le: "lm_clock s \<le> event_time ev" and so: "sorted_wrt (\<le>) (event_time ev # map event_time evs)" using Cons.prems(3) by simp_all
  have "\<exists>ms s1. lm_run d s ms s1 \<and> limiter_of s1 = rate_step ev (limiter_of s) \<and> lm_clock s1 = event_time ev \<and> lm_idle s1 \<and>
      (\<forall>ip. lm_overtaken ip ms = 0 \<and> lm_admitted ip ms =
        (case ev of Request k now \<Rightarrow> if k = ip \<and> fst (fst (Allow k now (limiter_of s))) then 1 else 0 | Cleanup now \<Rightarrow> 0))"
  proof (cases ev)
    case (Request k now)
    obtain ms s1 where "lm_run d s ms s1 \<and> limiter_of s1 = snd (Allow k now (limiter_of s)) \<and> lm_clock s1 = now \<and> lm_idle s1 \<and>
      (\<forall>j. lm_overtaken j ms = 0 \<and> lm_admitted j ms = (if j = k \<and> fst (fst (Allow k now (limiter_of s))) then 1 else 0))"
      using Request_run [OF Cons.prems(1,2), of now d k] le Request by auto
    then show ?thesis using Request by (intro exI [of _ ms] exI [of _ s1]) auto
  next
    case (Cleanup now)
    then show ?thesis using Cleanup_run [OF Cons.prems(2), of now d] le quiet_marks by simp blast
  qed
  then obtain ms s1 where 1: "lm_run d s ms s1" "limiter_of s1 = rate_step ev (limiter_of s)" "lm_clock s1 = event_time ev" "lm_idle s1"
    and m1: "\<forall>ip. lm_overtaken ip ms = 0 \<and> lm_admitted ip ms =
        (case ev of Request k now \<Rightarrow> if k = ip \<and> fst (fst (Allow k now (limiter_of s))) then 1 else 0 | Cleanup now \<Rightarrow> 0)" by blast
  from Cons.IH [OF lm_run_ok [OF 1(1) Cons.prems(1)] 1(4)] so 1(3) obtain ms' s' where 2: "lm_run d s1 ms' s'"
    "limiter_of s' = fold rate_step evs (limiter_of s1)"
    "\<forall>ip. lm_admitted ip ms' = admitted ip evs (limiter_of s1) \<and> lm_overtaken ip ms' = 0" by auto
  then show ?case
    using lm_run_append [OF 1(1) 2(1)] 1(2) m1 by (intro exI [of _ "ms @ ms'"] exI [of _ s']) auto
qed

lemma new_limiter_ok:
  "0 < rpm \<Longrightarrow> rpm \<le> 10000 \<Longrightarrow> lm_ok (new_limiter rpm now)" "lm_idle (new_limiter rpm now)"
  "0 \<le> d \<Longrightarrow> prompt d (new_limiter rpm now)" "limiter_of (new_limiter rpm now) = newRateLimiter rpm"
  by (simp_all add: lm_ok_def lm_idle_def prompt_def new_limiter_def in_flight_def limiter_of_def newRateLimiter_def)

section \<open>Properties\<close>

text \<open>
  Property C31: the throughput of a client among goroutines. Calls that are answered within \<open>d\<close> nanoseconds after they
  read the clock may interleave with each other and with clean-ups in any way: from any state the limiter
  can be in, a client is let through at most as often as a full bucket and the passing time allow, plus, for each time
  one of its calls is overtaken, one request and the tokens of \<open>d\<close> nanoseconds. And the buckets stay well filled.
\<close>

theorem rate_limit_concurrent:
  assumes "lm_ok s" and "prompt d s" and "lm_run d s ms s'"
  shows "lm_admitted ip ms * 60000000000 \<le>
      lm_rpm s * 60000000000 + (lm_clock s' - lm_clock s + d) * lm_rpm s +
      lm_overtaken ip ms * (60000000000 + d * lm_rpm s) \<and> lm_ok s'"
proof -
  have "race_inv ip d (lm_clock s) 0 0 s" by (simp add: race_inv_def)
  from lm_run_race_inv [OF assms(3) this assms(1,2)]
  have r: "race_inv ip d (lm_clock s) (lm_admitted ip ms) (lm_overtaken ip ms) s'" "lm_ok s'" "lm_rpm s' = lm_rpm s" by simp_all
  have "0 \<le> d" using assms(2) by (simp add: prompt_def)
  from race_inv_bound [OF r(1,2) this lm_overtaken_nonneg] show ?thesis using r(2,3) by simp
qed

text \<open>
  A bucket of one token per minute. The second call reads the clock at once and waits; the third is admitted after
  a minute; then the second turns the bucket's clock back, and a fourth is admitted in the same minute.
\<close>

definition overtaken_limiter :: limiter where
  "overtaken_limiter = (new_limiter 1 0)
     \<lparr>lm_map := [''192.0.2.1'' \<mapsto> 0],
      lm_buckets := (\<lambda>ip. if ip = ''192.0.2.1'' then [\<lparr>re_tokens = 0, re_last = 60000000000\<rparr>] else []),
      lm_clock := 60000000000, lm_cleaned := 0,
      lm_calls := [0 \<mapsto> Holding ''192.0.2.1'' 0 0, 1 \<mapsto> Holding ''192.0.2.1'' 60000000000 0]\<rparr>"

lemma overtaken_tokens:
  "take_token 1 0 \<lparr>re_tokens = 0, re_last = 60000000000\<rparr> = ((False, 0, 60), \<lparr>re_tokens = 0, re_last = 0\<rparr>)"
  "take_token 1 60000000000 \<lparr>re_tokens = 0, re_last = 0\<rparr> = ((True, 0, 120), \<lparr>re_tokens = 0, re_last = 60000000000\<rparr>)"
  by code_simp+

lemma overtaken_run:
  "\<exists>s'. lm_run 60000000000 overtaken_limiter [Used ''192.0.2.1'' False True, Used ''192.0.2.1'' True False] s' \<and>
    lm_clock s' = 60000000000"
proof -
  let ?ip = "''192.0.2.1''"
  let ?s1 = "overtaken_limiter\<lparr>lm_buckets := (lm_buckets overtaken_limiter)(?ip := (lm_buckets overtaken_limiter ?ip)[0 := \<lparr>re_tokens = 0, re_last = 0\<rparr>]),
    lm_calls := (lm_calls overtaken_limiter)(0 \<mapsto> Answered False 0 60)\<rparr>"
  have 1: "lm_step 60000000000 overtaken_limiter
      (Used ?ip False (lm_map overtaken_limiter ?ip \<noteq> Some 0 \<or> 0 < re_last (lm_buckets overtaken_limiter ?ip ! 0))) ?s1"
    by (rule lm_step.lock) (simp_all add: overtaken_limiter_def new_limiter_def overtaken_tokens)
  let ?s2 = "?s1\<lparr>lm_buckets := (lm_buckets ?s1)(?ip := (lm_buckets ?s1 ?ip)[0 := \<lparr>re_tokens = 0, re_last = 60000000000\<rparr>]),
    lm_calls := (lm_calls ?s1)(1 \<mapsto> Answered True 0 120)\<rparr>"
  have 2: "lm_step 60000000000 ?s1
      (Used ?ip True (lm_map ?s1 ?ip \<noteq> Some 0 \<or> 60000000000 < re_last (lm_buckets ?s1 ?ip ! 0))) ?s2"
    by (rule lm_step.lock) (simp_all add: overtaken_limiter_def new_limiter_def overtaken_tokens)
  have 1: "lm_step 60000000000 overtaken_limiter (Used ?ip False True) ?s1" and 2: "lm_step 60000000000 ?s1 (Used ?ip True False) ?s2"
    using 1 2 by (simp_all add: overtaken_limiter_def new_limiter_def)
  have "lm_run 60000000000 overtaken_limiter [Used ?ip False True, Used ?ip True False] ?s2"
    by (rule lm_run.step [OF 1 lm_run_one [OF 2]])
  moreover have "lm_clock ?s2 = 60000000000" by (simp add: overtaken_limiter_def)
  ultimately show ?thesis by blast
qed

lemma overtaken_limiter_ok: "lm_ok overtaken_limiter" "prompt 60000000000 overtaken_limiter"
  by (auto simp: lm_ok_def prompt_def in_flight_def overtaken_limiter_def new_limiter_def split: if_splits)

theorem rate_limit_concurrent_witness:
  "\<exists>s'. lm_run 60000000000 overtaken_limiter [Used ''192.0.2.1'' False True, Used ''192.0.2.1'' True False] s' \<and> lm_ok s'"
  using rate_limit_concurrent [OF overtaken_limiter_ok] overtaken_run by blast



end
