(* ===== verification/Migrations.thy ===== *)
theory Migrations
  imports Database Storage "HOL-Library.Multiset"
begin

text \<open>
  \<open>internal/db/migrate.go\<close>: finding the migrations in a file system, splitting their SQL into statements,
  and running and rolling back migrations on a database. The SQL server is a parameter: \<open>run\<close> executes
  one statement on a catalog, \<open>ddl\<close> says which statements commit implicitly (in MariaDB all that
  create, alter or drop a table), after which the transaction the code opened no longer exists.
\<close>

record migration =
  Version :: int
  mg_Name :: string
  UpSQL :: string
  DownSQL :: string

definition migration_String :: "migration \<Rightarrow> string" where
  "migration_String m = format_03d (Version m) @ ''_'' @ mg_Name m"

section \<open>Loading\<close>

text \<open>\<open>fs.FS\<close>: the entries of a directory in the order \<open>fs.ReadDir\<close> gives them; \<open>None\<close> where reading fails.\<close>

datatype fs_node = FileNode "string option" | DirNode "(string \<times> fs_node) list option"

type_synonym fsys = "(string \<times> fs_node) list option"

datatype load_error = ReadMigrationsDir | ReadUp string | ReadDown string

definition is_dir_node :: "fs_node \<Rightarrow> bool" where
  "is_dir_node n = (case n of DirNode _ \<Rightarrow> True | FileNode _ \<Rightarrow> False)"

definition hasUpMigration :: "(string \<times> fs_node) list \<Rightarrow> bool" where
  "hasUpMigration entries = list_ex (\<lambda>(name, n). \<not> is_dir_node n \<and> has_suffix name ''.up.sql'') entries"

definition hasDir :: "(string \<times> fs_node) list \<Rightarrow> string \<Rightarrow> bool" where
  "hasDir entries name = list_ex (\<lambda>(n, node). is_dir_node node \<and> n = name) entries"

text \<open>\<open>fs.ReadFile\<close> in one directory.\<close>

definition read_file :: "(string \<times> fs_node) list \<Rightarrow> string \<Rightarrow> string option" where
  "read_file entries name =
     (case map_of entries name of Some (FileNode c) \<Rightarrow> c | _ \<Rightarrow> None)"

text \<open>\<open>fmt.Sscanf(s, "%d", &version)\<close>: blanks, a sign, decimal digits; what follows is not read.\<close>

definition scan_d :: "string \<Rightarrow> int option" where
  "scan_d s =
     (let t = trim_left s; blanks = take (length s - length t) s
      in if CHR 0x0A \<in> set blanks then None
         else (case signed t of (neg, ds) \<Rightarrow>
           parse_int64 ((if neg then ''-'' else []) @ takeWhile is_digit ds)))"

text \<open>One round of the loop over the entries: the migration the entry names, if it names one.\<close>

definition entry_migration :: "string \<times> fs_node \<Rightarrow> migration option" where
  "entry_migration e =
     (case e of (filename, node) \<Rightarrow>
        if is_dir_node node \<or> \<not> has_suffix filename ''.up.sql'' then None
        else (case split2 (CHR ''_'') (trim_suffix filename ''.up.sql'') of
            [p0, p1] \<Rightarrow>
              (case scan_d p0 of None \<Rightarrow> None
               | Some v \<Rightarrow> Some \<lparr>Version = v, mg_Name = p1, UpSQL = [], DownSQL = []\<rparr>)
          | _ \<Rightarrow> None))"

fun collect_migrations :: "string set \<Rightarrow> (string \<times> fs_node) list \<Rightarrow> migration list" where
  "collect_migrations seen [] = []"
| "collect_migrations seen (e # es) =
     (case entry_migration e of
        None \<Rightarrow> collect_migrations seen es
      | Some m \<Rightarrow>
          if mg_Name m \<in> seen then collect_migrations seen es
          else m # collect_migrations (insert (mg_Name m) seen) es)"

fun read_sql :: "(string \<times> fs_node) list \<Rightarrow> migration list \<Rightarrow> load_error + migration list" where
  "read_sql entries [] = Inr []"
| "read_sql entries (m # ms) =
     (let upPath = migration_String m @ ''.up.sql''; downPath = migration_String m @ ''.down.sql'' in
      case read_file entries upPath of
        None \<Rightarrow> Inl (ReadUp upPath)
      | Some up \<Rightarrow>
          (case read_file entries downPath of
             None \<Rightarrow> Inl (ReadDown downPath)
           | Some down \<Rightarrow>
               (case read_sql entries ms of
                  Inl e \<Rightarrow> Inl e
                | Inr rest \<Rightarrow> Inr (m\<lparr>UpSQL := up, DownSQL := down\<rparr> # rest))))"

text \<open>The directory the migrations are in: lines 26 to 38.\<close>

definition migrations_dir :: "fsys \<Rightarrow> fsys" where
  "migrations_dir root =
     (case root of None \<Rightarrow> None
      | Some entries \<Rightarrow>
          if \<not> hasUpMigration entries \<and> hasDir entries ''migrations''
          then (case map_of entries ''migrations'' of Some (DirNode sub) \<Rightarrow> sub | _ \<Rightarrow> Some entries)
          else Some entries)"

text \<open>\<open>slice_sort key xs\<close> is \<open>sort.Slice\<close> by a key.\<close>

definition LoadMigrations :: "((migration \<Rightarrow> int) \<Rightarrow> migration list \<Rightarrow> migration list) \<Rightarrow> fsys \<Rightarrow>
    load_error + migration list" where
  "LoadMigrations slice_sort root =
     (case migrations_dir root of
        None \<Rightarrow> Inl ReadMigrationsDir
      | Some entries \<Rightarrow> read_sql entries (slice_sort Version (collect_migrations {} entries)))"

section \<open>Splitting SQL\<close>

definition sql_lines :: "string \<Rightarrow> string list" where
  "sql_lines s =
     filter (\<lambda>line. \<not> (has_prefix line ''--'' \<or> line = [])) (map trim_space (split_on (CHR 0x0A) s))"

definition splitSQL :: "string \<Rightarrow> string list" where
  "splitSQL sql =
     filter (\<lambda>stmt. stmt \<noteq> [])
       (map (\<lambda>s. trim_space (join_with [CHR 0x0A] (sql_lines s))) (split_on (CHR '';'') sql))"

section \<open>The database of the migrations\<close>

text \<open>The catalog, the rows of \<open>schema_migrations\<close> (\<open>None\<close> before it is created), the queue of faults.\<close>

record 'c mig_db =
  mg_catalog :: 'c
  mg_applied :: "(int \<times> string) list option"
  mg_faults :: "db_fault list"

datatype mig_step = CreateTable | CheckMigration | BeginTx | ApplyStmt | RecordMigration | DeleteRecord | CommitTx

text \<open>The error names the step that failed and the version it was about.\<close>

type_synonym 'c mig_result = "(mig_step \<times> int, unit, 'c mig_db) outcome"

definition next_mig_fault :: "'c mig_db \<Rightarrow> db_fault \<times> 'c mig_db" where
  "next_mig_fault db =
     (case mg_faults db of [] \<Rightarrow> (DNone, db) | f # rest \<Rightarrow> (f, db\<lparr>mg_faults := rest\<rparr>))"

text \<open>A statement gives the new database, or \<open>None\<close> where the server refuses it.\<close>

definition mig_exec :: "('c mig_db \<Rightarrow> 'c mig_db option) \<Rightarrow> 'c mig_db \<Rightarrow> bool \<times> 'c mig_db" where
  "mig_exec f db0 =
     (case next_mig_fault db0 of (flt, db) \<Rightarrow>
        (case flt of
           DFail \<Rightarrow> (False, db)
         | DNone \<Rightarrow> (case f db of None \<Rightarrow> (False, db) | Some db' \<Rightarrow> (True, db'))
         | DLost \<Rightarrow> (False, case f db of None \<Rightarrow> db | Some db' \<Rightarrow> db')))"

definition createMigrationsTable :: "'c mig_db \<Rightarrow> bool \<times> 'c mig_db" where
  "createMigrationsTable =
     mig_exec (\<lambda>db. Some (db\<lparr>mg_applied := (case mg_applied db of None \<Rightarrow> Some [] | Some rows \<Rightarrow> Some rows)\<rparr>))"

definition applied_rows :: "'c mig_db \<Rightarrow> (int \<times> string) list" where
  "applied_rows db = (case mg_applied db of None \<Rightarrow> [] | Some rows \<Rightarrow> rows)"

text \<open>\<open>None\<close> is the error.\<close>

definition isMigrationApplied :: "int \<Rightarrow> 'c mig_db \<Rightarrow> bool option \<times> 'c mig_db" where
  "isMigrationApplied version db =
     (case mig_exec (\<lambda>db. case mg_applied db of None \<Rightarrow> None | Some rows \<Rightarrow> Some db) db of
        (ok, db') \<Rightarrow> (if ok then Some (list_ex (\<lambda>row. fst row = version) (applied_rows db')) else None, db'))"

text \<open>
  An open transaction keeps the catalog and the rows it started with; after an implicit commit there is
  none (\<open>None\<close>) and every statement commits itself. A statement that did not reach the server commits
  nothing.
\<close>

type_synonym 'c saved = "('c \<times> (int \<times> string) list option) option"

definition mig_rollback :: "'c saved \<Rightarrow> 'c mig_db \<Rightarrow> 'c mig_db" where
  "mig_rollback saved db =
     (case saved of None \<Rightarrow> db | Some (c, rows) \<Rightarrow> db\<lparr>mg_catalog := c, mg_applied := rows\<rparr>)"

fun tx_exec_all :: "(string \<Rightarrow> 'c \<Rightarrow> 'c option) \<Rightarrow> (string \<Rightarrow> bool) \<Rightarrow> string list \<Rightarrow> 'c saved \<Rightarrow> 'c mig_db \<Rightarrow>
    bool \<times> 'c saved \<times> 'c mig_db" where
  "tx_exec_all run ddl [] saved db = (True, saved, db)"
| "tx_exec_all run ddl (stmt # stmts) saved db =
     (let saved' = (if ddl stmt \<and> fst (next_mig_fault db) \<noteq> DFail then None else saved) in
      case mig_exec (\<lambda>db. case run stmt (mg_catalog db) of None \<Rightarrow> None | Some c \<Rightarrow> Some (db\<lparr>mg_catalog := c\<rparr>)) db of
        (False, db') \<Rightarrow> (False, saved', db')
      | (True, db') \<Rightarrow> tx_exec_all run ddl stmts saved' db')"

text \<open>\<open>tx.Commit()\<close>.\<close>

definition mig_commit :: "'c saved \<Rightarrow> 'c mig_db \<Rightarrow> bool \<times> 'c mig_db" where
  "mig_commit saved db0 =
     (case next_mig_fault db0 of (flt, db) \<Rightarrow>
        (case flt of DNone \<Rightarrow> (True, db) | DFail \<Rightarrow> (False, mig_rollback saved db) | DLost \<Rightarrow> (False, db)))"

text \<open>\<open>INSERT INTO schema_migrations\<close>: the version is the primary key, an \<open>INT\<close>.\<close>

definition record_row :: "int \<Rightarrow> string \<Rightarrow> 'c mig_db \<Rightarrow> 'c mig_db option" where
  "record_row v name db =
     (if list_ex (\<lambda>row. fst row = v) (applied_rows db) \<or> \<not> varchar_ok 255 name \<or> v < - (2 ^ 31) \<or> 2 ^ 31 \<le> v then None
      else Some (db\<lparr>mg_applied := Some (applied_rows db @ [(v, name)])\<rparr>))"

definition delete_row :: "int \<Rightarrow> 'c mig_db \<Rightarrow> 'c mig_db option" where
  "delete_row v db = Some (db\<lparr>mg_applied := Some (filter (\<lambda>row. fst row \<noteq> v) (applied_rows db))\<rparr>)"

text \<open>One migration between \<open>Begin\<close> and \<open>Commit\<close>, up (\<open>record_row\<close>) or down (\<open>delete_row\<close>).\<close>

definition mig_tx :: "(string \<Rightarrow> 'c \<Rightarrow> 'c option) \<Rightarrow> (string \<Rightarrow> bool) \<Rightarrow> int \<Rightarrow> string list \<Rightarrow> mig_step \<Rightarrow>
    ('c mig_db \<Rightarrow> 'c mig_db option) \<Rightarrow> 'c mig_db \<Rightarrow> 'c mig_result" where
  "mig_tx run ddl v stmts rec_step rec_stmt db =
     (case mig_exec Some db of
        (False, db1) \<Rightarrow> (Inl (BeginTx, v), db1)
      | (True, db1) \<Rightarrow>
          (case tx_exec_all run ddl stmts (Some (mg_catalog db1, mg_applied db1)) db1 of
             (False, saved, db2) \<Rightarrow> (Inl (ApplyStmt, v), mig_rollback saved db2)
           | (True, saved, db2) \<Rightarrow>
               (case mig_exec rec_stmt db2 of
                  (False, db3) \<Rightarrow> (Inl (rec_step, v), mig_rollback saved db3)
                | (True, db3) \<Rightarrow>
                    (case mig_commit saved db3 of
                       (False, db4) \<Rightarrow> (Inl (CommitTx, v), db4)
                     | (True, db4) \<Rightarrow> (Inr (), db4)))))"

definition apply_migration :: "(string \<Rightarrow> 'c \<Rightarrow> 'c option) \<Rightarrow> (string \<Rightarrow> bool) \<Rightarrow> migration \<Rightarrow> 'c mig_db \<Rightarrow> 'c mig_result" where
  "apply_migration run ddl m db =
     (case isMigrationApplied (Version m) db of
        (None, db1) \<Rightarrow> (Inl (CheckMigration, Version m), db1)
      | (Some True, db1) \<Rightarrow> (Inr (), db1)
      | (Some False, db1) \<Rightarrow>
          mig_tx run ddl (Version m) (splitSQL (UpSQL m)) RecordMigration (record_row (Version m) (mg_Name m)) db1)"

definition RunMigrations :: "(string \<Rightarrow> 'c \<Rightarrow> 'c option) \<Rightarrow> (string \<Rightarrow> bool) \<Rightarrow> migration list \<Rightarrow> 'c mig_db \<Rightarrow> 'c mig_result" where
  "RunMigrations run ddl migrations db =
     (case createMigrationsTable db of
        (False, db1) \<Rightarrow> (Inl (CreateTable, 0), db1)
      | (True, db1) \<Rightarrow> foreach (apply_migration run ddl) migrations db1)"

text \<open>The loop of \<open>RollbackMigration\<close> ends with the first migration that is applied.\<close>

fun rollback_first :: "(string \<Rightarrow> 'c \<Rightarrow> 'c option) \<Rightarrow> (string \<Rightarrow> bool) \<Rightarrow> migration list \<Rightarrow> 'c mig_db \<Rightarrow> 'c mig_result" where
  "rollback_first run ddl [] db = (Inr (), db)"
| "rollback_first run ddl (m # ms) db =
     (case isMigrationApplied (Version m) db of
        (None, db1) \<Rightarrow> (Inl (CheckMigration, Version m), db1)
      | (Some False, db1) \<Rightarrow> rollback_first run ddl ms db1
      | (Some True, db1) \<Rightarrow>
          mig_tx run ddl (Version m) (splitSQL (DownSQL m)) DeleteRecord (delete_row (Version m)) db1)"

definition RollbackMigration :: "((migration \<Rightarrow> int) \<Rightarrow> migration list \<Rightarrow> migration list) \<Rightarrow>
    (string \<Rightarrow> 'c \<Rightarrow> 'c option) \<Rightarrow> (string \<Rightarrow> bool) \<Rightarrow> migration list \<Rightarrow> 'c mig_db \<Rightarrow> 'c mig_result" where
  "RollbackMigration slice_sort run ddl migrations db =
     (case createMigrationsTable db of
        (False, db1) \<Rightarrow> (Inl (CreateTable, 0), db1)
      | (True, db1) \<Rightarrow> rollback_first run ddl (slice_sort (\<lambda>m. - Version m) migrations) db1)"

section \<open>The connection string\<close>

text \<open>\<open>mysql.ParseDSN\<close> and \<open>FormatDSN\<close> after setting \<open>ParseTime\<close> are the parameter \<open>reformat\<close>.\<close>

datatype dsn_error = DsnRequired | DsnInvalid string

definition normalizeMySQLDSN :: "(string \<Rightarrow> string + string) \<Rightarrow> string \<Rightarrow> dsn_error + string" where
  "normalizeMySQLDSN reformat dsn =
     (if trim_space dsn = [] then Inl DsnRequired
      else (case reformat dsn of Inl e \<Rightarrow> Inl (DsnInvalid e) | Inr s \<Rightarrow> Inr s))"

section \<open>The statements of a script\<close>

lemma set_trim_left: "set (trim_left s) \<subseteq> set s"
proof (induction s rule: trim_left.induct)
  case 1
  then show ?case by simp
next
  case (2 c cs)
  then show ?case by (auto split: prod.splits dest: in_set_dropD simp del: decode_rune.simps)
qed

lemma set_trim_space: "set (trim_space s) \<subseteq> set s"
proof -
  have "set (trim_right t) \<subseteq> set t" for t using trim_right_prefix [of t] by (rule set_mono_prefix)
  then show ?thesis unfolding trim_space_def using set_trim_left by blast
qed

lemma trim_space_idem: "trim_space (trim_space s) = trim_space s"
proof (cases "trim_space s")
  case Nil
  then show ?thesis by (simp add: trim_space_def trim_right_def)
next
  case (Cons c cs)
  let ?t = "trim_space s"
  have "\<not> is_space (fst (decode_rune (c # cs)))"
    using trim_space_ends(1) [of s] by (simp add: Cons decode_runes_hd del: decode_rune.simps decode_runes.simps)
  then have "trim_left ?t = ?t" unfolding Cons by (simp add: case_prod_beta del: decode_rune.simps)
  moreover have "trim_right ?t = ?t"
  proof -
    have r: "rev ?t = trim_right_rev (rev (trim_left s))" by (simp add: trim_space_def trim_right_def)
    obtain d ds where d: "rev ?t = d # ds" using Cons by (cases "rev ?t") auto
    have "\<not> is_space (fst (decode_last_rev (d # ds)))" using trim_right_rev_hd r d by metis
    then have "trim_right_rev (d # ds) = d # ds" by (simp add: case_prod_beta)
    then show ?thesis unfolding trim_right_def d by (metis d rev_rev_ident)
  qed
  ultimately show ?thesis by (simp add: trim_space_def)
qed

lemma set_join_with: "set (join_with sep xs) \<subseteq> set sep \<union> (\<Union>x \<in> set xs. set x)"
  by (induction sep xs rule: join_with.induct) auto

lemma splitSQL_stmt:
  assumes "s \<in> set (splitSQL sql)"
  shows "s \<noteq> [] \<and> CHR '';'' \<notin> set s \<and> trim_space s = s"
proof -
  from assms obtain p where p: "p \<in> set (split_on (CHR '';'') sql)" and ne: "s \<noteq> []"
    and s: "s = trim_space (join_with [CHR 0x0A] (sql_lines p))" by (auto simp: splitSQL_def)
  have "CHR '';'' \<notin> set l" if "l \<in> set (sql_lines p)" for l
  proof -
    obtain q where q: "q \<in> set (split_on (CHR 0x0A) p)" "l = trim_space q" using \<open>l \<in> _\<close> by (auto simp: sql_lines_def)
    have "set (join_with [CHR 0x0A] (split_on (CHR 0x0A) p)) = set p" by (simp add: join_split)
    moreover have "set x \<subseteq> set (join_with sep xs)" if "x \<in> set xs" for x sep and xs :: "string list"
      using that by (induction sep xs rule: join_with.induct) auto
    ultimately have "set q \<subseteq> set p" using q(1) by metis
    then show ?thesis using split_on_free [OF p] set_trim_space [of q] q(2) by blast
  qed
  then have "CHR '';'' \<notin> set (join_with [CHR 0x0A] (sql_lines p))"
    using set_join_with [of "[CHR 0x0A]" "sql_lines p"] by auto
  then show ?thesis using ne s set_trim_space trim_space_idem by blast
qed

text \<open>A statement in the form the splitter returns it: trimmed lines, none of them empty or a comment.\<close>

definition clean_stmt :: "string \<Rightarrow> bool" where
  "clean_stmt s \<longleftrightarrow> s \<noteq> [] \<and> CHR '';'' \<notin> set s \<and> trim_space s = s \<and>
     list_all (\<lambda>l. l \<noteq> [] \<and> trim_space l = l \<and> \<not> has_prefix l ''--'') (split_on (CHR 0x0A) s)"

lemma sql_lines_clean: "clean_stmt s \<Longrightarrow> sql_lines s = split_on (CHR 0x0A) s"
proof -
  assume c: "clean_stmt s"
  have "map trim_space (split_on (CHR 0x0A) s) = split_on (CHR 0x0A) s"
    using c by (intro map_idI) (simp add: clean_stmt_def list_all_iff)
  then show ?thesis using c by (simp add: sql_lines_def clean_stmt_def list_all_iff)
qed

lemma trim_space_Nil [simp]: "trim_space [] = []"
  by (simp add: trim_space_def trim_right_def)

lemma sql_lines_newline: "sql_lines (CHR 0x0A # s) = sql_lines s"
  by (simp add: sql_lines_def)

lemma splitSQL_script:
  assumes "list_all clean_stmt ss"
  shows "splitSQL (concat (map (\<lambda>s. s @ '';'' @ [CHR 0x0A]) ss)) = ss"
proof -
  let ?sc = "\<lambda>ss. concat (map (\<lambda>s. s @ '';'' @ [CHR 0x0A]) ss)"
  have "splitSQL (CHR 0x0A # ?sc ss) = ss \<and> splitSQL (?sc ss) = ss" if "list_all clean_stmt ss" for ss
    using that
  proof (induction ss)
    case Nil
    then show ?case by (simp add: splitSQL_def sql_lines_def)
  next
    case (Cons s ss)
    then have c: "clean_stmt s" by simp
    have j: "trim_space (join_with [CHR 0x0A] (sql_lines s)) = s" "s \<noteq> []"
      using c by (simp_all add: sql_lines_clean join_split) (simp_all add: clean_stmt_def)
    have n: "CHR '';'' \<notin> set s" using c by (simp add: clean_stmt_def)
    have sp: "split_on (CHR '';'') (?sc (s # ss)) = s # split_on (CHR '';'') (CHR 0x0A # ?sc ss)"
      using split_on_append [OF n] by simp
    have sp2: "split_on (CHR '';'') (CHR 0x0A # ?sc (s # ss)) = (CHR 0x0A # s) # split_on (CHR '';'') (CHR 0x0A # ?sc ss)"
      using split_on_append [of "CHR '';''" "CHR 0x0A # s"] n by simp
    have IH: "splitSQL (CHR 0x0A # ?sc ss) = ss" using Cons by simp
    show ?case
      using IH j unfolding splitSQL_def sp sp2 by (simp add: sql_lines_newline)
  qed
  then show ?thesis using assms by blast
qed

section \<open>What loading gives\<close>

definition slice_sort_ok :: "((migration \<Rightarrow> int) \<Rightarrow> migration list \<Rightarrow> migration list) \<Rightarrow> bool" where
  "slice_sort_ok srt \<longleftrightarrow> (\<forall>key ms. mset (srt key ms) = mset ms \<and> sorted (map key (srt key ms)))"

lemma collect_names: "distinct (map mg_Name (collect_migrations seen es)) \<and>
    (\<forall>m \<in> set (collect_migrations seen es). mg_Name m \<notin> seen)"
proof (induction es arbitrary: seen)
  case Nil
  then show ?case by simp
next
  case (Cons e es)
  show ?case
  proof (cases "entry_migration e")
    case None
    then show ?thesis using Cons [of seen] by simp
  next
    case (Some m)
    then show ?thesis using Cons [of seen] Cons [of "insert (mg_Name m) seen"] by auto
  qed
qed

lemma read_sql_Inr:
  assumes "read_sql entries ms = Inr rs"
  shows "map Version rs = map Version ms \<and> map mg_Name rs = map mg_Name ms \<and>
    (\<forall>m \<in> set rs. read_file entries (migration_String m @ ''.up.sql'') = Some (UpSQL m) \<and>
       read_file entries (migration_String m @ ''.down.sql'') = Some (DownSQL m))"
  using assms
proof (induction ms arbitrary: rs)
  case Nil
  then show ?case by simp
next
  case (Cons m ms)
  from Cons.prems obtain up down rest where up: "read_file entries (migration_String m @ ''.up.sql'') = Some up"
    and down: "read_file entries (migration_String m @ ''.down.sql'') = Some down"
    and rest: "read_sql entries ms = Inr rest" and rs: "rs = m\<lparr>UpSQL := up, DownSQL := down\<rparr> # rest"
    by (auto simp: Let_def split: option.splits sum.splits)
  have "migration_String (m\<lparr>UpSQL := up, DownSQL := down\<rparr>) = migration_String m" by (simp add: migration_String_def)
  with Cons.IH [OF rest] up down rs show ?case by simp
qed

lemma LoadMigrations_Inr:
  assumes "LoadMigrations srt root = Inr ms" and "slice_sort_ok srt"
  shows "sorted (map Version ms) \<and> distinct (map mg_Name ms) \<and>
    (\<exists>entries. migrations_dir root = Some entries \<and>
      (\<forall>m \<in> set ms. read_file entries (migration_String m @ ''.up.sql'') = Some (UpSQL m) \<and>
         read_file entries (migration_String m @ ''.down.sql'') = Some (DownSQL m)))"
proof -
  from assms(1) obtain entries where e: "migrations_dir root = Some entries"
    and r: "read_sql entries (srt Version (collect_migrations {} entries)) = Inr ms"
    by (auto simp: LoadMigrations_def split: option.splits)
  note R = read_sql_Inr [OF r]
  have "mset (map mg_Name (srt Version (collect_migrations {} entries))) = mset (map mg_Name (collect_migrations {} entries))"
    using assms(2) by (simp add: slice_sort_ok_def)
  then have "distinct (map mg_Name ms)" using R collect_names by (metis mset_eq_imp_distinct_iff)
  moreover have "sorted (map Version ms)" using R assms(2) by (simp add: slice_sort_ok_def)
  ultimately show ?thesis using e R by blast
qed

lemma slice_sort_instance: "slice_sort_ok sort_key"
  by (simp add: slice_sort_ok_def)

section \<open>Running migrations\<close>

text \<open>Rows of \<open>schema_migrations\<close> that are there stay there, in front of the new ones.\<close>

definition rows_kept :: "'c mig_db \<Rightarrow> 'c mig_db \<Rightarrow> bool" where
  "rows_kept db db' \<longleftrightarrow> prefix (applied_rows db) (applied_rows db') \<and> (mg_applied db \<noteq> None \<longrightarrow> mg_applied db' \<noteq> None)"

lemma rows_kept_refl [simp]: "rows_kept db db" "rows_kept db (db\<lparr>mg_faults := fs\<rparr>)" "rows_kept db (db\<lparr>mg_catalog := c\<rparr>)"
  by (simp_all add: rows_kept_def applied_rows_def)

lemma rows_kept_trans: "rows_kept a b \<Longrightarrow> rows_kept b c \<Longrightarrow> rows_kept a c"
  by (auto simp: rows_kept_def)

lemma next_mig_fault_keeps: "next_mig_fault db = (f, db1) \<Longrightarrow> db1 = db\<lparr>mg_faults := tl (mg_faults db)\<rparr>"
  by (cases db) (auto simp: next_mig_fault_def split: list.splits)

lemma mig_exec_cases:
  assumes "mig_exec f db = (ok, db')"
  obtains "\<not> ok" "\<exists>fs. db' = db\<lparr>mg_faults := fs\<rparr>"
  | "\<exists>fs. f (db\<lparr>mg_faults := fs\<rparr>) = Some db'"
proof -
  obtain flt db1 where n: "next_mig_fault db = (flt, db1)" by fastforce
  have db1: "db1 = db\<lparr>mg_faults := tl (mg_faults db)\<rparr>" by (rule next_mig_fault_keeps [OF n])
  show ?thesis
    using assms that n db1 by (cases flt; cases "f db1") (auto simp: mig_exec_def)
qed

lemma mig_exec_ok: "mig_exec f db = (True, db') \<Longrightarrow> \<exists>fs. f (db\<lparr>mg_faults := fs\<rparr>) = Some db'"
  by (cases rule: mig_exec_cases [of f db True db']) auto

lemma isMigrationApplied_keeps:
  assumes "isMigrationApplied v db = (r, db')"
  shows "\<exists>fs. db' = db\<lparr>mg_faults := fs\<rparr>"
    and "r = Some b \<Longrightarrow> b = list_ex (\<lambda>row. fst row = v) (applied_rows db) \<and> mg_applied db \<noteq> None"
proof -
  let ?f = "\<lambda>db. case mg_applied db of None \<Rightarrow> None | Some rows \<Rightarrow> Some (db :: 'a mig_db)"
  obtain ok db1 where e: "mig_exec ?f db = (ok, db1)" by fastforce
  have db1: "\<exists>fs. db1 = db\<lparr>mg_faults := fs\<rparr>" "ok \<Longrightarrow> mg_applied db \<noteq> None"
    by (cases rule: mig_exec_cases [OF e]; auto split: option.splits)+
  have "db' = db1" "r = (if ok then Some (list_ex (\<lambda>row. fst row = v) (applied_rows db1)) else None)"
    using assms e by (simp_all add: isMigrationApplied_def)
  with db1 show "\<exists>fs. db' = db\<lparr>mg_faults := fs\<rparr>"
    "r = Some b \<Longrightarrow> b = list_ex (\<lambda>row. fst row = v) (applied_rows db) \<and> mg_applied db \<noteq> None"
    by (auto simp: applied_rows_def split: if_splits)
qed

text \<open>The statements of a transaction leave the rows alone; the saved rows are those of its beginning.\<close>

lemma tx_exec_all_keeps:
  assumes "tx_exec_all run ddl stmts saved db = (ok, saved', db')"
  shows "mg_applied db' = mg_applied db \<and> (saved' = None \<or> saved' = saved)"
  using assms
proof (induction run ddl stmts saved db arbitrary: ok saved' db' rule: tx_exec_all.induct)
  case (1 run ddl saved db)
  then show ?case by simp
next
  case (2 run ddl stmt stmts saved db)
  let ?f = "\<lambda>db. case run stmt (mg_catalog db) of None \<Rightarrow> None | Some c \<Rightarrow> Some (db\<lparr>mg_catalog := c\<rparr>)"
  let ?s = "if ddl stmt \<and> fst (next_mig_fault db) \<noteq> DFail then None else saved"
  obtain ok1 db1 where e: "mig_exec ?f db = (ok1, db1)" by fastforce
  have a: "mg_applied db1 = mg_applied db" by (cases rule: mig_exec_cases [OF e]) (auto split: option.splits)
  show ?case
  proof (cases ok1)
    case False
    then show ?thesis using 2(2) e a by (auto simp: Let_def)
  next
    case True
    have "tx_exec_all run ddl stmts ?s db1 = (ok, saved', db')" using 2(2) e True by (simp add: Let_def)
    from 2(1) [OF refl _ _ this, of True] e True a show ?thesis by (auto split: if_splits)
  qed
qed

lemma mig_commit_cases:
  assumes "mig_commit saved db = (ok, db')"
  shows "\<exists>fs. db' = db\<lparr>mg_faults := fs\<rparr> \<or> (\<not> ok \<and> db' = mig_rollback saved (db\<lparr>mg_faults := fs\<rparr>))"
proof -
  obtain flt db1 where n: "next_mig_fault db = (flt, db1)" by fastforce
  show ?thesis using assms n next_mig_fault_keeps [OF n] by (cases flt) (auto simp: mig_commit_def)
qed

text \<open>The rows after a migration transaction: those before, or the recording statement was run on them.\<close>

lemma mig_tx_rows:
  assumes "mig_tx run ddl v stmts st rec db = (r, db')" and "\<And>d d'. rec d = Some d' \<Longrightarrow> \<exists>rows. d' = d\<lparr>mg_applied := rows\<rparr>"
  shows "(mg_applied db' = mg_applied db \<and> r \<noteq> Inr ()) \<or>
    (\<exists>d d'. mg_applied d = mg_applied db \<and> rec d = Some d' \<and> mg_applied db' = mg_applied d')"
proof -
  obtain ok1 db1 where b: "mig_exec Some db = (ok1, db1)" by fastforce
  have b1: "mg_applied db1 = mg_applied db" by (cases rule: mig_exec_cases [OF b]) auto
  let ?s = "Some (mg_catalog db1, mg_applied db1)"
  obtain ok2 sv db2 where x: "tx_exec_all run ddl stmts ?s db1 = (ok2, sv, db2)" by (metis prod_cases3)
  note x2 = tx_exec_all_keeps [OF x]
  have rb: "mg_applied (mig_rollback sv d) \<in> {mg_applied d, mg_applied db}" for d :: "'a mig_db"
    using x2 b1 by (auto simp: mig_rollback_def)
  obtain ok3 db3 where e: "mig_exec rec db2 = (ok3, db3)" by fastforce
  obtain ok4 db4 where c: "mig_commit sv db3 = (ok4, db4)" by fastforce
  have rec3: "mg_applied db3 = mg_applied db \<and> \<not> ok3 \<or> (\<exists>d. mg_applied d = mg_applied db \<and> rec d = Some db3)"
  proof (cases rule: mig_exec_cases [OF e])
    case 1
    then show ?thesis using x2 b1 by auto
  next
    case 2
    then obtain fs where "rec (db2\<lparr>mg_faults := fs\<rparr>) = Some db3" by blast
    then show ?thesis using x2 b1 by (intro disjI2 exI [of _ "db2\<lparr>mg_faults := fs\<rparr>"]) simp
  qed
  consider "\<not> ok1" | "ok1" "\<not> ok2" | "ok1" "ok2" "\<not> ok3" | "ok1" "ok2" "ok3" by blast
  then show ?thesis
  proof cases
    case 1
    then show ?thesis using assms(1) b b1 by (auto simp: mig_tx_def)
  next
    case 2
    then have "db' = mig_rollback sv db2" "r = Inl (ApplyStmt, v)" using assms(1) b x by (simp_all add: mig_tx_def)
    then show ?thesis using rb [of db2] x2 b1 by auto
  next
    case 3
    then have "db' = mig_rollback sv db3" "r = Inl (st, v)" using assms(1) b x e by (simp_all add: mig_tx_def)
    then show ?thesis using rb [of db3] rec3 by auto
  next
    case 4
    then have d: "db' = db4" "r = (if ok4 then Inr () else Inl (CommitTx, v))"
      using assms(1) b x e c by (cases ok4; simp add: mig_tx_def)+
    from 4 rec3 obtain d0 where d0: "mg_applied d0 = mg_applied db" "rec d0 = Some db3" by blast
    obtain fs where "db4 = db3\<lparr>mg_faults := fs\<rparr> \<or> \<not> ok4 \<and> db4 = mig_rollback sv (db3\<lparr>mg_faults := fs\<rparr>)"
      using mig_commit_cases [OF c] by blast
    then have "mg_applied db4 = mg_applied db3 \<or> \<not> ok4 \<and> mg_applied db4 = mg_applied db"
      using rb [of "db3\<lparr>mg_faults := fs\<rparr>"] by auto
    then show ?thesis using d d0 by auto
  qed
qed

lemma applied_rows_cong: "mg_applied a = mg_applied b \<Longrightarrow> applied_rows a = applied_rows b"
  by (simp add: applied_rows_def)

lemma version_listed: "list_ex (\<lambda>row. fst row = v) rows \<longleftrightarrow> v \<in> fst ` set rows"
  by (auto simp: list_ex_iff)

lemma apply_migration_rows:
  assumes "apply_migration run ddl m db = (r, db')"
  shows "rows_kept db db'" and "r = Inr () \<Longrightarrow> Version m \<in> fst ` set (applied_rows db')"
proof -
  obtain x db1 where i: "isMigrationApplied (Version m) db = (x, db1)" by fastforce
  note k = isMigrationApplied_keeps [OF i]
  obtain fs where db1: "db1 = db\<lparr>mg_faults := fs\<rparr>" using k(1) by blast
  have "rows_kept db db' \<and> (r = Inr () \<longrightarrow> Version m \<in> fst ` set (applied_rows db'))"
  proof (cases "x = Some False")
    case True
    then have t: "mig_tx run ddl (Version m) (splitSQL (UpSQL m)) RecordMigration (record_row (Version m) (mg_Name m)) db1 = (r, db')"
      using assms i by (simp add: apply_migration_def)
    have "\<exists>rows. d' = d\<lparr>mg_applied := rows\<rparr>" if "record_row (Version m) (mg_Name m) d = Some d'" for d d' :: "'a mig_db"
      using that by (auto simp: record_row_def split: if_splits)
    note rows = mig_tx_rows [OF t this]
    have "rows_kept db db'" if "mg_applied db' = mg_applied db1"
      using that db1 by (simp add: rows_kept_def applied_rows_def)
    moreover have "rows_kept db db' \<and> Version m \<in> fst ` set (applied_rows db')"
      if "mg_applied d = mg_applied db1" "record_row (Version m) (mg_Name m) d = Some d'" "mg_applied db' = mg_applied d'" for d d'
    proof -
      have "applied_rows d = applied_rows db" using that(1) db1 by (simp add: applied_rows_def)
      then have "mg_applied db' = Some (applied_rows db @ [(Version m, mg_Name m)])"
        using that(2,3) by (auto simp: record_row_def split: if_splits)
      then have "applied_rows db' = applied_rows db @ [(Version m, mg_Name m)]" "mg_applied db' \<noteq> None"
        by (simp_all add: applied_rows_def)
      then show ?thesis by (simp add: rows_kept_def)
    qed
    ultimately show ?thesis using rows by blast
  next
    case False
    then have d: "db' = db1" "r = Inr () \<longrightarrow> x = Some True"
      using assms i by (auto simp: apply_migration_def split: option.splits bool.splits)
    have "Version m \<in> fst ` set (applied_rows db1)" if "r = Inr ()"
      using k(2) [of True] d(2) that db1 by (simp add: version_listed applied_rows_def)
    then show ?thesis using d db1 by simp
  qed
  then show "rows_kept db db'" and "r = Inr () \<Longrightarrow> Version m \<in> fst ` set (applied_rows db')" by blast+
qed

lemma createMigrationsTable_rows: "createMigrationsTable db = (ok, db') \<Longrightarrow> rows_kept db db' \<and> (ok \<longrightarrow> mg_applied db' \<noteq> None)"
  unfolding createMigrationsTable_def
  by (erule mig_exec_cases) (auto simp: rows_kept_def applied_rows_def split: option.splits)

lemma foreach_apply_rows:
  assumes "foreach (apply_migration run ddl) ms db = (r, db')"
  shows "rows_kept db db' \<and> (r = Inr () \<longrightarrow> (\<forall>m \<in> set ms. Version m \<in> fst ` set (applied_rows db')))"
  using assms
proof (induction ms arbitrary: db)
  case Nil
  then show ?case by simp
next
  case (Cons m ms)
  obtain r1 db1 where a: "apply_migration run ddl m db = (r1, db1)" by fastforce
  note A = apply_migration_rows [OF a]
  show ?case
  proof (cases r1)
    case (Inl e)
    then show ?thesis using Cons.prems a A by auto
  next
    case (Inr u)
    then have f: "foreach (apply_migration run ddl) ms db1 = (r, db')" using Cons.prems a by simp
    have kept: "rows_kept db1 db'" and all: "r = Inr () \<longrightarrow> (\<forall>m \<in> set ms. Version m \<in> fst ` set (applied_rows db'))"
      using Cons.IH [OF f] by blast+
    have "Version m \<in> fst ` set (applied_rows db')"
    proof -
      have "set (applied_rows db1) \<subseteq> set (applied_rows db')" using kept by (simp add: rows_kept_def set_mono_prefix)
      then show ?thesis using A(2) Inr by auto
    qed
    then show ?thesis using rows_kept_trans [OF A(1) kept] all by simp
  qed
qed

lemma RunMigrations_rows:
  assumes "RunMigrations run ddl ms db = (r, db')"
  shows "rows_kept db db' \<and>
    (r = Inr () \<longrightarrow> mg_applied db' \<noteq> None \<and> (\<forall>m \<in> set ms. Version m \<in> fst ` set (applied_rows db')))"
proof -
  obtain ok db1 where c: "createMigrationsTable db = (ok, db1)" by fastforce
  note C = createMigrationsTable_rows [OF c]
  show ?thesis
  proof (cases ok)
    case True
    then have "foreach (apply_migration run ddl) ms db1 = (r, db')" using assms c by (simp add: RunMigrations_def)
    from foreach_apply_rows [OF this] show ?thesis using C True rows_kept_trans unfolding rows_kept_def by blast
  next
    case False
    then show ?thesis using assms c C by (auto simp: RunMigrations_def)
  qed
qed

text \<open>Without faults: a migration that is recorded is skipped.\<close>

lemma mig_exec_no_fault:
  "mg_faults db = [] \<Longrightarrow> mig_exec f db = (case f db of None \<Rightarrow> (False, db) | Some db' \<Rightarrow> (True, db'))"
  by (simp add: mig_exec_def next_mig_fault_def)

lemma isMigrationApplied_no_fault:
  "mg_faults db = [] \<Longrightarrow> mg_applied db \<noteq> None \<Longrightarrow>
   isMigrationApplied v db = (Some (list_ex (\<lambda>row. fst row = v) (applied_rows db)), db)"
  by (auto simp: isMigrationApplied_def mig_exec_no_fault)

lemma RunMigrations_again:
  assumes nf: "mg_faults db = []" and some: "mg_applied db \<noteq> None"
    and all: "\<forall>m \<in> set ms. Version m \<in> fst ` set (applied_rows db)"
  shows "RunMigrations run ddl ms db = (Inr (), db)"
proof -
  have "createMigrationsTable db = (True, db)"
    using nf some by (auto simp: createMigrationsTable_def mig_exec_no_fault)
  moreover have "apply_migration run ddl m db = (Inr (), db)" if "m \<in> set ms" for m
    using isMigrationApplied_no_fault [OF nf some, of "Version m"] all that
    by (simp add: apply_migration_def version_listed)
  then have "foreach (apply_migration run ddl) ms db = (Inr (), db)"
    by (induction ms) simp_all
  ultimately show ?thesis by (simp add: RunMigrations_def)
qed

text \<open>The statements of a script, one after the other; \<open>None\<close> where one is refused.\<close>

fun run_all :: "(string \<Rightarrow> 'c \<Rightarrow> 'c option) \<Rightarrow> string list \<Rightarrow> 'c \<Rightarrow> 'c option" where
  "run_all run [] c = Some c"
| "run_all run (s # ss) c = (case run s c of None \<Rightarrow> None | Some c' \<Rightarrow> run_all run ss c')"

lemma tx_exec_all_ok:
  assumes "mg_faults db = []" and "run_all run stmts (mg_catalog db) = Some c"
  shows "tx_exec_all run ddl (stmts @ rest) saved db =
    tx_exec_all run ddl rest (if list_ex ddl stmts then None else saved) (db\<lparr>mg_catalog := c\<rparr>)"
  using assms
proof (induction stmts arbitrary: db saved)
  case Nil
  then show ?case by (cases db) auto
next
  case (Cons s ss)
  from Cons.prems(2) obtain c1 where c1: "run s (mg_catalog db) = Some c1" "run_all run ss c1 = Some c"
    by (auto split: option.splits)
  then show ?case
    using Cons.IH [of "db\<lparr>mg_catalog := c1\<rparr>"] Cons.prems(1)
    by (auto simp: mig_exec_no_fault next_mig_fault_def Let_def)
qed

text \<open>A migration on a working server: its statements, then its row.\<close>

lemma apply_migration_new:
  assumes nf: "mg_faults db = []" and some: "mg_applied db \<noteq> None"
    and new: "Version m \<notin> fst ` set (applied_rows db)"
    and run: "run_all run (splitSQL (UpSQL m)) (mg_catalog db) = Some c"
    and name: "varchar_ok 255 (mg_Name m)" and range: "- (2 ^ 31) \<le> Version m" "Version m < 2 ^ 31"
  shows "apply_migration run ddl m db =
    (Inr (), db\<lparr>mg_catalog := c, mg_applied := Some (applied_rows db @ [(Version m, mg_Name m)])\<rparr>)"
proof -
  have n: "\<not> list_ex (\<lambda>row. fst row = Version m) (applied_rows db)" using new by (simp add: version_listed)
  show ?thesis
    using isMigrationApplied_no_fault [OF nf some] n nf name range
      tx_exec_all_ok [OF nf run, of ddl "[]" "Some (mg_catalog db, mg_applied db)"]
    by (simp add: apply_migration_def mig_tx_def mig_exec_no_fault record_row_def applied_rows_def
        mig_commit_def next_mig_fault_def)
qed

text \<open>A script that fails behind an implicit commit keeps what it has done, and is not recorded.\<close>

lemma apply_migration_half:
  assumes nf: "mg_faults db = []" and some: "mg_applied db \<noteq> None"
    and new: "Version m \<notin> fst ` set (applied_rows db)"
    and sql: "splitSQL (UpSQL m) = done @ bad # rest" and run: "run_all run done (mg_catalog db) = Some c"
    and ddl: "list_ex ddl done" and bad: "run bad c = None"
  shows "apply_migration run ddl m db = (Inl (ApplyStmt, Version m), db\<lparr>mg_catalog := c\<rparr>)"
proof -
  have n: "\<not> list_ex (\<lambda>row. fst row = Version m) (applied_rows db)" using new by (simp add: version_listed)
  have "tx_exec_all run ddl (splitSQL (UpSQL m)) saved db = (False, None, db\<lparr>mg_catalog := c\<rparr>)" for saved
    unfolding sql using tx_exec_all_ok [OF nf run, of ddl "bad # rest" saved] ddl bad nf
    by (simp add: mig_exec_no_fault Let_def)
  then show ?thesis
    using isMigrationApplied_no_fault [OF nf some] n nf
    by (simp add: apply_migration_def mig_tx_def mig_exec_no_fault mig_rollback_def)
qed

section \<open>Properties\<close>

text \<open>
  A script is its statements. Every statement the splitter returns is non-empty, has no
  semicolon and no white space around it; and a script that is written as statements in that form, each
  ended by a semicolon and a line break, is split into exactly these.
\<close>

theorem splitSQL_round_trip:
  assumes "list_all clean_stmt ss"
  shows "splitSQL (concat (map (\<lambda>s. s @ '';'' @ [CHR 0x0A]) ss)) = ss \<and>
    list_all (\<lambda>s. s \<noteq> [] \<and> CHR '';'' \<notin> set s \<and> trim_space s = s) (splitSQL sql)"
  using splitSQL_script [OF assms] splitSQL_stmt by (simp add: list_all_iff)

lemmas ascii_eval = trim_space_ascii byte_def is_space_def has_prefix_def

lemma script_clean: "list_all clean_stmt [''DROP TABLE a'', ''DROP TABLE b'']"
proof -
  have "split_on (CHR 0x0A) ''DROP TABLE a'' = [''DROP TABLE a'']" "split_on (CHR 0x0A) ''DROP TABLE b'' = [''DROP TABLE b'']"
    by code_simp+
  then show ?thesis by (simp add: clean_stmt_def ascii_eval)
qed

theorem splitSQL_round_trip_witness:
  "splitSQL (concat (map (\<lambda>s. s @ '';'' @ [CHR 0x0A]) [''DROP TABLE a'', ''DROP TABLE b''])) = [''DROP TABLE a'', ''DROP TABLE b'']"
  using splitSQL_round_trip [OF script_clean] by blast

text \<open>
  Property C37: running the migrations again does nothing. After a run without an error every version is
  recorded, the rows that were there before are still there in front, and another run on a connection that
  works succeeds and leaves catalog and rows as they are.
\<close>

theorem migrations_idempotent:
  assumes "RunMigrations run ddl ms db = (Inr (), db')"
  shows "(\<forall>m \<in> set ms. Version m \<in> fst ` set (applied_rows db')) \<and> rows_kept db db' \<and>
    RunMigrations run ddl ms (db'\<lparr>mg_faults := []\<rparr>) = (Inr (), db'\<lparr>mg_faults := []\<rparr>)"
proof -
  note r = RunMigrations_rows [OF assms]
  then have "RunMigrations run ddl ms (db'\<lparr>mg_faults := []\<rparr>) = (Inr (), db'\<lparr>mg_faults := []\<rparr>)"
    by (intro RunMigrations_again) (simp_all add: applied_rows_def)
  then show ?thesis using r by blast
qed

text \<open>A server that accepts every statement but \<open>B\<close>, and a migration with two statements.\<close>

definition demo_run :: "string \<Rightarrow> string list \<Rightarrow> string list option" where
  "demo_run stmt c = (if stmt = ''B'' then None else Some (c @ [stmt]))"

definition demo_migration :: "string \<Rightarrow> migration" where
  "demo_migration sql = \<lparr>Version = 1, mg_Name = ''m'', UpSQL = sql, DownSQL = []\<rparr>"

definition demo_db :: "string list mig_db" where
  "demo_db = \<lparr>mg_catalog = [], mg_applied = Some [], mg_faults = []\<rparr>"

lemma demo_split: "splitSQL ''A;C'' = [''A'', ''C'']" "splitSQL ''A;B'' = [''A'', ''B'']"
proof -
  have "split_on (CHR '';'') ''A;C'' = [''A'', ''C'']" "split_on (CHR '';'') ''A;B'' = [''A'', ''B'']"
    "split_on (CHR 0x0A) ''A'' = [''A'']" "split_on (CHR 0x0A) ''B'' = [''B'']" "split_on (CHR 0x0A) ''C'' = [''C'']"
    by code_simp+
  then show "splitSQL ''A;C'' = [''A'', ''C'']" "splitSQL ''A;B'' = [''A'', ''B'']"
    by (simp_all add: splitSQL_def sql_lines_def ascii_eval)
qed

lemma demo_name: "varchar_ok 255 ''m''"
  using valid_utf8_ascii [of "''m''"] by (simp add: varchar_ok_def byte_def)

lemma demo_applied:
  "apply_migration demo_run (\<lambda>s. True) (demo_migration ''A;C'') demo_db =
    (Inr (), demo_db\<lparr>mg_catalog := [''A'', ''C''], mg_applied := Some [(1, ''m'')]\<rparr>)"
  using apply_migration_new [of demo_db "demo_migration ''A;C''" demo_run "[''A'', ''C'']" "\<lambda>s. True"]
  by (simp add: demo_db_def demo_migration_def demo_split demo_run_def demo_name applied_rows_def)

lemma demo_table: "createMigrationsTable demo_db = (True, demo_db)"
  by (simp add: createMigrationsTable_def mig_exec_no_fault demo_db_def)

theorem migrations_idempotent_witness:
  "RunMigrations demo_run (\<lambda>s. True) [demo_migration ''A;C''] (demo_db\<lparr>mg_catalog := [''A'', ''C''], mg_applied := Some [(1, ''m'')]\<rparr>) =
    (Inr (), demo_db\<lparr>mg_catalog := [''A'', ''C''], mg_applied := Some [(1, ''m'')]\<rparr>)"
proof -
  have "RunMigrations demo_run (\<lambda>s. True) [demo_migration ''A;C''] demo_db =
      (Inr (), demo_db\<lparr>mg_catalog := [''A'', ''C''], mg_applied := Some [(1, ''m'')]\<rparr>)"
    by (simp add: RunMigrations_def demo_table demo_applied)
  from migrations_idempotent [OF this] show ?thesis by (simp add: demo_db_def)
qed

text \<open>
  Property C39: a failed migration stays half done. When a statement of a migration is refused after one
  that commits implicitly, the rollback undoes nothing: the run ends with an error, the catalog keeps the
  effect of the statements before, and no row is recorded.
\<close>

theorem migration_half_applied:
  assumes "mg_faults db = []" and "mg_applied db \<noteq> None" and "Version m \<notin> fst ` set (applied_rows db)"
    and "splitSQL (UpSQL m) = done @ bad # rest" and "run_all run done (mg_catalog db) = Some c"
    and "list_ex ddl done" and "run bad c = None"
  shows "RunMigrations run ddl (m # ms) db = (Inl (ApplyStmt, Version m), db\<lparr>mg_catalog := c\<rparr>)"
proof -
  have "createMigrationsTable db = (True, db)"
    using assms(1,2) by (auto simp: createMigrationsTable_def mig_exec_no_fault)
  then show ?thesis using apply_migration_half [OF assms] by (simp add: RunMigrations_def)
qed

theorem migration_half_applied_witness:
  "RunMigrations demo_run (\<lambda>s. True) [demo_migration ''A;B''] demo_db = (Inl (ApplyStmt, 1), demo_db\<lparr>mg_catalog := [''A'']\<rparr>)"
  using migration_half_applied [of demo_db "demo_migration ''A;B''" "[''A'']" "''B''" "[]" demo_run "[''A'']" "\<lambda>s. True" "[]"]
  by (simp add: demo_db_def demo_migration_def demo_split demo_run_def applied_rows_def)

end
