(* ===== verification/Startup.thy ===== *)
theory Startup
  imports Server Migrations
begin

text \<open>
  \<open>cmd/server/main.go\<close> with the functions of \<open>internal/db/migrate.go\<close> that open a connection, and
  \<open>Start\<close> and \<open>Shutdown\<close> of \<open>internal/server/server.go\<close>: from the environment to a server that listens, and
  from a signal to the end of the process. The MySQL driver is a parameter. The goroutine that serves
  and the main goroutine are the two threads of a step relation.
\<close>

section \<open>Connecting\<close>

text \<open>
  The driver: \<open>mysql.ParseDSN\<close> followed by \<open>FormatDSN\<close> with \<open>ParseTime\<close>, \<open>sql.Open\<close> and \<open>Ping\<close>. A connection
  is the database it leads to.
\<close>

record 'c mysql =
  my_reformat :: "string \<Rightarrow> string + string"
  my_open :: "string \<Rightarrow> string + 'c mig_db"
  my_ping :: "'c mig_db \<Rightarrow> string option"

datatype connect_error = NormalizeDSN dsn_error | OpenDB string | PingDB string

definition Connect :: "'c mysql \<Rightarrow> string \<Rightarrow> connect_error + 'c mig_db" where
  "Connect M dsn =
     (case normalizeMySQLDSN (my_reformat M) dsn of
        Inl e \<Rightarrow> Inl (NormalizeDSN e)
      | Inr normalizedDSN \<Rightarrow>
          (case my_open M normalizedDSN of
             Inl e \<Rightarrow> Inl (OpenDB e)
           | Inr db \<Rightarrow> (case my_ping M db of Some e \<Rightarrow> Inl (PingDB e) | None \<Rightarrow> Inr db)))"

datatype migrate_error = ConnectErr connect_error | LoadErr load_error | RunErr "mig_step \<times> int"

text \<open>What the SQL server and \<open>sort.Slice\<close> do; the second component of a result is the database, if one was reached.\<close>

record 'c sql_server =
  ss_sort :: "(migration \<Rightarrow> int) \<Rightarrow> migration list \<Rightarrow> migration list"
  ss_run :: "string \<Rightarrow> 'c \<Rightarrow> 'c option"
  ss_ddl :: "string \<Rightarrow> bool"

definition with_migrations :: "'c mysql \<Rightarrow> 'c sql_server \<Rightarrow> (migration list \<Rightarrow> 'c mig_db \<Rightarrow> 'c mig_result) \<Rightarrow>
    string \<Rightarrow> fsys \<Rightarrow> (migrate_error + unit) \<times> 'c mig_db option" where
  "with_migrations M S f databaseURL mfs =
     (case Connect M databaseURL of
        Inl e \<Rightarrow> (Inl (ConnectErr e), None)
      | Inr db \<Rightarrow>
          (case LoadMigrations (ss_sort S) mfs of
             Inl e \<Rightarrow> (Inl (LoadErr e), Some db)
           | Inr migrations \<Rightarrow>
               (case f migrations db of
                  (Inl e, db') \<Rightarrow> (Inl (RunErr e), Some db')
                | (Inr _, db') \<Rightarrow> (Inr (), Some db'))))"

definition Migrate :: "'c mysql \<Rightarrow> 'c sql_server \<Rightarrow> string \<Rightarrow> fsys \<Rightarrow> (migrate_error + unit) \<times> 'c mig_db option" where
  "Migrate M S = with_migrations M S (RunMigrations (ss_run S) (ss_ddl S))"

definition Rollback :: "'c mysql \<Rightarrow> 'c sql_server \<Rightarrow> string \<Rightarrow> fsys \<Rightarrow> (migrate_error + unit) \<times> 'c mig_db option" where
  "Rollback M S = with_migrations M S (RollbackMigration (ss_sort S) (ss_run S) (ss_ddl S))"

section \<open>From the environment to a server\<close>

text \<open>
  \<open>main\<close> up to \<open>server.New\<close>: every error ends the process with status 1, and \<open>New\<close> may panic. The migrations
  make the tables; \<open>wd\<close> is the disk and the contents of the mailbox tables when \<open>New\<close> is called.
\<close>

datatype startup_error = ExitOne migrate_error | Panics storage_error

definition startup :: "'c mysql \<Rightarrow> 'c sql_server \<Rightarrow> fsys \<Rightarrow> environment \<Rightarrow> world \<Rightarrow>
    (startup_error + config \<times> app) \<times> 'c mig_db option" where
  "startup M S mfs env wd =
     (let cfg = Load env in
      case Connect M (DatabaseURL cfg) of
        Inl e \<Rightarrow> (Inl (ExitOne (ConnectErr e)), None)
      | Inr db \<Rightarrow>
          (case LoadMigrations (ss_sort S) mfs of
             Inl e \<Rightarrow> (Inl (ExitOne (LoadErr e)), Some db)
           | Inr migrations \<Rightarrow>
               (case RunMigrations (ss_run S) (ss_ddl S) migrations db of
                  (Inl e, db') \<Rightarrow> (Inl (ExitOne (RunErr e)), Some db')
                | (Inr _, db') \<Rightarrow>
                    (case New (Some cfg) wd of
                       Inl e \<Rightarrow> (Inl (Panics e), Some db')
                     | Inr ca \<Rightarrow> (Inr ca, Some db')))))"

lemma startup_Inr:
  assumes "startup M S mfs env wd = (Inr (cfg, st), mdb)"
  obtains db db' ms where "Connect M (DatabaseURL (Load env)) = Inr db" "LoadMigrations (ss_sort S) mfs = Inr ms"
    and "RunMigrations (ss_run S) (ss_ddl S) ms db = (Inr (), db')" "mdb = Some db'"
    and "New (Some (Load env)) wd = Inr (cfg, st)"
  using assms by (auto simp: startup_def Let_def split: sum.splits prod.splits)

lemma NewStorage_effect:
  assumes n: "NewStorage base fs = (r, fs')"
  shows "fs_files fs' = fs_files fs \<and> (storage_inv base fs \<longrightarrow> storage_inv base fs') \<and>
    (\<forall>b. r = Inr b \<longrightarrow> b = base \<and> is_dir (filepath_Join [base, ''raw'']) fs' \<and> is_dir (filepath_Join [base, ''attachments'']) fs')"
proof (cases "trim_space base = []")
  case True
  then show ?thesis using n by (auto simp: NewStorage_def)
next
  case False
  then have base: "base \<noteq> []" by (auto simp: trim_space_Nil)
  let ?r = "filepath_Join [base, ''raw'']" and ?a = "filepath_Join [base, ''attachments'']"
  have p: "?r = (fst (path_of base), snd (path_of base) @ [''raw''])"
    "?a = (fst (path_of base), snd (path_of base) @ [''attachments''])"
    using base by (simp_all add: filepath_Join_safe)
  obtain b1 fs1 where m1: "os_MkdirAll ?r fs = (b1, fs1)" by fastforce
  obtain b2 fs2 where m2: "os_MkdirAll ?a fs1 = (b2, fs2)" by fastforce
  have inv: "storage_inv base fs \<Longrightarrow> storage_inv base fs1" "storage_inv base fs1 \<Longrightarrow> storage_inv base fs2"
    using storage_inv_mkdir [OF _ p(1) _ m1] storage_inv_mkdir [OF _ p(2) _ m2] by simp_all
  have made: "is_dir q fs" if "os_MkdirAll q fs0 = (True, fs)" for q fs0 fs
    using that by (auto simp: os_MkdirAll_def is_dir_def dir_prefix_def split: prod.splits if_splits)
  have mono: "is_dir ?r fs1 \<Longrightarrow> is_dir ?r fs2"
    using m2 by (auto simp: os_MkdirAll_def is_dir_def next_fault_def split: prod.splits if_splits list.splits)
  show ?thesis
    using n False m1 m2 inv made [of ?r fs] made [of ?a fs1] mono os_MkdirAll_keeps [OF m1] os_MkdirAll_keeps [OF m2]
    by (cases b1; cases b2) (simp_all add: NewStorage_def, auto)
qed

lemma New_Inr:
  assumes "New c0 wd = Inr (cfg, st)"
  shows "cfg = New_config c0 \<and> ap_sessions st = NewCookieSessionStore (SessionCookieName cfg) \<and>
    ap_ingest_limit st = newRateLimiter 60 \<and> ap_login_limit st = newRateLimiter 10"
    and "\<exists>fs'. NewStorage (DataDir cfg) (wd_fs wd) = (Inr (DataDir cfg), fs') \<and> ap_world st = wd\<lparr>wd_fs := fs'\<rparr>"
proof -
  obtain r fs where n: "NewStorage (DataDir (New_config c0)) (wd_fs wd) = (r, fs)" by fastforce
  then obtain b where b: "r = Inr b" and cfg: "cfg = New_config c0"
    and st: "st = \<lparr>ap_world = wd\<lparr>wd_fs := fs\<rparr>, ap_sessions = NewCookieSessionStore (SessionCookieName cfg),
       ap_ingest_limit = newRateLimiter (rate_limit_rpm rateLimitIngest), ap_login_limit = newRateLimiter (rate_limit_rpm rateLimitLogin)\<rparr>"
    using assms by (cases r) (auto simp: New_def Let_def)
  show "cfg = New_config c0 \<and> ap_sessions st = NewCookieSessionStore (SessionCookieName cfg) \<and>
    ap_ingest_limit st = newRateLimiter 60 \<and> ap_login_limit st = newRateLimiter 10"
    using cfg st by (simp add: rate_limit_rpm_def rateLimitIngest_def rateLimitLogin_def)
  show "\<exists>fs'. NewStorage (DataDir cfg) (wd_fs wd) = (Inr (DataDir cfg), fs') \<and> ap_world st = wd\<lparr>wd_fs := fs'\<rparr>"
    using NewStorage_effect [OF n] n b cfg st by simp
qed

lemma New_config_defaults:
  "DataDir (New_config c) \<noteq> []" "SessionCookieName (New_config c) \<noteq> []" "0 < SessionTTLHours (New_config c)"
  by (auto simp: New_config_def Let_def)

lemma world_inv_files:
  assumes "fs_files fs = fs_files (wd_fs wd)" and "storage_inv base fs" and "world_inv E base wd"
  shows "world_inv E base (wd\<lparr>wd_fs := fs\<rparr>)"
proof -
  have "attachment_stored E base fs a = attachment_stored E base (wd_fs wd) a" for a
    by (rule attachment_stored_cong) (simp add: attachment_blob_def assms(1))
  then show ?thesis using assms(2,3) by (simp add: world_inv_def)
qed

lemma empty_store_no_session: "ap_sessions st = NewCookieSessionStore n \<Longrightarrow> \<not> live_session cfg now r st"
  by (simp add: live_session_def NewCookieSessionStore_def store_Get_def split: option.split)

section \<open>Signals and the end of the process\<close>

text \<open>
  After \<open>New\<close> two goroutines run: the one that serves and the main one. \<open>Start\<close> sets \<open>s.http\<close> and calls
  \<open>ListenAndServe\<close>, which returns \<open>http.ErrServerClosed\<close> when \<open>http.Server.Shutdown\<close> was or is called on it,
  and fails otherwise. \<open>Shutdown\<close> does nothing while \<open>s.http\<close> is nil.
\<close>

datatype serve_error = ErrServerClosed | ServeFailed

datatype serve_pc = NotStarted | HttpSet | Listening | Returned serve_error

datatype main_pc = InSelect | GotSignal | WaitServer | Exited nat

record process =
  pr_main :: main_pc
  pr_serve :: serve_pc
  pr_http :: bool
  pr_closed :: bool

text \<open>The status of the process when the error channel yields what \<open>Start\<close> has left in it.\<close>

definition exit_status :: "serve_error \<Rightarrow> nat" where
  "exit_status e = (case e of ErrServerClosed \<Rightarrow> 0 | ServeFailed \<Rightarrow> 1)"

text \<open>\<open>srv_Shutdown\<close> is \<open>Server.Shutdown\<close>, \<open>ok\<close> whether \<open>http.Server.Shutdown\<close> finished in its ten seconds.\<close>

definition srv_Shutdown :: "bool \<Rightarrow> process \<Rightarrow> bool \<times> process" where
  "srv_Shutdown ok p = (if \<not> pr_http p then (True, p) else (ok, p\<lparr>pr_closed := True\<rparr>))"

inductive process_step :: "process \<Rightarrow> process \<Rightarrow> bool" where
  start_sets_http: "pr_serve p = NotStarted \<Longrightarrow> process_step p (p\<lparr>pr_serve := HttpSet, pr_http := True\<rparr>)"
| start_listens: "pr_serve p = HttpSet \<Longrightarrow> \<not> pr_closed p \<Longrightarrow> process_step p (p\<lparr>pr_serve := Listening\<rparr>)"
| start_closed: "pr_serve p \<in> {HttpSet, Listening} \<Longrightarrow> pr_closed p \<Longrightarrow> process_step p (p\<lparr>pr_serve := Returned ErrServerClosed\<rparr>)"
| start_fails: "pr_serve p \<in> {HttpSet, Listening} \<Longrightarrow> process_step p (p\<lparr>pr_serve := Returned ServeFailed\<rparr>)"
| main_signal: "pr_main p = InSelect \<Longrightarrow> process_step p (p\<lparr>pr_main := GotSignal\<rparr>)"
| main_server_ended: "pr_main p = InSelect \<Longrightarrow> pr_serve p = Returned e \<Longrightarrow> process_step p (p\<lparr>pr_main := Exited (exit_status e)\<rparr>)"
| main_shutdown: "pr_main p = GotSignal \<Longrightarrow> srv_Shutdown ok p = (True, p') \<Longrightarrow> process_step p (p'\<lparr>pr_main := WaitServer\<rparr>)"
| main_shutdown_fails: "pr_main p = GotSignal \<Longrightarrow> srv_Shutdown ok p = (False, p') \<Longrightarrow> process_step p (p'\<lparr>pr_main := Exited 1\<rparr>)"
| main_drained: "pr_main p = WaitServer \<Longrightarrow> pr_serve p = Returned e \<Longrightarrow> process_step p (p\<lparr>pr_main := Exited (exit_status e)\<rparr>)"

inductive_cases process_stepE: "process_step p p'"

definition started :: process where
  "started = \<lparr>pr_main = InSelect, pr_serve = NotStarted, pr_http = False, pr_closed = False\<rparr>"

text \<open>The goroutine that serves only moves on; its states are ordered by how far it has come.\<close>

definition serve_rank :: "serve_pc \<Rightarrow> nat" where
  "serve_rank s = (case s of NotStarted \<Rightarrow> 0 | HttpSet \<Rightarrow> 1 | Listening \<Rightarrow> 2
     | Returned e \<Rightarrow> (case e of ErrServerClosed \<Rightarrow> 3 | ServeFailed \<Rightarrow> 4))"

lemma serve_rank_inj: "serve_rank s = serve_rank t \<longleftrightarrow> s = t"
  by (auto simp: serve_rank_def split: serve_pc.splits serve_error.splits)

instantiation serve_pc :: linorder
begin

definition less_eq_serve_pc :: "serve_pc \<Rightarrow> serve_pc \<Rightarrow> bool" where
  "less_eq_serve_pc s t \<longleftrightarrow> serve_rank s \<le> serve_rank t"

definition less_serve_pc :: "serve_pc \<Rightarrow> serve_pc \<Rightarrow> bool" where
  "less_serve_pc s t \<longleftrightarrow> serve_rank s < serve_rank t"

instance
  by standard (auto simp: less_eq_serve_pc_def less_serve_pc_def serve_rank_inj)

end

lemma serve_moves_on: "process_step p p' \<Longrightarrow> pr_serve p \<le> pr_serve p'"
  by (erule process_stepE) (auto simp: less_eq_serve_pc_def serve_rank_def srv_Shutdown_def split: if_splits serve_pc.splits)

lemma serve_only_moves_on: "rtranclp process_step p q \<Longrightarrow> pr_serve p \<le> pr_serve q"
  by (induction rule: rtranclp_induct) (auto dest: serve_moves_on)

text \<open>What always holds: \<open>s.http\<close> is nil exactly until \<open>Start\<close> has set it, and nothing closes a server that is not there.\<close>

definition process_inv :: "process \<Rightarrow> bool" where
  "process_inv p \<longleftrightarrow> (pr_http p \<longleftrightarrow> pr_serve p \<noteq> NotStarted) \<and> (pr_closed p \<longrightarrow> pr_http p) \<and>
     (pr_main p \<in> {InSelect, GotSignal} \<longrightarrow> \<not> pr_closed p) \<and> (pr_serve p = Returned ErrServerClosed \<longrightarrow> pr_closed p)"

lemma process_step_inv: "process_step p p' \<Longrightarrow> process_inv p \<Longrightarrow> process_inv p'"
  by (erule process_stepE) (auto simp: process_inv_def srv_Shutdown_def split: if_splits)

text \<open>Each step brings one of the two goroutines closer to its end.\<close>

definition serve_left :: "serve_pc \<Rightarrow> nat" where
  "serve_left s = (case s of NotStarted \<Rightarrow> 3 | HttpSet \<Rightarrow> 2 | Listening \<Rightarrow> 1 | Returned e \<Rightarrow> 0)"

definition main_left :: "main_pc \<Rightarrow> nat" where
  "main_left m = (case m of InSelect \<Rightarrow> 3 | GotSignal \<Rightarrow> 2 | WaitServer \<Rightarrow> 1 | Exited n \<Rightarrow> 0)"

lemma process_step_decreases:
  "process_step p p' \<Longrightarrow> serve_left (pr_serve p') + main_left (pr_main p') < serve_left (pr_serve p) + main_left (pr_main p)"
  by (erule process_stepE) (auto simp: serve_left_def main_left_def srv_Shutdown_def split: if_splits)

lemma process_progress:
  assumes "process_inv p" and "pr_main p = WaitServer" and "pr_closed p"
  shows "\<exists>p'. process_step p p'"
proof (cases "pr_serve p")
  case NotStarted
  then show ?thesis using start_sets_http by blast
next
  case (Returned e)
  then show ?thesis using main_drained assms(2) by blast
qed (use start_closed assms(3) in blast)+

text \<open>A shutdown before \<open>s.http\<close> is set closes nothing, and nothing will close the server later.\<close>

lemma missed_step:
  assumes "process_step p p'" and "\<not> pr_closed p" and "pr_main p = WaitServer" and "pr_serve p \<noteq> Returned ErrServerClosed"
  shows "\<not> pr_closed p' \<and> pr_serve p' \<noteq> Returned ErrServerClosed \<and>
    (pr_main p' = WaitServer \<or> pr_serve p' = Returned ServeFailed \<and> pr_main p' = Exited 1)"
  using assms(1)
proof (cases rule: process_step.cases)
  case (main_drained e)
  then have "e = ServeFailed" using assms(4) by (cases e) auto
  with main_drained assms show ?thesis by (simp add: exit_status_def)
qed (use assms in \<open>auto simp: srv_Shutdown_def\<close>)

lemma missed_forever:
  assumes "rtranclp process_step p q" and "\<not> pr_closed p" and "pr_main p = WaitServer" and "pr_serve p \<noteq> Returned ErrServerClosed"
  shows "\<not> pr_closed q \<and> pr_serve q \<noteq> Returned ErrServerClosed \<and>
    (pr_main q = WaitServer \<or> pr_serve q = Returned ServeFailed \<and> pr_main q = Exited 1)"
  using assms(1)
proof (induction rule: rtranclp_induct)
  case base
  then show ?case using assms by simp
next
  case (step q r)
  show ?case
  proof (cases "pr_main q = WaitServer")
    case True
    then show ?thesis using missed_step [OF step.hyps(2)] step.IH by simp
  next
    case False
    with step.hyps(2) step.IH show ?thesis by (cases rule: process_stepE) auto
  qed
qed

lemma reach_inv:
  assumes "rtranclp process_step p q" and "process_inv p"
  shows "process_inv q"
  using assms by (induction rule: rtranclp_induct) (simp_all add: process_step_inv)

lemma closing_main:
  assumes "rtranclp process_step p q" and "pr_closed p" and "pr_main p = WaitServer"
  shows "pr_closed q \<and> (pr_main q = WaitServer \<or> (\<exists>n. pr_main q = Exited n))"
  using assms(1)
proof (induction rule: rtranclp_induct)
  case base
  then show ?case using assms by simp
next
  case (step q r)
  from step.hyps(2) step.IH show ?case by (cases rule: process_stepE) auto
qed

section \<open>Properties\<close>

text \<open>
  What a server that has started has. Every migration of the embedded files is recorded, the
  two storage directories exist, the configuration has a cookie name and a positive session lifetime;
  tables and files are those from before the start, with the invariant of the mailbox if they
  had it, and no request has a session.
\<close>

theorem startup_ready:
  assumes "startup M S mfs env wd = (Inr (cfg, st), mdb)"
  shows "(\<exists>db ms. mdb = Some db \<and> LoadMigrations (ss_sort S) mfs = Inr ms \<and>
      (\<forall>m \<in> set ms. Version m \<in> fst ` set (applied_rows db))) \<and>
    is_dir (filepath_Join [DataDir cfg, ''raw'']) (wd_fs (ap_world st)) \<and>
    is_dir (filepath_Join [DataDir cfg, ''attachments'']) (wd_fs (ap_world st)) \<and>
    SessionCookieName cfg \<noteq> [] \<and> 0 < SessionTTLHours cfg \<and> same_data wd (ap_world st) \<and>
    (world_inv E (DataDir cfg) wd \<longrightarrow> world_inv E (DataDir cfg) (ap_world st)) \<and>
    (\<forall>now r. \<not> live_session cfg now r st)"
  using assms
proof (rule startup_Inr)
  fix db db' ms
  assume ms: "LoadMigrations (ss_sort S) mfs = Inr ms" and run: "RunMigrations (ss_run S) (ss_ddl S) ms db = (Inr (), db')"
    and mdb: "mdb = Some db'" and new: "New (Some (Load env)) wd = Inr (cfg, st)"
  obtain fs' where n: "NewStorage (DataDir cfg) (wd_fs wd) = (Inr (DataDir cfg), fs')" and w: "ap_world st = wd\<lparr>wd_fs := fs'\<rparr>"
    using New_Inr(2) [OF new] by blast
  note eff = NewStorage_effect [OF n]
  have "world_inv E (DataDir cfg) wd \<longrightarrow> world_inv E (DataDir cfg) (ap_world st)"
    using eff world_invD(1) world_inv_files unfolding w by blast
  then show ?thesis
    using RunMigrations_rows [OF run] ms mdb eff New_Inr(1) [OF new] New_config_defaults empty_store_no_session
    unfolding w same_data_def by auto
qed

text \<open>A directory with one migration, a server that answers, and an environment that names it.\<close>

definition demo_files :: fsys where
  "demo_files = Some [(''001_m.up.sql'', FileNode (Some ''A;C'')), (''001_m.down.sql'', FileNode (Some ''''))]"

lemma demo_entries:
  "entry_migration (''001_m.up.sql'', FileNode (Some ''A;C'')) = Some \<lparr>Version = 1, mg_Name = ''m'', UpSQL = [], DownSQL = []\<rparr>"
  "entry_migration (''001_m.down.sql'', FileNode (Some '''')) = None"
  "format_03d 1 = ''001''"
  by code_simp+

lemma demo_load: "LoadMigrations sort_key demo_files = Inr [demo_migration ''A;C'']"
proof -
  have u: "hasUpMigration [(''001_m.up.sql'', FileNode (Some ''A;C'')), (''001_m.down.sql'', FileNode (Some ''''))]" by code_simp
  show ?thesis
    by (simp add: LoadMigrations_def migrations_dir_def demo_files_def u demo_entries migration_String_def read_file_def demo_migration_def)
qed

definition demo_mysql :: "string list mysql" where
  "demo_mysql = \<lparr>my_reformat = Inr, my_open = (\<lambda>dsn. Inr demo_db), my_ping = (\<lambda>db. None)\<rparr>"

definition demo_server :: "string list sql_server" where
  "demo_server = \<lparr>ss_sort = sort_key, ss_run = demo_run, ss_ddl = (\<lambda>s. True)\<rparr>"

definition demo_env :: environment where
  "demo_env k = (if k = ''DATABASE_URL'' then ''dsn'' else [])"

lemma demo_connect: "Connect demo_mysql ''dsn'' = Inr demo_db"
proof -
  have "trim_space ''dsn'' = ''dsn''" by (simp add: ascii_eval)
  then show ?thesis by (simp add: Connect_def normalizeMySQLDSN_def demo_mysql_def)
qed

lemma demo_loaded: "DatabaseURL (Load demo_env) = ''dsn''" "New_config (Some (Load demo_env)) = Load demo_env"
  "DataDir (Load demo_env) = ''./data''"
  by (simp_all add: Load_def getEnv_def getEnvInt_def demo_env_def New_config_def)

lemma demo_new: "\<exists>st. New (Some (Load demo_env)) (new_world [] []) = Inr (Load demo_env, st)"
proof -
  have t: "trim_space ''./data'' \<noteq> []" by (simp add: ascii_eval)
  obtain fs1 where m1: "os_MkdirAll (filepath_Join [''./data'', ''raw'']) (empty_fs []) = (True, fs1)" "fs_faults fs1 = []"
    using os_MkdirAll_succeeds [of "empty_fs []" "filepath_Join [''./data'', ''raw'']"] by (auto simp: empty_fs_def)
  have "fs_files fs1 = fs_files (empty_fs [])" using os_MkdirAll_keeps [OF m1(1)] by blast
  then obtain fs2 where "os_MkdirAll (filepath_Join [''./data'', ''attachments'']) fs1 = (True, fs2)"
    using os_MkdirAll_succeeds [OF m1(2), of "filepath_Join [''./data'', ''attachments'']"] by (auto simp: empty_fs_def)
  then show ?thesis using t m1(1) by (simp add: New_def Let_def demo_loaded NewStorage_def)
qed

lemma demo_startup:
  "\<exists>st mdb. startup demo_mysql demo_server demo_files demo_env (new_world [] []) = (Inr (Load demo_env, st), mdb)"
proof -
  have "RunMigrations demo_run (\<lambda>s. True) [demo_migration ''A;C''] demo_db =
      (Inr (), demo_db\<lparr>mg_catalog := [''A'', ''C''], mg_applied := Some [(1, ''m'')]\<rparr>)"
    by (simp add: RunMigrations_def demo_table demo_applied)
  then show ?thesis
    using demo_new by (auto simp: startup_def Let_def demo_loaded demo_connect demo_server_def demo_load)
qed

theorem startup_ready_witness:
  "\<exists>st mdb. startup demo_mysql demo_server demo_files demo_env (new_world [] []) = (Inr (Load demo_env, st), mdb) \<and>
    world_inv plain_ext ''./data'' (ap_world st)"
proof -
  obtain st mdb where s: "startup demo_mysql demo_server demo_files demo_env (new_world [] []) = (Inr (Load demo_env, st), mdb)"
    using demo_startup by blast
  have "world_inv plain_ext ''./data'' (new_world [] [])" by (simp add: new_world_inv)
  then show ?thesis using s startup_ready [OF s, of plain_ext] by (simp add: demo_loaded)
qed


text \<open>A signal that arrives first: both goroutines go on as far as they can.\<close>

definition lost_signal :: "serve_pc \<Rightarrow> process" where
  "lost_signal s = \<lparr>pr_main = WaitServer, pr_serve = s, pr_http = (s \<noteq> NotStarted), pr_closed = False\<rparr>"

definition early_signal :: process where
  "early_signal = \<lparr>pr_main = GotSignal, pr_serve = NotStarted, pr_http = False, pr_closed = False\<rparr>"

lemma lost_signal_run:
  "rtranclp process_step started early_signal" "process_step early_signal (lost_signal NotStarted)"
  "rtranclp process_step (lost_signal NotStarted) (lost_signal Listening)"
proof -
  have "process_step started early_signal" using main_signal [of started] by (simp add: started_def early_signal_def)
  then show "rtranclp process_step started early_signal" by blast
  show "process_step early_signal (lost_signal NotStarted)"
    using main_shutdown [of early_signal True early_signal] by (simp add: srv_Shutdown_def lost_signal_def early_signal_def)
  have "process_step (lost_signal NotStarted) (lost_signal HttpSet)"
    using start_sets_http [of "lost_signal NotStarted"] by (simp add: lost_signal_def)
  moreover have "process_step (lost_signal HttpSet) (lost_signal Listening)"
    using start_listens [of "lost_signal HttpSet"] by (simp add: lost_signal_def)
  ultimately show "rtranclp process_step (lost_signal NotStarted) (lost_signal Listening)" by (meson rtranclp.simps)
qed


end
