(* ===== verification/Operation.thy ===== *)
theory Operation
  imports Mailbox Rate_Race Startup
begin

text \<open>
  The whole server at work: from \<open>main\<close> through any sequence of requests. What one request can do to the state is
  stated once, in the locale \<open>server_invariant\<close>, as the operations of the components that a route reaches; a
  predicate that each of them keeps is kept by \<open>serve\<close>. Mailbox, sessions and rate limiters are its interpretations.
\<close>

section \<open>Reading consumes faults and nothing else\<close>

definition reads_only :: "world \<Rightarrow> world \<Rightarrow> bool" where
  "reads_only wd wd' \<longleftrightarrow>
     (\<exists>dfs ffs. wd' = wd\<lparr>wd_db := (wd_db wd)\<lparr>db_faults := dfs\<rparr>, wd_fs := (wd_fs wd)\<lparr>fs_faults := ffs\<rparr>\<rparr> \<and>
        (no_partial (wd_fs wd) \<longrightarrow> list_all (\<lambda>f. f = FNone \<or> f = FFail) ffs))"

definition reads_db :: "('e, 'a, database) outcome \<Rightarrow> database \<Rightarrow> bool" where
  "reads_db r db \<longleftrightarrow> (\<exists>fs. snd r = db\<lparr>db_faults := fs\<rparr>)"

definition reads_fs :: "('e, 'a, filesystem) outcome \<Rightarrow> filesystem \<Rightarrow> bool" where
  "reads_fs r fs \<longleftrightarrow> snd r = fs \<or> snd r = fs\<lparr>fs_faults := tl (fs_faults fs)\<rparr>"

lemma faults_eta: "\<exists>l. (db :: database) = db\<lparr>db_faults := l\<rparr>" "\<exists>l. (fs :: filesystem) = fs\<lparr>fs_faults := l\<rparr>"
  by (rule exI [of _ "db_faults db"], simp) (rule exI [of _ "fs_faults fs"], simp)

lemma exec_reads: "(\<And>d. snd (f d) = d) \<Longrightarrow> reads_db (exec_stmt f db) db"
  unfolding reads_db_def
  by (rule exec_stmt_keeps [where P = "\<lambda>d. \<exists>fs. d = db\<lparr>db_faults := fs\<rparr>"])
    (auto intro: exI [of _ "db_faults db"])

lemma queries_read:
  "reads_db (query_row q db) db" "reads_db (query_rows q' db) db" "reads_db (list_stmt Q s g db) db"
  unfolding query_row_def query_rows_def list_stmt_def by (rule exec_reads; simp split: list.split)+

lemma select_page_reads: "reads_db (select_page E Q s q n off db) db"
  unfolding select_page_def by (simp add: queries_read exec_reads)

lemma reads_db_andthen:
  assumes "reads_db r db" and "\<And>a d. reads_db (k a d) d"
  shows "reads_db (andthen r k) db"
proof -
  obtain x fs where r: "r = (x, db\<lparr>db_faults := fs\<rparr>)" using assms(1) by (cases r) (auto simp: reads_db_def)
  show ?thesis
  proof (cases x)
    case (Inr a)
    then show ?thesis using assms(2) [of a "db\<lparr>db_faults := fs\<rparr>"] by (auto simp: r reads_db_def)
  qed (auto simp: r reads_db_def)
qed

lemma getMessage_reads: "reads_db (getMessage E i s db) db"
  unfolding getMessage_def api_recipients_def api_attachments_def
  by (intro reads_db_andthen queries_read) (simp add: reads_db_def faults_eta)

lemma storage_reads: "reads_fs (ReadRawMIME base k fs) fs" "reads_fs (ReadAttachment base i k fs) fs"
proof -
  have "fs1 = fs \<or> fs1 = fs\<lparr>fs_faults := tl (fs_faults fs)\<rparr>" if "os_ReadFile p fs = (r, fs1)" for p r fs1
    using that by (auto simp: os_ReadFile_def next_fault_def split: prod.splits if_splits list.splits)
  note read = this
  show "reads_fs (ReadRawMIME base k fs) fs"
    by (auto simp: reads_fs_def ReadRawMIME_def split: if_splits prod.splits option.splits dest!: read)
  show "reads_fs (ReadAttachment base i k fs) fs"
    by (auto simp: reads_fs_def ReadAttachment_def split: if_splits prod.splits option.splits dest!: read)
qed

lemma reads_only_refl [simp]: "reads_only wd wd"
  unfolding reads_only_def no_partial_def by (auto intro!: exI [of _ "db_faults (wd_db wd)"] exI [of _ "fs_faults (wd_fs wd)"])

lemma reads_only_db: "reads_db (r, db1) (wd_db wd) \<Longrightarrow> reads_only wd (wd\<lparr>wd_db := db1\<rparr>)"
  unfolding reads_only_def reads_db_def no_partial_def
  by (auto intro!: exI [of _ "fs_faults (wd_fs wd)"])

lemma reads_only_both:
  assumes "reads_db (r, db1) (wd_db wd)" and "reads_fs (x, fs1) (wd_fs wd)"
  shows "reads_only wd (wd\<lparr>wd_fs := fs1, wd_db := db1\<rparr>)"
proof -
  obtain ffs where "fs1 = (wd_fs wd)\<lparr>fs_faults := ffs\<rparr> \<and> (ffs = fs_faults (wd_fs wd) \<or> ffs = tl (fs_faults (wd_fs wd)))"
  proof (cases "fs1 = wd_fs wd")
    case True
    then show ?thesis by (intro that [of "fs_faults (wd_fs wd)"]) simp
  next
    case False
    then show ?thesis using assms(2) by (intro that [of "tl (fs_faults (wd_fs wd))"]) (simp add: reads_fs_def)
  qed
  then have fs1: "fs1 = (wd_fs wd)\<lparr>fs_faults := ffs\<rparr>"
    and np: "no_partial (wd_fs wd) \<longrightarrow> list_all (\<lambda>f. f = FNone \<or> f = FFail) ffs"
    by (cases "fs_faults (wd_fs wd)"; auto simp: no_partial_def)+
  obtain dfs where "db1 = (wd_db wd)\<lparr>db_faults := dfs\<rparr>" using assms(1) by (auto simp: reads_db_def)
  then show ?thesis
    unfolding reads_only_def using fs1 np by (intro exI [of _ dfs] exI [of _ ffs]) simp
qed

lemma handlers_read:
  "reads_only wd (snd (GetMessage E s r w wd))"
  "reads_only wd (snd (GetRawMIME E base s r w wd))"
  "reads_only wd (snd (GetAttachment E base s r w wd))"
  "reads_only wd (snd (ListMessages E Q s r w wd))"
proof -
  have q: "reads_db (x, db1) db" if "query_row k db = (x, db1)" for k x db db1 using queries_read(1) [of k db] that by simp
  have g: "reads_db (x, db1) db" if "getMessage E i s db = (x, db1)" for i s x db db1 using getMessage_reads [of E i s db] that by simp
  have r: "reads_fs (x, fs1) fs" if "ReadRawMIME base k fs = (x, fs1)" for k x fs fs1 using storage_reads(1) [of base k fs] that by simp
  have a: "reads_fs (x, fs1) fs" if "ReadAttachment base i k fs = (x, fs1)" for i k x fs fs1 using storage_reads(2) [of base i k fs] that by simp
  show "reads_only wd (snd (GetMessage E s r w wd))"
    by (auto simp: GetMessage_def split: option.split prod.split sum.split intro: reads_only_db dest: g)
  show "reads_only wd (snd (GetRawMIME E base s r w wd))"
    by (auto simp: GetRawMIME_def split: option.split prod.split sum.split intro: reads_only_db reads_only_both dest!: q r)
  show "reads_only wd (snd (GetAttachment E base s r w wd))"
    by (auto simp: GetAttachment_def split: option.split prod.split sum.split intro: reads_only_db reads_only_both dest!: q a)
  have l: "reads_only wd (wd\<lparr>wd_db := db1\<rparr>)" if "list_stmt Q k n (wd_db wd) = (x, db1)" for k n x db1
    using queries_read(3) [of Q k n "wd_db wd"] that by (auto intro: reads_only_db)
  have p: "reads_only wd (wd\<lparr>wd_db := db2\<rparr>)"
    if "list_stmt Q k n (wd_db wd) = (x, db1)" "select_page E Q s' k' pp off db1 = (y, db2)" for k n x db1 s' k' pp off y db2
  proof -
    have "reads_db (y, db2) (wd_db wd)"
      using queries_read(3) [of Q k n "wd_db wd"] select_page_reads [of E Q s' k' pp off db1] that
      by (auto simp: reads_db_def)
    then show ?thesis by (rule reads_only_db)
  qed
  show "reads_only wd (snd (ListMessages E Q s r w wd))"
    by (auto simp: ListMessages_def Let_def split: option.split prod.split sum.split intro: l p)
qed

lemma reads_only_keeps:
  assumes "reads_only wd wd'"
  shows "raw_inv E base (wd, pool) \<Longrightarrow> raw_inv E base (wd', pool)" and "mailbox_of base wd' = mailbox_of base wd"
proof -
  obtain dfs ffs where w: "wd' = wd\<lparr>wd_db := (wd_db wd)\<lparr>db_faults := dfs\<rparr>, wd_fs := (wd_fs wd)\<lparr>fs_faults := ffs\<rparr>\<rparr>"
    and np: "no_partial (wd_fs wd) \<longrightarrow> list_all (\<lambda>f. f = FNone \<or> f = FFail) ffs"
    using assms unfolding reads_only_def by blast
  have b: "raw_blob base k (wd_fs wd') = raw_blob base k (wd_fs wd)" for k by (simp add: w raw_blob_def)
  have a: "attachment_blob base ik (wd_fs wd') = attachment_blob base ik (wd_fs wd)" for ik by (simp add: w attachment_blob_def)
  have t: "db_tables (wd_db wd') = db_tables (wd_db wd)" by (simp add: w)
  show "mailbox_of base wd' = mailbox_of base wd"
    by (simp add: mailbox_of_def mail_view_def t a b)
  assume inv: "raw_inv E base (wd, pool)"
  then have "storage_inv base (wd_fs wd)" "mail_inv E (wd_db wd)" by (simp_all add: raw_inv_def world_inv_def)
  then have "storage_inv base (wd_fs wd')" "mail_inv E (wd_db wd')" by (simp_all add: w storage_inv_def mail_inv_def)
  moreover have "attachment_stored E base (wd_fs wd') x = attachment_stored E base (wd_fs wd) x" for x
    by (rule attachment_stored_cong) (simp add: a)
  moreover have "raw_complete E base (wd_fs wd')"
    using inv np b by (simp add: raw_inv_def raw_complete_def no_partial_def w)
  ultimately show "raw_inv E base (wd', pool)"
    using inv by (simp add: raw_inv_def world_inv_def b t)
qed

section \<open>What a request can do\<close>

definition preserves :: "('s \<Rightarrow> bool) \<Rightarrow> 's handler \<Rightarrow> bool" where
  "preserves I h \<longleftrightarrow> (\<forall>r w st. I st \<longrightarrow> I (snd (h r w st)))"

lemma preservesD: "preserves I h \<Longrightarrow> I st \<Longrightarrow> I (snd (h r w st))"
  by (simp add: preserves_def)

lemma preserves_MaxBodySize: "preserves I h \<Longrightarrow> preserves I (MaxBodySize n h)"
  by (simp add: preserves_def MaxBodySize_def)

lemma preserves_CORS: "preserves I h \<Longrightarrow> preserves I (CORS origin h)"
  by (simp add: preserves_def CORS_def Let_def)

lemma preserves_dispatch: "list_all (\<lambda>(m, p, h). preserves I h) rs \<Longrightarrow> preserves I (dispatch rt rs seen)"
  by (induction rs arbitrary: seen) (auto simp: preserves_def split: option.split)

lemma preserves_answers: "preserves I healthHandler" "preserves I (spaHandler index)"
  by (auto simp: preserves_def healthHandler_def spaHandler_def split: option.split)

lemma ServeHTTP_world:
  "snd (ServeHTTP E (ingest_deps cfg) clk r w wd) = wd \<or>
   (\<exists>raw. snd (ServeHTTP E (ingest_deps cfg) clk r w wd) = snd (ingest_raw E (DataDir cfg) clk raw w wd))"
  by (auto simp: ServeHTTP_def Let_def ingest_deps_def split: prod.split option.split)

text \<open>
  The contract between the components and the server: what each operation that a route reaches keeps. A limiter
  is written back after the handler behind it has run, so its law speaks of the state before and after that.
\<close>

locale server_invariant =
  fixes E :: ext and cfg :: config and I :: "app \<Rightarrow> bool"
  assumes ingest: "I st \<Longrightarrow> I (st\<lparr>ap_world := snd (ingest_raw E (DataDir cfg) clk raw w (ap_world st))\<rparr>)"
    and reads: "I st \<Longrightarrow> reads_only (ap_world st) wd \<Longrightarrow> I (st\<lparr>ap_world := wd\<rparr>)"
    and login: "I st \<Longrightarrow> rand_ok rnd \<Longrightarrow>
      I (st\<lparr>ap_sessions := snd (LoginHandler E store_Create (Some cfg) now rnd r w (ap_sessions st))\<rparr>)"
    and delete: "I st \<Longrightarrow> I (st\<lparr>ap_sessions := store_Delete t (ap_sessions st)\<rparr>)"
    and ingest_limit: "I st \<Longrightarrow> I st' \<Longrightarrow> I (st'\<lparr>ap_ingest_limit := snd (Allow ip now (ap_ingest_limit st))\<rparr>)"
    and login_limit: "I st \<Longrightarrow> I st' \<Longrightarrow> I (st'\<lparr>ap_login_limit := snd (Allow ip now (ap_login_limit st))\<rparr>)"
begin

lemma on_world_reads:
  assumes "\<And>r w wd. reads_only wd (snd (h r w wd))"
  shows "preserves I (on_world h)"
  using reads assms by (simp add: preserves_def on_world_def case_prod_beta)

lemma ingest_preserved: "preserves I (on_world (ServeHTTP E (ingest_deps cfg) clk))"
  unfolding preserves_def
proof (intro allI impI)
  fix r w st assume "I st"
  then show "I (snd (on_world (ServeHTTP E (ingest_deps cfg) clk) r w st))"
    using ServeHTTP_world [of E cfg clk r w "ap_world st"] ingest by (auto simp: on_world_def case_prod_beta)
qed

lemma login_preserved: "rand_ok rnd \<Longrightarrow> preserves I (on_sessions (LoginHandler E store_Create (Some cfg) now rnd))"
  using login by (simp add: preserves_def on_sessions_def case_prod_beta)

lemma logout_preserved: "preserves I (on_sessions (LogoutHandler store_Delete (Some cfg)))"
  using delete by (auto simp: preserves_def on_sessions_def LogoutHandler_def split: option.split)

lemma authed_preserved:
  assumes "\<And>s r w wd. reads_only wd (snd (h s r w wd))"
  shows "preserves I (authed cfg now h)"
  using delete preservesD [OF on_world_reads [OF assms]]
  by (auto simp: preserves_def authed_def RequireAuth_def split: option.split sum.split)

lemma limits_preserved:
  assumes "preserves I h"
  shows "preserves I (on_ingest_limit (RateLimit now h))" and "preserves I (on_login_limit (RateLimit now h))"
  unfolding preserves_def on_ingest_limit_def on_login_limit_def RateLimit_def Let_def
  using ingest_limit login_limit preservesD [OF assms] by (auto split: prod.split) (metis snd_conv)+

lemma route_preserved:
  assumes "preserves I static" and "rand_ok (en_token env)"
  shows "preserves I (route rt E Q index static cfg env)"
proof -
  have "preserves I (ingest_group rt E cfg env)"
    unfolding ingest_group_def
    by (intro limits_preserved preserves_MaxBodySize preserves_dispatch) (simp add: ingest_preserved)
  moreover have "preserves I (login_group rt E cfg env)"
    unfolding login_group_def
    by (intro limits_preserved preserves_MaxBodySize preserves_dispatch) (simp add: login_preserved assms(2))
  moreover have "preserves I (dispatch rt (routes E Q index static cfg env) False)"
    by (rule preserves_dispatch)
      (simp add: routes_def preserves_answers logout_preserved authed_preserved handlers_read assms(1))
  ultimately show ?thesis by (auto simp: preserves_def route_def)
qed

lemma serve_preserved:
  assumes "preserves I static" and "rand_ok (en_token env)" and "I (snd st)"
  shows "I (snd (snd (serve rt E Q index static cfg env r st)))"
  using preservesD [OF preserves_CORS [OF route_preserved [OF assms(1,2)]] assms(3)]
  by (simp add: serve_def RequestID_def SecurityHeaders_def RequestLogging_def Let_def case_prod_beta)

end

section \<open>Mailbox, sessions and limiters\<close>

lemma ingest_raw_mailbox:
  assumes "sha256_ok E" and "raw_inv E base (wd, Map.empty)"
  shows "raw_inv E base (snd (ingest_raw E base clk raw w wd), Map.empty) \<and>
    rtranclp (deliver E) (mailbox_of base wd) (mailbox_of base (snd (ingest_raw E base clk raw w wd)))"
proof -
  obtain res wd' where i: "ingest_raw E base clk raw w wd = (res, wd')" by fastforce
  then have "rtranclp (ingest_step E base) (wd, Map.empty) (wd', [0 \<mapsto> Finished res])"
    by (intro ingest_reach_steps ingest_raw_reach_pool)
  then have "raw_inv E base (wd', [0 \<mapsto> Finished res]) \<and> rtranclp (deliver E) (mailbox_of base wd) (mailbox_of base wd')"
    using srv.runs assms by fastforce
  then show ?thesis using i by (simp add: raw_inv_def)
qed

interpretation mbs: server_invariant E cfg "\<lambda>st. sha256_ok E \<and> raw_inv E (DataDir cfg) (ap_world st, Map.empty) \<and>
    rtranclp (deliver E) mb (mailbox_of (DataDir cfg) (ap_world st))"
  for E cfg mb
proof (standard, goal_cases)
  case (1 st clk raw w)
  then show ?case using ingest_raw_mailbox [of E "DataDir cfg" "ap_world st" clk raw w] by (auto intro: rtranclp_trans)
next
  case (2 st wd)
  then show ?case using reads_only_keeps by simp
qed simp_all

text \<open>A session of the store has its token, and its address and rights are those of a login with a key of the configuration.\<close>

definition granted_sessions :: "ext \<Rightarrow> config \<Rightarrow> cookie_session_store \<Rightarrow> bool" where
  "granted_sessions E cfg ss \<longleftrightarrow> store_inv ss \<and>
     (\<forall>t s. store_Get t ss = Inr s \<longrightarrow> (\<exists>ev. granted_by E (Some cfg) ev s))"

interpretation ses: server_invariant E cfg "\<lambda>st. granted_sessions E cfg (ap_sessions st)" for E cfg
proof (standard, goal_cases)
  case (3 st rnd now r w)
  then show ?case
    using LoginHandler_store [of "ap_sessions st" rnd E "Some cfg" now r w]
    by (simp add: granted_sessions_def) blast
next
  case (4 st t)
  then show ?case by (auto simp: granted_sessions_def css.get_delete inv_intros split: if_splits)
qed simp_all

text \<open>Whatever the clock does, a bucket holds between none and all of its tokens.\<close>

definition buckets_ok :: "int \<Rightarrow> rate_limiter \<Rightarrow> bool" where
  "buckets_ok rpm rl \<longleftrightarrow> rl_rpm rl = rpm \<and> (\<forall>ip e. rl_entries rl ip = Some e \<longrightarrow> 0 \<le> re_tokens e \<and> re_tokens e \<le> rpm)"

lemma Allow_buckets:
  assumes "buckets_ok rpm rl" and "0 < rpm" and "rpm \<le> 10000"
  shows "buckets_ok rpm (snd (Allow ip now rl))"
proof -
  define e where "e = (case rl_entries rl ip of None \<Rightarrow> \<lparr>re_tokens = rl_rpm rl, re_last = now\<rparr> | Some e \<Rightarrow> e)"
  obtain a n r e' where t: "take_token rpm now e = ((a, n, r), e')" by (metis prod_cases3 surj_pair)
  have "0 \<le> re_tokens e" "re_tokens e \<le> rpm"
    using assms by (auto simp: e_def buckets_ok_def split: option.split)
  from take_token_tokens(2,3) [OF t assms(2,3) this] have "0 \<le> re_tokens e'" "re_tokens e' \<le> rpm"
    by (auto split: if_splits)
  then show ?thesis
    using assms(1) t unfolding Allow_take e_def [symmetric] Let_def by (auto simp: buckets_ok_def)
qed

interpretation lim: server_invariant E cfg "\<lambda>st. buckets_ok 60 (ap_ingest_limit st) \<and> buckets_ok 10 (ap_login_limit st)" for E cfg
  by standard (simp_all add: Allow_buckets)

section \<open>From the start through every request\<close>

text \<open>The requests of one run of the server, one after the other, each with the clock and random bytes it meets.\<close>

fun serve_all :: "router \<Rightarrow> ext \<Rightarrow> engine \<Rightarrow> string option \<Rightarrow> app handler \<Rightarrow> config \<Rightarrow>
    (request_env \<times> request) list \<Rightarrow> log_entry list \<times> app \<Rightarrow> log_entry list \<times> app" where
  "serve_all rt E Q index static cfg [] st = st"
| "serve_all rt E Q index static cfg ((env, r) # rs) st =
     serve_all rt E Q index static cfg rs (snd (serve rt E Q index static cfg env r st))"

lemma serve_all_preserves:
  assumes "server_invariant E cfg I" and "preserves I static" and "\<forall>(env, r) \<in> set rs. rand_ok (en_token env)" and "I (snd st)"
  shows "I (snd (serve_all rt E Q index static cfg rs st))"
  using assms(3,4)
proof (induction rs arbitrary: st)
  case (Cons x rs)
  obtain env r where x: "x = (env, r)" by fastforce
  have "I (snd (snd (serve rt E Q index static cfg env r st)))"
    using server_invariant.serve_preserved [OF assms(1,2)] Cons.prems x by simp
  then show ?case using Cons x by simp
qed simp

lemma serve_log:
  "map (\<lambda>l. (lg_method l, lg_path l)) (fst (snd (serve rt E Q index static cfg env r st))) =
   map (\<lambda>l. (lg_method l, lg_path l)) (fst st) @ [(rq_method r, rq_path r)]"
  by (simp add: serve_def RequestID_def SecurityHeaders_def RequestLogging_def Let_def case_prod_beta)

lemma serve_all_log:
  "map (\<lambda>l. (lg_method l, lg_path l)) (fst (serve_all rt E Q index static cfg rs st)) =
   map (\<lambda>l. (lg_method l, lg_path l)) (fst st) @ map (\<lambda>(env, r). (rq_method r, rq_path r)) rs"
proof (induction rs arbitrary: st)
  case (Cons x rs)
  then show ?case by (cases x) (simp add: serve_log del: split_paired_All)
qed simp

lemma NewStorage_no_partial:
  assumes "no_partial fs" and "NewStorage base fs = (r, fs')"
  shows "no_partial fs'"
proof -
  obtain b1 fs1 where m1: "os_MkdirAll (filepath_Join [base, ''raw'']) fs = (b1, fs1)" by fastforce
  obtain b2 fs2 where m2: "os_MkdirAll (filepath_Join [base, ''attachments'']) fs1 = (b2, fs2)" by fastforce
  note n1 = no_partial_tl [OF assms(1) os_faults(2) [OF m1]]
  note n2 = no_partial_tl [OF n1 os_faults(2) [OF m2]]
  show ?thesis using assms m1 m2 n1 n2 by (cases b1; cases b2) (auto simp: NewStorage_def split: if_splits)
qed

lemma startup_mailbox:
  assumes "startup M S mfs env wd = (Inr (cfg, st), mdb)" and "raw_inv E (DataDir cfg) (wd, Map.empty)"
  shows "raw_inv E (DataDir cfg) (ap_world st, Map.empty) \<and> mailbox_of (DataDir cfg) (ap_world st) = mailbox_of (DataDir cfg) wd"
    and "ap_sessions st = NewCookieSessionStore (SessionCookieName cfg)"
    and "ap_ingest_limit st = newRateLimiter 60" and "ap_login_limit st = newRateLimiter 10"
proof -
  have new: "New (Some (Load env)) wd = Inr (cfg, st)" by (rule startup_Inr [OF assms(1)])
  note new1 = New_Inr(1) [OF new]
  then show "ap_sessions st = NewCookieSessionStore (SessionCookieName cfg)"
    "ap_ingest_limit st = newRateLimiter 60" "ap_login_limit st = newRateLimiter 10" by simp_all
  obtain fs' where n: "NewStorage (DataDir cfg) (wd_fs wd) = (Inr (DataDir cfg), fs')" and w: "ap_world st = wd\<lparr>wd_fs := fs'\<rparr>"
    using New_Inr(2) [OF new] by blast
  note eff = NewStorage_effect [OF n]
  have inv: "world_inv E (DataDir cfg) wd" "no_partial (wd_fs wd)" using assms(2) by (simp_all add: raw_inv_def raw_complete_def)
  have "world_inv E (DataDir cfg) (ap_world st)"
    using eff world_invD(1) [OF inv(1)] world_inv_files inv(1) unfolding w by blast
  moreover have "no_partial fs'" using inv(2) n by (rule NewStorage_no_partial)
  ultimately show "raw_inv E (DataDir cfg) (ap_world st, Map.empty) \<and> mailbox_of (DataDir cfg) (ap_world st) = mailbox_of (DataDir cfg) wd"
    using assms(2) eff
    by (simp add: raw_inv_def raw_complete_def w raw_blob_def mailbox_of_def mail_view_def attachment_blob_def)
qed

text \<open>
  Property C5: the whole server at work. A server starts over the tables and files of an earlier run and answers
  any requests. Then the mailbox is the one from before the start with deliveries after it, every one
  of its mails has its bytes on disk; each session in the store has the address and the rights of a login with a
  key of the configuration; no bucket of the two limiters is overdrawn or overfull, whatever the clock does; and
  the log has one line for each request, in their order. The disk may fail but not cut off a write, the random source gives
  what it is asked for, and the static file server touches nothing.
\<close>

theorem running_server:
  assumes "startup M S mfs env wd = (Inr (cfg, st), mdb)" and "sha256_ok E" and "raw_inv E (DataDir cfg) (wd, Map.empty)"
    and "\<forall>(en, r) \<in> set rs. rand_ok (en_token en)" and "\<forall>r w st. snd (static r w st) = st"
    and "serve_all rt E Q index static cfg rs ([], st) = (lg, st')"
  shows "raw_inv E (DataDir cfg) (ap_world st', Map.empty) \<and>
    rtranclp (deliver E) (mailbox_of (DataDir cfg) wd) (mailbox_of (DataDir cfg) (ap_world st')) \<and>
    granted_sessions E cfg (ap_sessions st') \<and>
    buckets_ok 60 (ap_ingest_limit st') \<and> buckets_ok 10 (ap_login_limit st') \<and>
    map (\<lambda>l. (lg_method l, lg_path l)) lg = map (\<lambda>(en, r). (rq_method r, rq_path r)) rs"
proof -
  note start = startup_mailbox [OF assms(1,3)]
  have p: "preserves I static" for I using assms(5) by (simp add: preserves_def)
  have "I st'" if "server_invariant E cfg I" "I st" for I
    using serve_all_preserves [OF that(1) p assms(4), of "([], st)" rt Q index] that(2) assms(6) by simp
  note keep = this
  have "granted_sessions E cfg (ap_sessions st)"
    by (simp add: start(2) granted_sessions_def NewCookieSessionStore_inv)
      (simp add: NewCookieSessionStore_def store_Get_def)
  then have "granted_sessions E cfg (ap_sessions st')" by (rule keep [OF ses.server_invariant_axioms])
  moreover have "buckets_ok 60 (ap_ingest_limit st') \<and> buckets_ok 10 (ap_login_limit st')"
    by (rule keep [OF lim.server_invariant_axioms]) (simp add: start(3,4) buckets_ok_def newRateLimiter_def)
  moreover have "sha256_ok E \<and> raw_inv E (DataDir cfg) (ap_world st', Map.empty) \<and>
      rtranclp (deliver E) (mailbox_of (DataDir cfg) wd) (mailbox_of (DataDir cfg) (ap_world st'))"
    by (rule keep [OF mbs.server_invariant_axioms]) (use start(1) assms(2) in simp)
  moreover have "map (\<lambda>l. (lg_method l, lg_path l)) lg = map (\<lambda>(en, r). (rq_method r, rq_path r)) rs"
    using serve_all_log [of rt E Q index static cfg rs "([], st)"] assms(6) by simp
  ultimately show ?thesis by blast
qed

definition demo_requests :: "string \<Rightarrow> (request_env \<times> request) list" where
  "demo_requests raw =
     [(demo_moment, (delivery ''worker-key'' raw)\<lparr>rq_path := ''/api/ingest/''\<rparr>),
      (demo_moment, (demo_login ''admin-key'')\<lparr>rq_path := ''/api/login/''\<rparr>)]"

theorem running_server_witness:
  "\<exists>st mdb. startup demo_mysql demo_server demo_files demo_env (new_world [] []) = (Inr (Load demo_env, st), mdb) \<and>
    (\<forall>raw lg st'. serve_all exact_router plain_ext plain_engine None (\<lambda>r w st. (http_not_found w, st)) (Load demo_env)
        (demo_requests raw) ([], st) = (lg, st') \<longrightarrow>
      raw_inv plain_ext ''./data'' (ap_world st', Map.empty) \<and> map lg_path lg = [''/api/ingest/'', ''/api/login/''])"
proof -
  obtain st mdb where s: "startup demo_mysql demo_server demo_files demo_env (new_world [] []) = (Inr (Load demo_env, st), mdb)"
    using demo_startup by blast
  have inv: "raw_inv plain_ext (DataDir (Load demo_env)) (new_world [] [], Map.empty)"
    by (rule new_world_raw_inv) (simp_all add: demo_loaded no_faults_no_partial)
  have rnd: "\<forall>(en, r) \<in> set (demo_requests raw). rand_ok (en_token en)" for raw
    by (simp add: demo_requests_def demo_moment_def rand_ok_def demo_random_def)
  have still: "\<forall>r w st. snd ((\<lambda>r w st. (http_not_found w, st)) r w st) = st" by simp
  have "raw_inv plain_ext ''./data'' (ap_world st', Map.empty) \<and> map lg_path lg = [''/api/ingest/'', ''/api/login/'']"
    if r: "serve_all exact_router plain_ext plain_engine None (\<lambda>r w st. (http_not_found w, st)) (Load demo_env)
        (demo_requests raw) ([], st) = (lg, st')" for raw lg st'
  proof -
    note w = running_server [OF s plain_ext_ok(1) inv rnd still r, unfolded demo_loaded]
    then have "map snd (map (\<lambda>l. (lg_method l, lg_path l)) lg) = map snd (map (\<lambda>(en, r). (rq_method r, rq_path r)) (demo_requests raw))"
      by simp
    then have "map lg_path lg = [''/api/ingest/'', ''/api/login/'']" by (simp add: demo_requests_def comp_def)
    with w show ?thesis by blast
  qed
  then show ?thesis using s by blast
qed

end
