(* ===== verification/Session_Race.thy ===== *)
theory Session_Race
  imports Server
begin

text \<open>
  The session store among goroutines. \<open>RequireAuth\<close> takes three steps: it gets a copy of the session under the
  mutex, reads the clock, and deletes a session whose time is over; logins, logouts and other requests run in between.
  What holds for requests that come one after the other (theory \<open>Auth\<close>) is shown here for all interleavings.
\<close>

section \<open>The steps of a protected request\<close>

text \<open>\<open>Looked\<close> holds the copy of the session, \<open>Lapsed\<close> is about to delete it; \<open>Refused\<close> says whether the cookie is dropped.\<close>

datatype guard_call =
    Arrived request
  | Looked request session
  | Lapsed request session
  | Refused request bool
  | Inside request session

definition guard_phase :: "(string \<Rightarrow> 's \<Rightarrow> session_error + session) \<Rightarrow> (string \<Rightarrow> 's \<Rightarrow> 's) \<Rightarrow> config option \<Rightarrow> int \<Rightarrow>
    guard_call \<Rightarrow> 's \<Rightarrow> guard_call \<times> 's" where
  "guard_phase get delete cfg now c st =
     (case c of
        Arrived r \<Rightarrow>
          (case find_cookie (sessionCookieName cfg) (rq_cookies r) of
             None \<Rightarrow> (Refused r False, st)
           | Some v \<Rightarrow> (case get v st of Inl e \<Rightarrow> (Refused r False, st) | Inr s \<Rightarrow> (Looked r s, st)))
      | Looked r s \<Rightarrow> (if now > s_expires s then (Lapsed r s, st) else (Inside r s, st))
      | Lapsed r s \<Rightarrow> (Refused r True, delete (s_token s) st)
      | Refused r told \<Rightarrow> (c, st)
      | Inside r s \<Rightarrow> (c, st))"

text \<open>The steps in a row are \<open>RequireAuth\<close>.\<close>

definition guard_run :: "(string \<Rightarrow> 's \<Rightarrow> session_error + session) \<Rightarrow> (string \<Rightarrow> 's \<Rightarrow> 's) \<Rightarrow> config option \<Rightarrow> int \<Rightarrow>
    request \<Rightarrow> 's \<Rightarrow> guard_call \<times> 's" where
  "guard_run get delete cfg now r st =
     (case guard_phase get delete cfg now (Arrived r) st of (c1, st1) \<Rightarrow>
      case guard_phase get delete cfg now c1 st1 of (c2, st2) \<Rightarrow> guard_phase get delete cfg now c2 st2)"

lemma RequireAuth_guard:
  "RequireAuth get delete cfg now next r w st =
     (case guard_run get delete cfg now r st of
        (Inside r' s, st') \<Rightarrow> next (Some s) r w st'
      | (Refused r' told, st') \<Rightarrow>
          (auth_required (if told then add_cookie (ExpiredSessionCookie cfg) w else w), st')
      | (_, st') \<Rightarrow> (auth_required w, st'))"
  by (simp add: RequireAuth_def guard_run_def guard_phase_def split: option.split sum.split)

section \<open>Interleavings\<close>

text \<open>A login marks its step with the random bytes it has drawn.\<close>

datatype auth_mark = Silent | Draws random

type_synonym 's auth_system = "'s \<times> (nat \<rightharpoonup> guard_call)"

inductive auth_race :: "(random \<Rightarrow> session \<Rightarrow> 's \<Rightarrow> (session_error, session, 's) outcome) \<Rightarrow>
    (string \<Rightarrow> 's \<Rightarrow> session_error + session) \<Rightarrow> (string \<Rightarrow> 's \<Rightarrow> 's) \<Rightarrow> ext \<Rightarrow> config option \<Rightarrow>
    's auth_system \<Rightarrow> auth_mark \<Rightarrow> 's auth_system \<Rightarrow> bool" for create get delete E cfg where
  arrive: "pool i = None \<Longrightarrow> auth_race create get delete E cfg (st, pool) Silent (st, pool(i \<mapsto> Arrived r))"
| guard: "pool i = Some c \<Longrightarrow> guard_phase get delete cfg now c st = (c', st') \<Longrightarrow>
     auth_race create get delete E cfg (st, pool) Silent (st', pool(i \<mapsto> c'))"
| login: "rand_ok rnd \<Longrightarrow>
     auth_race create get delete E cfg (st, pool) (Draws rnd) (snd (LoginHandler E create cfg now rnd r w st), pool)"
| logout: "auth_race create get delete E cfg (st, pool) Silent (snd (LogoutHandler delete cfg r w st), pool)"

inductive_cases auth_raceE: "auth_race create get delete E cfg s m s'"

inductive auth_runs :: "(random \<Rightarrow> session \<Rightarrow> 's \<Rightarrow> (session_error, session, 's) outcome) \<Rightarrow>
    (string \<Rightarrow> 's \<Rightarrow> session_error + session) \<Rightarrow> (string \<Rightarrow> 's \<Rightarrow> 's) \<Rightarrow> ext \<Rightarrow> config option \<Rightarrow>
    's auth_system \<Rightarrow> auth_mark list \<Rightarrow> 's auth_system \<Rightarrow> bool" for create get delete E cfg where
  no_step: "auth_runs create get delete E cfg s [] s"
| more: "auth_runs create get delete E cfg s ms s' \<Longrightarrow> auth_race create get delete E cfg s' m s'' \<Longrightarrow>
     auth_runs create get delete E cfg s (ms @ [m]) s''"

definition draws_token :: "string \<Rightarrow> auth_mark \<Rightarrow> bool" where
  "draws_token v m \<longleftrightarrow> (case m of Silent \<Rightarrow> False | Draws rnd \<Rightarrow> GenerateToken rnd = Inr v)"

section \<open>What a deleted token opens\<close>

text \<open>A store that gives a session without a token the token that was drawn for it.\<close>

locale drawing_store = session_store +
  assumes create_draws: "create rnd s st = (Inr s', st') \<Longrightarrow> s_token s = [] \<Longrightarrow> GenerateToken rnd = Inr (s_token s')"

interpretation cds: drawing_store store_Create store_Get store_Delete store_inv
  by standard (auto simp: store_Create_def split: sum.splits)

interpretation ads: drawing_store app_create app_get app_delete "\<lambda>st. store_inv (ap_sessions st)"
  by standard (auto simp: app_create_def dest: cds.create_draws split: prod.splits)

definition carried :: "guard_call \<Rightarrow> (request \<times> session) option" where
  "carried c = (case c of Looked r s \<Rightarrow> Some (r, s) | Lapsed r s \<Rightarrow> Some (r, s) | Inside r s \<Rightarrow> Some (r, s) | _ \<Rightarrow> None)"

text \<open>The token is not in the store, and no call among the \<open>late\<close> ones carries its session; each carries the one of its cookie.\<close>

definition revoked :: "(string \<Rightarrow> 's \<Rightarrow> session_error + session) \<Rightarrow> config option \<Rightarrow> string \<Rightarrow> (nat \<Rightarrow> bool) \<Rightarrow> 's auth_system \<Rightarrow> bool" where
  "revoked get cfg v late s \<longleftrightarrow> get v (fst s) = Inl ErrSessionNotFound \<and>
     (\<forall>i c r x. late i \<longrightarrow> snd s i = Some c \<longrightarrow> carried c = Some (r, x) \<longrightarrow>
        s_token x \<noteq> v \<and> find_cookie (sessionCookieName cfg) (rq_cookies r) = Some (s_token x))"

lemma login_session_token: "login_session ul cfg psk email = Some s \<Longrightarrow> s_token s = []"
  by (auto simp: login_session_iff)

context drawing_store
begin

lemma login_store:
  assumes "invar st" and "rand_ok rnd"
  shows "invar (snd (LoginHandler E create cfg now rnd r w st)) \<and>
    (GenerateToken rnd \<noteq> Inr v \<longrightarrow> get v (snd (LoginHandler E create cfg now rnd r w st)) = get v st)"
proof -
  have "invar st' \<and> (GenerateToken rnd \<noteq> Inr v \<longrightarrow> get v st' = get v st)"
    if c: "create rnd s st = (x, st')" and s: "s_token s = []" for s x st'
  proof (cases x)
    case (Inl e)
    then show ?thesis using create_err c assms(1) by blast
  next
    case (Inr s')
    then show ?thesis using create_ok [OF assms] create_draws [OF _ s] c by auto
  qed
  then show ?thesis
    using assms(1) login_session_token
    by (auto simp: LoginHandler_def Let_def split: option.split prod.split sum.split)
qed

lemma logout_store:
  assumes "invar st"
  shows "invar (snd (LogoutHandler delete cfg r w st))"
    and "get v st = Inl ErrSessionNotFound \<Longrightarrow> get v (snd (LogoutHandler delete cfg r w st)) = Inl ErrSessionNotFound"
  using assms by (auto simp: LogoutHandler_def get_delete delete_invar split: option.split)

lemma guard_phase_revoked:
  assumes g: "guard_phase get delete cfg now c st = (c', st')" and inv: "invar st" and v: "get v st = Inl ErrSessionNotFound"
    and c: "\<And>r x. carried c = Some (r, x) \<Longrightarrow> s_token x \<noteq> v \<and> find_cookie (sessionCookieName cfg) (rq_cookies r) = Some (s_token x)"
  shows "carried c' = Some (r, x) \<Longrightarrow> s_token x \<noteq> v \<and> find_cookie (sessionCookieName cfg) (rq_cookies r) = Some (s_token x)"
  using g c get_token [OF inv] v
  by (cases c) (fastforce simp: guard_phase_def carried_def split: option.splits sum.splits if_splits)+

lemma guard_phase_store:
  assumes "guard_phase get delete cfg now c st = (c', st')" and "invar st"
  shows "invar st'" and "get v st = Inl ErrSessionNotFound \<Longrightarrow> get v st' = Inl ErrSessionNotFound"
  using assms by (auto simp: guard_phase_def get_delete delete_invar split: guard_call.splits option.splits sum.splits if_splits)

lemma race_revoked:
  assumes "auth_race create get delete E cfg s m s'" and "invar (fst s)" and "revoked get cfg v late s" and "\<not> draws_token v m"
  shows "invar (fst s') \<and> revoked get cfg v late s'"
  using assms(1)
proof (cases rule: auth_race.cases)
  case (arrive pool i st r)
  then show ?thesis using assms(2,3) by (auto simp: revoked_def carried_def)
next
  case (guard pool i c now st c' st')
  have inv: "invar st" and v: "get v st = Inl ErrSessionNotFound" using guard assms(2,3) by (simp_all add: revoked_def)
  note st = guard_phase_store [OF guard(5) inv]
  have "s_token x \<noteq> v \<and> find_cookie (sessionCookieName cfg) (rq_cookies r) = Some (s_token x)"
    if "late i" "carried c' = Some (r, x)" for r x
    by (rule guard_phase_revoked [OF guard(5) inv v _ that(2)]) (use that(1) guard assms(3) in \<open>auto simp: revoked_def\<close>)
  then show ?thesis using guard assms(3) st v by (auto simp: revoked_def)
next
  case (login rnd st pool now r w)
  then show ?thesis using login_store [of st rnd] assms(2-4) by (auto simp: revoked_def draws_token_def)
next
  case (logout st pool r w)
  then show ?thesis using logout_store [of st] assms(2,3) by (auto simp: revoked_def)
qed

lemma runs_revoked:
  assumes "auth_runs create get delete E cfg s ms s'" and "invar (fst s)" and "revoked get cfg v late s" and "list_all (\<lambda>m. \<not> draws_token v m) ms"
  shows "invar (fst s') \<and> revoked get cfg v late s'"
  using assms
proof (induction rule: auth_runs.induct)
  case (more s ms s' m s'')
  then have "invar (fst s')" "revoked get cfg v late s'" "\<not> draws_token v m" by simp_all
  then show ?case by (rule race_revoked [OF more.hyps(2)])
qed simp

lemma revoked_for_good:
  assumes inv: "invar st" and r: "rq_method r = ''POST''" "find_cookie (sessionCookieName cfg) (rq_cookies r) = Some v"
    and run: "auth_runs create get delete E cfg (snd (LogoutHandler delete cfg r w st), pool) ms (st', pool')"
    and ms: "list_all (\<lambda>m. \<not> draws_token v m) ms" and i: "pool i = None"
  shows "get v st' = Inl ErrSessionNotFound \<and>
    (\<forall>r' s. pool' i = Some (Inside r' s) \<longrightarrow> s_token s \<noteq> v \<and> find_cookie (sessionCookieName cfg) (rq_cookies r') \<noteq> Some v)"
proof -
  let ?st = "snd (LogoutHandler delete cfg r w st)"
  have "get v ?st = Inl ErrSessionNotFound" using inv r by (simp add: LogoutHandler_def get_delete)
  then have "revoked get cfg v (\<lambda>j. j = i) (?st, pool)" using i by (simp add: revoked_def)
  with runs_revoked [OF run] logout_store(1) [OF inv] ms have "revoked get cfg v (\<lambda>j. j = i) (st', pool')" by simp
  then show ?thesis by (auto simp: revoked_def carried_def)
qed

end

text \<open>Among other goroutines: a call that has looked its session up before the logout still gets in with it.\<close>

lemma looked_goes_in:
  assumes "now \<le> s_expires x" and "pool i = Some (Looked r' x)"
  shows "auth_runs create get delete E cfg (snd (LogoutHandler delete cfg r w st), pool) [Silent]
    (snd (LogoutHandler delete cfg r w st), pool(i \<mapsto> Inside r' x))"
proof -
  let ?st = "snd (LogoutHandler delete cfg r w st)"
  have "guard_phase get delete cfg now (Looked r' x) ?st = (Inside r' x, ?st)" using assms(1) by (simp add: guard_phase_def)
  then show ?thesis
    using auth_runs.more [OF auth_runs.no_step, OF auth_race.guard [of pool i "Looked r' x" get delete cfg now ?st "Inside r' x" ?st create E]]
      assms(2) by simp
qed

section \<open>Properties\<close>

text \<open>
  Property C22: logging out ends the session for good. After a logout with a cookie, however requests, logins
  and other logouts interleave from then on, step by step, the token stays out of the store, and no request that arrives
  after the logout gets in with its cookie or its session. The random source must not draw the same token again. A
  request that had looked the session up before the logout still gets in (\<open>looked_goes_in\<close>).
\<close>

theorem logout_revokes_for_good:
  assumes "store_inv st" and "rq_method r = ''POST''" and "find_cookie (sessionCookieName cfg) (rq_cookies r) = Some v"
    and "auth_runs store_Create store_Get store_Delete E cfg (snd (LogoutHandler store_Delete cfg r w st), pool) ms (st', pool')"
    and "list_all (\<lambda>m. \<not> draws_token v m) ms" and "pool i = None"
  shows "store_Get v st' = Inl ErrSessionNotFound \<and>
    (\<forall>r' s. pool' i = Some (Inside r' s) \<longrightarrow> s_token s \<noteq> v \<and> find_cookie (sessionCookieName cfg) (rq_cookies r') \<noteq> Some v)"
  by (rule cds.revoked_for_good [OF assms])

text \<open>After the logout of Alice a login draws another token, and a request with her cookie arrives and looks her up.\<close>

lemma demo_race:
  assumes st: "st = snd (LogoutHandler store_Delete None ((demo_cookie ''t0'')\<lparr>rq_method := ''POST''\<rparr>) fresh_writer demo_store)"
    and st': "st' = snd (LoginHandler plain_ext store_Create None 0 demo_random (demo_login ''user-key'') fresh_writer st)"
  shows "\<exists>c. auth_runs store_Create store_Get store_Delete plain_ext None (st, Map.empty) [Draws demo_random, Silent, Silent]
      (st', [0 \<mapsto> c])"
proof -
  let ?R = "auth_race store_Create store_Get store_Delete plain_ext None" and ?r = "demo_cookie ''t0''"
  have "snd (guard_phase store_Get store_Delete None 0 (Arrived ?r) st') = st'"
    by (simp add: guard_phase_def split: option.split sum.split)
  then obtain c where g: "guard_phase store_Get store_Delete None 0 (Arrived ?r) st' = (c, st')" by (metis prod.collapse)
  have "?R (st, Map.empty) (Draws demo_random) (st', Map.empty)" unfolding st' by (rule auth_race.login) simp
  moreover have "?R (st', Map.empty) Silent (st', [0 \<mapsto> Arrived ?r])" by (rule auth_race.arrive) simp
  moreover have "?R (st', [0 \<mapsto> Arrived ?r]) Silent (st', [0 \<mapsto> c])"
    using auth_race.guard [of "[0 \<mapsto> Arrived ?r]" 0, OF _ g] by simp
  ultimately have "auth_runs store_Create store_Get store_Delete plain_ext None (st, Map.empty) ((([] @ [Draws demo_random]) @ [Silent]) @ [Silent])
      (st', [0 \<mapsto> c])"
    by (blast intro: auth_runs.intros)
  then show ?thesis by auto
qed

lemma demo_draw: "\<not> draws_token ''t0'' (Draws demo_random)"
proof
  assume "draws_token ''t0'' (Draws demo_random)"
  then have "length ''t0'' = length (hex_encode (replicate 32 (CHR ''A'')))"
    by (simp add: draws_token_def GenerateToken_def demo_random_def)
  then show False by simp
qed

theorem logout_revokes_for_good_witness:
  "store_Get ''t0'' (snd (LoginHandler plain_ext store_Create None 0 demo_random (demo_login ''user-key'') fresh_writer
     (snd (LogoutHandler store_Delete None ((demo_cookie ''t0'')\<lparr>rq_method := ''POST''\<rparr>) fresh_writer demo_store)))) =
   Inl ErrSessionNotFound"
proof -
  let ?r = "(demo_cookie ''t0'')\<lparr>rq_method := ''POST''\<rparr>"
  obtain c where run: "auth_runs store_Create store_Get store_Delete plain_ext None
      (snd (LogoutHandler store_Delete None ?r fresh_writer demo_store), Map.empty) [Draws demo_random, Silent, Silent]
      (snd (LoginHandler plain_ext store_Create None 0 demo_random (demo_login ''user-key'') fresh_writer
        (snd (LogoutHandler store_Delete None ?r fresh_writer demo_store))), [0 \<mapsto> c])"
    using demo_race [OF refl refl] by blast
  have q: "rq_method ?r = ''POST''" "find_cookie (sessionCookieName None) (rq_cookies ?r) = Some ''t0''"
    by (simp_all add: demo_cookie_def sessionCookieName_def)
  have ms: "list_all (\<lambda>m. \<not> draws_token ''t0'' m) [Draws demo_random, Silent, Silent]"
    using demo_draw by (simp add: draws_token_def)
  show ?thesis using logout_revokes_for_good [OF demo_store_inv q run ms, of 0] by simp
qed

end
