(* ===== verification/Rollback.thy ===== *)
theory Rollback
  imports Migrations
begin

text \<open>
  What \<open>RollbackMigration\<close> of \<open>internal/db/migrate.go\<close> takes back on a server that works: the last migration that is
  recorded, whatever the order in which the caller lists the migrations, and with it what its up script did when its
  down script undoes that. The definitions are those of \<open>Migrations\<close>.
\<close>

section \<open>A connection without faults stays one\<close>

lemma tx_exec_all_no_fault:
  "mg_faults db = [] \<Longrightarrow> mg_faults (snd (snd (tx_exec_all run ddl stmts saved db))) = []"
proof (induction run ddl stmts saved db rule: tx_exec_all.induct)
  case (2 run ddl stmt stmts saved db)
  then show ?case by (cases "run stmt (mg_catalog db)") (simp_all add: mig_exec_no_fault Let_def next_mig_fault_def)
qed simp

lemma mig_tx_no_fault:
  assumes "mg_faults db = []" and "\<And>d d'. rec d = Some d' \<Longrightarrow> mg_faults d' = mg_faults d"
  shows "mg_faults (snd (mig_tx run ddl v stmts st rec db)) = []"
proof -
  let ?s = "Some (mg_catalog db, mg_applied db)"
  obtain ok sv db2 where x: "tx_exec_all run ddl stmts ?s db = (ok, sv, db2)" by (metis prod_cases3)
  have f2: "mg_faults db2 = []" using tx_exec_all_no_fault [OF assms(1), of run ddl stmts ?s] x by simp
  have rb: "mg_faults d = [] \<Longrightarrow> mg_faults (mig_rollback sv d) = []" for d :: "'a mig_db"
    by (auto simp: mig_rollback_def split: option.splits)
  show ?thesis
    using assms f2 x rb by (cases ok; cases "rec db2") (auto simp: mig_tx_def mig_exec_no_fault mig_commit_def next_mig_fault_def)
qed

lemma apply_migration_no_fault:
  assumes "mg_faults db = []"
  shows "mg_faults (snd (apply_migration run ddl m db)) = []"
proof -
  obtain x db1 where i: "isMigrationApplied (Version m) db = (x, db1)" by fastforce
  have "mg_faults db1 = []"
    using i assms by (auto simp: isMigrationApplied_def mig_exec_no_fault split: option.splits)
  then show ?thesis
    using i by (cases x; cases "the x")
      (auto simp: apply_migration_def record_row_def intro!: mig_tx_no_fault split: if_splits)
qed

lemma RunMigrations_no_fault:
  assumes "mg_faults db = []"
  shows "mg_faults (snd (RunMigrations run ddl ms db)) = []"
proof -
  have "mg_faults (snd (foreach (apply_migration run ddl) ms d)) = []" if "mg_faults d = []" for d
    by (rule foreach_keeps [where P = "\<lambda>d. mg_faults d = []"]) (use that apply_migration_no_fault in auto)
  then show ?thesis using assms by (simp add: RunMigrations_def createMigrationsTable_def mig_exec_no_fault)
qed

section \<open>One migration up\<close>

lemma foreach_append:
  "foreach f (xs @ ys) s = andthen (foreach f xs s) (\<lambda>_. foreach f ys)"
proof (induction xs arbitrary: s)
  case (Cons x xs)
  then show ?case by (cases "f x s"; cases "fst (f x s)") simp_all
qed (simp add: andthen_def)

lemma RunMigrations_snoc:
  assumes "RunMigrations run ddl (ms @ [m]) db = (Inr (), db1)"
  obtains db0 where "RunMigrations run ddl ms db = (Inr (), db0)" and "apply_migration run ddl m db0 = (Inr (), db1)"
proof -
  obtain ok dbt where c: "createMigrationsTable db = (ok, dbt)" by fastforce
  obtain r db0 where f: "foreach (apply_migration run ddl) ms dbt = (r, db0)" by fastforce
  show ?thesis
    using assms c f that by (cases ok; cases r; cases "apply_migration run ddl m db0"; cases "fst (apply_migration run ddl m db0)")
      (simp_all add: RunMigrations_def foreach_append)
qed

lemma tx_exec_all_refused:
  assumes "mg_faults db = []" and "run_all run stmts (mg_catalog db) = None"
  shows "\<not> fst (tx_exec_all run ddl stmts saved db)"
  using assms
proof (induction stmts arbitrary: db saved)
  case (Cons s ss)
  show ?case
  proof (cases "run s (mg_catalog db)")
    case None
    then show ?thesis using Cons.prems(1) by (simp add: mig_exec_no_fault Let_def)
  next
    case (Some c)
    then show ?thesis using Cons.IH [of "db\<lparr>mg_catalog := c\<rparr>"] Cons.prems by (simp add: mig_exec_no_fault Let_def)
  qed
qed simp

text \<open>A migration that went through on a working server has run its statements and added its row.\<close>

lemma apply_migration_done:
  assumes nf: "mg_faults db = []" and some: "mg_applied db \<noteq> None" and new: "Version m \<notin> fst ` set (applied_rows db)"
    and a: "apply_migration run ddl m db = (Inr (), db')"
  obtains c where "run_all run (splitSQL (UpSQL m)) (mg_catalog db) = Some c"
    and "db' = db\<lparr>mg_catalog := c, mg_applied := Some (applied_rows db @ [(Version m, mg_Name m)])\<rparr>"
proof -
  let ?s = "Some (mg_catalog db, mg_applied db)"
  have n: "\<not> list_ex (\<lambda>row. fst row = Version m) (applied_rows db)" using new by (simp add: version_listed)
  have t: "mig_tx run ddl (Version m) (splitSQL (UpSQL m)) RecordMigration (record_row (Version m) (mg_Name m)) db = (Inr (), db')"
    using a isMigrationApplied_no_fault [OF nf some] n by (simp add: apply_migration_def)
  show ?thesis
  proof (cases "run_all run (splitSQL (UpSQL m)) (mg_catalog db)")
    case None
    obtain ok sv db2 where x: "tx_exec_all run ddl (splitSQL (UpSQL m)) ?s db = (ok, sv, db2)" by (metis prod_cases3)
    have "\<not> ok" using tx_exec_all_refused [OF nf None, of ddl ?s] x by simp
    then show ?thesis using t nf x by (simp add: mig_tx_def mig_exec_no_fault)
  next
    case (Some c)
    then show ?thesis
      using that [OF Some] t nf n tx_exec_all_ok [OF nf Some, of ddl "[]" ?s]
      by (auto simp: mig_tx_def mig_exec_no_fault record_row_def applied_rows_def mig_commit_def next_mig_fault_def split: if_splits)
  qed
qed

section \<open>One migration down\<close>

lemma rollback_first_skips:
  assumes "mg_faults db = []" and "mg_applied db \<noteq> None" and "\<forall>m' \<in> set ms. Version m' \<notin> fst ` set (applied_rows db)"
  shows "rollback_first run ddl (ms @ rest) db = rollback_first run ddl rest db"
  using assms(3)
proof (induction ms)
  case (Cons m ms)
  then show ?case using isMigrationApplied_no_fault [OF assms(1,2)] by (simp add: version_listed)
qed simp

lemma rollback_first_takes:
  assumes nf: "mg_faults db = []" and rows: "mg_applied db = Some (rows @ [(Version m, mg_Name m)])"
    and new: "Version m \<notin> fst ` set rows" and down: "run_all run (splitSQL (DownSQL m)) (mg_catalog db) = Some c"
  shows "rollback_first run ddl (m # ms) db = (Inr (), db\<lparr>mg_catalog := c, mg_applied := Some rows\<rparr>)"
proof -
  have a: "isMigrationApplied (Version m) db = (Some True, db)"
    using isMigrationApplied_no_fault [OF nf] rows by (simp add: applied_rows_def)
  have "filter (\<lambda>row. fst row \<noteq> Version m) rows = rows"
    using new by (force simp: filter_id_conv)
  then show ?thesis
    using a nf rows tx_exec_all_ok [OF nf down, of ddl "[]" "Some (mg_catalog db, mg_applied db)"]
    by (simp add: mig_tx_def mig_exec_no_fault delete_row_def applied_rows_def mig_commit_def next_mig_fault_def)
qed

text \<open>Sorting by descending version turns a list of ascending versions around.\<close>

lemma slice_sort_rev:
  assumes "slice_sort_ok srt" and "sorted_wrt (<) (map Version ms)"
  shows "srt (\<lambda>m. - Version m) ms = rev ms"
proof -
  let ?k = "\<lambda>m. - Version m" and ?s = "srt (\<lambda>m. - Version m) ms"
  have s: "mset ?s = mset ms" "sorted (map ?k ?s)" using assms(1) unfolding slice_sort_ok_def by blast+
  have "sorted_wrt (\<lambda>x y. Version x < Version y) ms" using assms(2) by (simp add: sorted_wrt_map)
  then have "sorted (map ?k (rev ms))"
    by (simp add: sorted_wrt_map sorted_wrt_rev) (erule sorted_wrt_mono_rel [rotated], simp)
  moreover have "mset (map ?k ?s) = mset (map ?k (rev ms))" using s(1) by simp
  ultimately have eq: "map ?k ?s = map ?k (rev ms)" using s(2) by (metis properties_for_sort)
  have "inj_on ?k (set ?s \<union> set (rev ms))"
  proof -
    have "distinct (map Version ms)" using assms(2) strict_sorted_iff by blast
    moreover have "set ?s = set ms" by (rule mset_eq_setD [OF s(1)])
    ultimately show ?thesis by (auto simp: distinct_map inj_on_def)
  qed
  then show ?thesis using eq map_inj_on by blast
qed

lemma RollbackMigration_takes:
  assumes "slice_sort_ok srt" and "sorted_wrt (<) (map Version (ms @ m # rest))" and nf: "mg_faults db = []"
    and rows: "mg_applied db = Some (rows @ [(Version m, mg_Name m)])" and new: "Version m \<notin> fst ` set rows"
    and above: "\<forall>m' \<in> set rest. Version m' \<notin> fst ` set rows"
    and down: "run_all run (splitSQL (DownSQL m)) (mg_catalog db) = Some c"
  shows "RollbackMigration srt run ddl (ms @ m # rest) db = (Inr (), db\<lparr>mg_catalog := c, mg_applied := Some rows\<rparr>)"
proof -
  have "createMigrationsTable db = (True, db)" using nf rows by (simp add: createMigrationsTable_def mig_exec_no_fault)
  moreover have "\<forall>m' \<in> set rest. Version m < Version m'" using assms(2) by (auto simp: sorted_wrt_append)
  then have "\<forall>m' \<in> set (rev rest). Version m' \<notin> fst ` set (applied_rows db)"
    using above rows by (auto simp: applied_rows_def)
  then have "rollback_first run ddl (rev rest @ m # rev ms) db = rollback_first run ddl (m # rev ms) db"
    using nf rows by (intro rollback_first_skips) simp_all
  ultimately show ?thesis
    unfolding RollbackMigration_def slice_sort_rev [OF assms(1,2)]
    using rollback_first_takes [OF nf rows new down] by simp
qed

section \<open>Rolling back is running backwards\<close>

text \<open>A migration whose down script undoes its up script, on every catalog on which the up script runs.\<close>

definition reversible :: "(string \<Rightarrow> 'c \<Rightarrow> 'c option) \<Rightarrow> migration \<Rightarrow> bool" where
  "reversible run m \<longleftrightarrow>
     (\<forall>c c'. run_all run (splitSQL (UpSQL m)) c = Some c' \<longrightarrow> run_all run (splitSQL (DownSQL m)) c' = Some c)"

lemma migration_and_back:
  assumes "slice_sort_ok srt" and "sorted_wrt (<) (map Version (ms @ m # rest))" and nf: "mg_faults db = []"
    and some: "mg_applied db \<noteq> None" and new: "\<forall>m' \<in> set (m # rest). Version m' \<notin> fst ` set (applied_rows db)"
    and a: "apply_migration run ddl m db = (Inr (), db')" and "reversible run m"
  shows "RollbackMigration srt run ddl (ms @ m # rest) db' = (Inr (), db)"
proof -
  have n: "Version m \<notin> fst ` set (applied_rows db)" using new by simp
  obtain c where up: "run_all run (splitSQL (UpSQL m)) (mg_catalog db) = Some c"
    and db': "db' = db\<lparr>mg_catalog := c, mg_applied := Some (applied_rows db @ [(Version m, mg_Name m)])\<rparr>"
    by (rule apply_migration_done [OF nf some n a])
  have "run_all run (splitSQL (DownSQL m)) (mg_catalog db') = Some (mg_catalog db)"
    using assms(7) up unfolding reversible_def db' by simp
  then have "RollbackMigration srt run ddl (ms @ m # rest) db' =
      (Inr (), db'\<lparr>mg_catalog := mg_catalog db, mg_applied := Some (applied_rows db)\<rparr>)"
    using nf n new db' by (intro RollbackMigration_takes [OF assms(1,2)]) simp_all
  moreover have "db'\<lparr>mg_catalog := mg_catalog db, mg_applied := Some (applied_rows db)\<rparr> = db"
    using some db' by (cases db) (auto simp: applied_rows_def)
  ultimately show ?thesis by simp
qed

text \<open>The rows of a run are those from before and those of its migrations.\<close>

lemma RunMigrations_new_rows:
  assumes "RunMigrations run ddl ms db = (Inr (), db')" and "mg_faults db = []"
  shows "fst ` set (applied_rows db') \<subseteq> fst ` set (applied_rows db) \<union> Version ` set ms"
  using assms(1)
proof (induction ms arbitrary: db' rule: rev_induct)
  case Nil
  then show ?case using assms(2)
    by (auto simp: RunMigrations_def createMigrationsTable_def mig_exec_no_fault applied_rows_def split: option.splits)
next
  case (snoc m ms)
  obtain db0 where r: "RunMigrations run ddl ms db = (Inr (), db0)" and a: "apply_migration run ddl m db0 = (Inr (), db')"
    by (rule RunMigrations_snoc [OF snoc.prems])
  have nf: "mg_faults db0 = []" using RunMigrations_no_fault [OF assms(2), of run ddl ms] r by simp
  have some: "mg_applied db0 \<noteq> None" using RunMigrations_rows [OF r] by simp
  show ?case
  proof (cases "Version m \<in> fst ` set (applied_rows db0)")
    case True
    then have "db' = db0"
      using a isMigrationApplied_no_fault [OF nf some, of "Version m"] by (simp add: apply_migration_def version_listed)
    then show ?thesis using snoc.IH [OF r] by auto
  next
    case False
    obtain c where "db' = db0\<lparr>mg_catalog := c, mg_applied := Some (applied_rows db0 @ [(Version m, mg_Name m)])\<rparr>"
      by (rule apply_migration_done [OF nf some False a])
    then have "applied_rows db' = applied_rows db0 @ [(Version m, mg_Name m)]" by (simp add: applied_rows_def)
    then show ?thesis using snoc.IH [OF r] by auto
  qed
qed


text \<open>A server that keeps the list of its tables; \<open>D\<close> drops the last one, every other statement creates one.\<close>

definition table_run :: "string \<Rightarrow> string list \<Rightarrow> string list option" where
  "table_run stmt c = (if stmt = ''D'' then Some (butlast c) else Some (c @ [stmt]))"

definition table_migration :: "int \<Rightarrow> migration" where
  "table_migration v = \<lparr>Version = v, mg_Name = ''m'', UpSQL = ''C'', DownSQL = ''D''\<rparr>"

lemma table_scripts: "splitSQL ''C'' = [''C'']" "splitSQL ''D'' = [''D'']"
proof -
  have "split_on (CHR '';'') ''C'' = [''C'']" "split_on (CHR '';'') ''D'' = [''D'']"
    "split_on (CHR 0x0A) ''C'' = [''C'']" "split_on (CHR 0x0A) ''D'' = [''D'']" by code_simp+
  then show "splitSQL ''C'' = [''C'']" "splitSQL ''D'' = [''D'']" by (simp_all add: splitSQL_def sql_lines_def ascii_eval)
qed

lemma table_reversible: "reversible table_run (table_migration v)"
  by (simp add: reversible_def table_migration_def table_scripts table_run_def)

lemma table_apply:
  assumes "mg_faults db = []" and "mg_applied db = Some rows" and "v \<notin> fst ` set rows" and "0 < v" and "v < 2 ^ 31"
  shows "apply_migration table_run ddl (table_migration v) db =
    (Inr (), db\<lparr>mg_catalog := mg_catalog db @ [''C''], mg_applied := Some (rows @ [(v, ''m'')])\<rparr>)"
  using apply_migration_new [of db "table_migration v" table_run "mg_catalog db @ [''C'']" ddl] assms
  by (simp add: table_migration_def table_scripts table_run_def demo_name applied_rows_def)


end
