(* ===== verification/Testutil.thy ===== *)
theory Testutil
  imports Startup Rollback
begin

text \<open>
  \<open>internal/testutil\<close>: what the tests of the repository stand on. The fixtures are read from a
  \<open>filesystem\<close>, the test database is set up and torn down with the functions of \<open>Startup\<close> and \<open>Migrations\<close>, and a request
  is given the key of the helpers. The servers of \<open>httptest\<close> and the transport of \<open>net/http\<close> are parameters; \<open>t.Skip\<close>,
  \<open>t.Fatalf\<close> and the warnings of \<open>t.Logf\<close> are values.
\<close>

definition DefaultPSK :: string where
  "DefaultPSK = ''test-psk-for-unit-tests''"

definition MaxMessageBytes_default :: int where
  "MaxMessageBytes_default = 25 * 1024 * 1024"

section \<open>Fixtures\<close>

text \<open>
  \<open>caller\<close> is the file \<open>runtime.Caller(1)\<close> gives: that of the caller of \<open>fixturePath\<close>, which is \<open>fixture.go\<close> itself.
\<close>

datatype fixture_error = ResolveFixture | ReadFixture string | OpenFixture string

definition join_path :: "path \<Rightarrow> string list \<Rightarrow> path" where
  "join_path p elems = (fst p, clean_comps (fst p) (rev (snd p)) (concat (map (split_on slash) elems)))"

definition fixturePath :: "string option \<Rightarrow> string \<Rightarrow> fixture_error + path" where
  "fixturePath caller name =
     (case caller of None \<Rightarrow> Inl ResolveFixture
      | Some file \<Rightarrow>
          (let projectRoot = filepath_Dir (filepath_Dir (filepath_Dir (path_of file)))
           in Inr (join_path projectRoot [''testdata'', name])))"

definition LoadFixture :: "string option \<Rightarrow> string \<Rightarrow> filesystem \<Rightarrow> (fixture_error, string, filesystem) outcome" where
  "LoadFixture caller name fs =
     (case fixturePath caller name of
        Inl e \<Rightarrow> (Inl e, fs)
      | Inr p \<Rightarrow>
          (case os_ReadFile p fs of
             (None, fs1) \<Rightarrow> (Inl (ReadFixture name), fs1)
           | (Some bytes, fs1) \<Rightarrow> (Inr bytes, fs1)))"

text \<open>\<open>os.Open\<close>: a directory can be opened, reading from it fails.\<close>

definition os_Open :: "path \<Rightarrow> filesystem \<Rightarrow> reader option \<times> filesystem" where
  "os_Open p fs0 =
     (case next_fault fs0 of (f, fs) \<Rightarrow>
        (if f \<noteq> FNone then None
         else if is_dir p fs then Some \<lparr>rd_bytes = [], rd_err = Some ''is a directory''\<rparr>
         else (case fs_files fs p of None \<Rightarrow> None | Some bytes \<Rightarrow> Some \<lparr>rd_bytes = bytes, rd_err = None\<rparr>), fs))"

definition LoadFixtureReader :: "string option \<Rightarrow> string \<Rightarrow> filesystem \<Rightarrow> (fixture_error, reader, filesystem) outcome" where
  "LoadFixtureReader caller name fs =
     (case fixturePath caller name of
        Inl e \<Rightarrow> (Inl e, fs)
      | Inr p \<Rightarrow>
          (case os_Open p fs of
             (None, fs1) \<Rightarrow> (Inl (OpenFixture name), fs1)
           | (Some f, fs1) \<Rightarrow> (Inr f, fs1)))"

section \<open>The test database\<close>

definition test_database_url :: string where
  "test_database_url = ''TEST_DATABASE_URL''"

definition DBURL :: "environment \<Rightarrow> string" where
  "DBURL env = env test_database_url"

definition HasDB :: "environment \<Rightarrow> bool" where
  "HasDB env \<longleftrightarrow> DBURL env \<noteq> []"

text \<open>How \<open>SetupTestDB\<close> leaves the test: skipped, failed, or with a database.\<close>

datatype 'a test_setup = Skipped | Fatal migrate_error | Ready 'a

definition SetupTestDB :: "'c mysql \<Rightarrow> 'c sql_server \<Rightarrow> fsys \<Rightarrow> environment \<Rightarrow> 'c mig_db test_setup" where
  "SetupTestDB M S mfs env =
     (if DBURL env = [] then Skipped
      else (case Connect M (DBURL env) of
        Inl e \<Rightarrow> Fatal (ConnectErr e)
      | Inr database \<Rightarrow>
          (case LoadMigrations (ss_sort S) mfs of
             Inl e \<Rightarrow> Fatal (LoadErr e)
           | Inr migrations \<Rightarrow>
               (case RunMigrations (ss_run S) (ss_ddl S) migrations database of
                  (Inl e, db) \<Rightarrow> Fatal (RunErr e)
                | (Inr _, db) \<Rightarrow> Ready db))))"

text \<open>The warnings of \<open>TeardownTestDB\<close>, in the order of the log; \<open>close\<close> is what \<open>database.Close()\<close> returns.\<close>

datatype teardown_warning = LoadWarning load_error | RollbackWarning "mig_step \<times> int" | CloseWarning string

definition TeardownTestDB :: "'c sql_server \<Rightarrow> fsys \<Rightarrow> string option \<Rightarrow> 'c mig_db option \<Rightarrow>
    teardown_warning list \<times> 'c mig_db option" where
  "TeardownTestDB S mfs close database =
     (case database of None \<Rightarrow> ([], None)
      | Some db \<Rightarrow>
          (case LoadMigrations (ss_sort S) mfs of
             Inl e \<Rightarrow> ([LoadWarning e], Some db)
           | Inr migrations \<Rightarrow>
               (case RollbackMigration (ss_sort S) (ss_run S) (ss_ddl S) migrations db of
                  (res, db') \<Rightarrow>
                    ((case res of Inl e \<Rightarrow> [RollbackWarning e] | Inr _ \<Rightarrow> []) @
                     (case close of Some e \<Rightarrow> [CloseWarning e] | None \<Rightarrow> []), Some db'))))"

section \<open>Requests with the key of the helpers\<close>

text \<open>\<open>req.Header.Set\<close> on a request; header names are written as in the source.\<close>

definition set_request_header :: "string \<Rightarrow> string \<Rightarrow> request \<Rightarrow> request" where
  "set_request_header k v r = r\<lparr>rq_header := (rq_header r)(k := v)\<rparr>"

definition AuthRequest :: "request \<Rightarrow> string \<Rightarrow> request" where
  "AuthRequest req psk = (if psk \<noteq> [] then set_request_header ''X-PSK'' psk req else req)"

type_synonym 's transport = "request \<Rightarrow> 's \<Rightarrow> (string, response, 's) outcome"

text \<open>\<open>PSKTransport.RoundTrip\<close> over the default transport, which is also the client of \<open>NewPSKClient\<close>.\<close>

definition RoundTrip :: "'s transport \<Rightarrow> string \<Rightarrow> 's transport" where
  "RoundTrip default_transport psk req =
     default_transport (if psk \<noteq> [] then set_request_header ''X-PSK'' psk req else req)"

datatype psk_error = CreateRequest string | DoRequest string

definition DoPSKRequest :: "(string \<Rightarrow> string \<Rightarrow> string + request) \<Rightarrow> 's transport \<Rightarrow> string \<Rightarrow> string \<Rightarrow> string \<Rightarrow> 's \<Rightarrow>
    (psk_error, response, 's) outcome" where
  "DoPSKRequest new_request client_do meth url psk s =
     (case new_request meth url of
        Inl e \<Rightarrow> (Inl (CreateRequest e), s)
      | Inr req \<Rightarrow>
          (case client_do (AuthRequest req psk) s of
             (Inl e, s') \<Rightarrow> (Inl (DoRequest e), s')
           | (Inr resp, s') \<Rightarrow> (Inr resp, s')))"

section \<open>What the helpers give the tests\<close>

text \<open>The fixtures are those of the project \<open>fixture.go\<close> was compiled in, whatever file the test is in.\<close>

lemma fixturePath_project:
  assumes "path_of file = (b, dir @ [''internal'', ''testutil'', ''fixture.go''])" and "safe_comp name"
  shows "fixturePath (Some file) name = Inr (b, dir @ [''testdata'', name])"
proof -
  have t: "split_on slash ''testdata'' = [''testdata'']" by code_simp
  have n: "split_on slash name = [name]" using assms(2) by (simp add: safe_comp_def split_on_no_sep)
  have "safe_comp ''testdata''" by (simp add: safe_comp_def)
  then have "clean_comps b (rev dir) ([''testdata'', name]) = dir @ [''testdata'', name]"
    using clean_comps_safe [of "[''testdata'', name]" b "rev dir"] assms(2) by simp
  then have "join_path (b, dir) [''testdata'', name] = (b, dir @ [''testdata'', name])"
    by (simp only: join_path_def fst_conv snd_conv list.map concat.simps t n append_Cons append_Nil)
  then show ?thesis by (simp add: fixturePath_def assms(1) filepath_Dir_def butlast_append Let_def)
qed

lemma LoadFixture_reads:
  assumes "fixturePath caller name = Inr p" and "fs_faults fs = []" and "fs_files fs p = Some bytes"
  shows "LoadFixture caller name fs = (Inr bytes, fs)"
  using assms by (simp add: LoadFixture_def os_ReadFile_def next_fault_def)

text \<open>Both ways of loading a fixture agree on files.\<close>

lemma LoadFixture_reader_agrees:
  assumes "fixturePath caller name = Inr p" and "\<not> is_dir p fs"
  shows "LoadFixture caller name fs = (Inr bytes, fs1) \<longleftrightarrow>
    LoadFixtureReader caller name fs = (Inr \<lparr>rd_bytes = bytes, rd_err = None\<rparr>, fs1)"
  using assms
  by (auto simp: LoadFixture_def LoadFixtureReader_def os_ReadFile_def os_Open_def next_fault_def is_dir_def
      split: option.splits prod.splits list.splits if_splits)

lemma SetupTestDB_skips: "SetupTestDB M S mfs env = Skipped \<longleftrightarrow> \<not> HasDB env"
  by (auto simp: SetupTestDB_def HasDB_def split: sum.splits prod.splits)

text \<open>Setting up is \<open>Migrate\<close> on the database of the environment.\<close>

lemma SetupTestDB_Migrate:
  "SetupTestDB M S mfs env = Ready db \<longleftrightarrow> HasDB env \<and> Migrate M S (DBURL env) mfs = (Inr (), Some db)"
  by (auto simp: SetupTestDB_def HasDB_def Migrate_def with_migrations_def split: sum.splits prod.splits)

text \<open>
  Tearing down takes back one migration, the last: the tables of all others stay in the test database.
\<close>

lemma setup_teardown:
  assumes "slice_sort_ok (ss_sort S)" and "HasDB env" and "Connect M (DBURL env) = Inr db" and "mg_faults db = []"
    and load: "LoadMigrations (ss_sort S) mfs = Inr (ms @ [m])" and "distinct (map Version (ms @ [m]))"
    and "RunMigrations (ss_run S) (ss_ddl S) ms db = (Inr (), db0)" and "Version m \<notin> fst ` set (applied_rows db0)"
    and "reversible (ss_run S) m" and ready: "SetupTestDB M S mfs env = Ready db1"
  shows "TeardownTestDB S mfs None (Some db1) = ([], Some db0)"
proof -
  have run: "RunMigrations (ss_run S) (ss_ddl S) (ms @ [m]) db = (Inr (), db1)"
    using ready assms(2,3) load by (auto simp: SetupTestDB_def HasDB_def split: prod.splits sum.splits)
  obtain dbj where j: "RunMigrations (ss_run S) (ss_ddl S) ms db = (Inr (), dbj)" "apply_migration (ss_run S) (ss_ddl S) m dbj = (Inr (), db1)"
    by (rule RunMigrations_snoc [OF run])
  have up: "apply_migration (ss_run S) (ss_ddl S) m db0 = (Inr (), db1)" using j assms(7) by simp
  have sorted: "sorted_wrt (<) (map Version (ms @ m # []))"
    using LoadMigrations_Inr [OF load assms(1)] assms(6) strict_sorted_iff by blast
  have nf: "mg_faults db0 = []" using RunMigrations_no_fault [OF assms(4), of "ss_run S" "ss_ddl S" ms] assms(7) by simp
  have some: "mg_applied db0 \<noteq> None" using RunMigrations_rows [OF assms(7)] by simp
  have "RollbackMigration (ss_sort S) (ss_run S) (ss_ddl S) (ms @ [m]) db1 = (Inr (), db0)"
    by (rule migration_and_back [OF assms(1) sorted nf some _ up assms(9)]) (use assms(8) in simp)
  then show ?thesis using load by (simp add: TeardownTestDB_def)
qed

text \<open>A handler that answers as if a header was not there.\<close>

definition ignores_header :: "string \<Rightarrow> 's handler \<Rightarrow> bool" where
  "ignores_header k h \<longleftrightarrow> (\<forall>v r w st. h (set_request_header k v r) w st = h r w st)"

lemma ignoresI: "(\<And>v r w st. h (set_request_header k v r) w st = h r w st) \<Longrightarrow> ignores_header k h"
  by (simp add: ignores_header_def)

lemma ignoresD [simp]: "ignores_header k h \<Longrightarrow> h (set_request_header k v r) w st = h r w st"
  by (simp add: ignores_header_def)

lemma set_request_header_sel [simp]:
  "rq_method (set_request_header k v r) = rq_method r" "rq_path (set_request_header k v r) = rq_path r"
  "rq_body (set_request_header k v r) = rq_body r" "rq_cookies (set_request_header k v r) = rq_cookies r"
  "rq_query (set_request_header k v r) = rq_query r" "rq_param (set_request_header k v r) = rq_param r"
  "rq_remote_addr (set_request_header k v r) = rq_remote_addr r"
  "rq_content_length (set_request_header k v r) = rq_content_length r"
  "k \<noteq> n \<Longrightarrow> rq_header (set_request_header k v r) n = rq_header r n"
  "(set_request_header k v r)\<lparr>rq_param := ps\<rparr> = set_request_header k v (r\<lparr>rq_param := ps\<rparr>)"
  "(set_request_header k v r)\<lparr>rq_body := b\<rparr> = set_request_header k v (r\<lparr>rq_body := b\<rparr>)"
  "(set_request_header k v r)\<lparr>rq_request_id := q\<rparr> = set_request_header k v (r\<lparr>rq_request_id := q\<rparr>)"
  by (simp_all add: set_request_header_def)

named_theorems ignores_intros

lemma ignores_ServeHTTP [ignores_intros]: "k \<noteq> ingestPSKHeader \<Longrightarrow> ignores_header k (ServeHTTP E h clk)"
  by (rule ignoresI) (simp add: ServeHTTP_def ingest_authorized_def cong: option.case_cong)

lemma ignores_sessions [ignores_intros]:
  "ignores_header k (LoginHandler E create c now rnd)" "ignores_header k (LogoutHandler delete c)"
  by (rule ignoresI, simp add: LoginHandler_def LogoutHandler_def)+

lemma ignores_reads [ignores_intros]:
  "ignores_header k (GetMessage E s)" "ignores_header k (GetRawMIME E base s)" "ignores_header k (GetAttachment E base s)" "ignores_header k (ListMessages E Q s)"
  by (rule ignoresI, simp add: GetMessage_def GetRawMIME_def GetAttachment_def ListMessages_def numericURLParam_def
      numericURLParamAllowZero_def list_page_def list_per_page_def cong: option.case_cong)+

lemma ignores_pages [ignores_intros]: "ignores_header k healthHandler" "ignores_header k (spaHandler index)"
  by (rule ignoresI, simp add: healthHandler_def spaHandler_def)+

lemma ignores_lifts [ignores_intros]:
  "ignores_header k h1 \<Longrightarrow> ignores_header k (on_world h1)" "ignores_header k h2 \<Longrightarrow> ignores_header k (on_sessions h2)"
  "ignores_header k h3 \<Longrightarrow> ignores_header k (on_ingest_limit h3)" "ignores_header k h3 \<Longrightarrow> ignores_header k (on_login_limit h3)"
  by (rule ignoresI, simp add: on_world_def on_sessions_def on_ingest_limit_def on_login_limit_def)+

lemma ignores_authed [ignores_intros]: "(\<And>s. ignores_header k (h s)) \<Longrightarrow> ignores_header k (authed cfg now h)"
  by (rule ignoresI) (simp add: authed_def RequireAuth_def on_world_def split: option.split sum.split)

lemma ignores_RateLimit [ignores_intros]: "ignores_header k h \<Longrightarrow> k \<noteq> ''X-Forwarded-For'' \<Longrightarrow> ignores_header k (RateLimit now h)"
  by (rule ignoresI) (simp add: RateLimit_def getClientIP_def Let_def split: prod.split)

lemma ignores_MaxBodySize [ignores_intros]: "ignores_header k h \<Longrightarrow> ignores_header k (MaxBodySize n h)"
  by (rule ignoresI) (simp add: MaxBodySize_def)

lemma ignores_dispatch [ignores_intros]: "list_all (\<lambda>(m, pattern, h). ignores_header k h) rs \<Longrightarrow> ignores_header k (dispatch rt rs seen)"
proof (rule ignoresI)
  fix v r w st assume "list_all (\<lambda>(m, pattern, h). ignores_header k h) rs"
  then show "dispatch rt rs seen (set_request_header k v r) w st = dispatch rt rs seen r w st"
    by (induction rt rs seen r w st rule: dispatch.induct) (auto split: option.split)
qed

lemma ignores_route:
  assumes "ignores_header k static" and "k \<noteq> ingestPSKHeader" and "k \<noteq> ''X-Forwarded-For''"
  shows "ignores_header k (route rt E Q index static cfg env)"
proof -
  have "ignores_header k (ingest_group rt E cfg env)" "ignores_header k (login_group rt E cfg env)"
    unfolding ingest_group_def login_group_def using assms by (intro ignores_intros; simp add: ignores_intros)+
  moreover have "ignores_header k (dispatch rt (routes E Q index static cfg env) False)"
    using assms by (intro ignores_intros) (simp add: routes_def ignores_intros)
  ultimately show ?thesis by (simp add: ignores_header_def route_def)
qed

text \<open>The header of the helpers opens nothing: the whole server answers as it does without it.\<close>

lemma AuthRequest_not_read:
  assumes "ignores_header ''X-PSK'' static"
  shows "serve rt E Q index static cfg env (AuthRequest r psk) st = serve rt E Q index static cfg env r st"
proof -
  have "ignores_header ''X-PSK'' (route rt E Q index static cfg env)"
    using assms by (rule ignores_route) (simp_all add: ingestPSKHeader_def)
  then show ?thesis
    by (simp add: AuthRequest_def serve_def RequestID_def SecurityHeaders_def RequestLogging_def CORS_def Let_def)
qed

lemma RoundTrip_AuthRequest: "RoundTrip tr psk req = tr (AuthRequest req psk)"
  by (simp add: RoundTrip_def AuthRequest_def)

lemma DoPSKRequest_serve:
  assumes "ignores_header ''X-PSK'' static"
  shows "DoPSKRequest new_request (\<lambda>r s. apfst Inr (serve rt E Q index static cfg env r s)) meth url psk st =
     (case new_request meth url of Inl e \<Rightarrow> (Inl (CreateRequest e), st)
      | Inr r \<Rightarrow> apfst Inr (serve rt E Q index static cfg env r st))"
proof (cases "new_request meth url")
  case (Inr r)
  obtain res st' where "serve rt E Q index static cfg env r st = (res, st')" by (metis prod.exhaust)
  then show ?thesis using Inr by (simp add: DoPSKRequest_def AuthRequest_not_read [OF assms])
qed (simp add: DoPSKRequest_def)

end
