(* ===== verification/Sql_Script.thy ===== *)
theory Sql_Script
  imports Rollback
begin

text \<open>
  What \<open>splitSQL\<close> of \<open>internal/db/migrate.go\<close> makes of the scripts this repository has: statements over several lines,
  with lines of comment and empty lines before and between them. The definitions are those of \<open>Migrations\<close>.
\<close>

abbreviation newline :: char where
  "newline \<equiv> CHR 0x0A"

text \<open>A line the splitter drops.\<close>

definition comment_line :: "string \<Rightarrow> bool" where
  "comment_line l \<longleftrightarrow> trim_space l = [] \<or> has_prefix (trim_space l) ''--''"

definition plain_line :: "string \<Rightarrow> bool" where
  "plain_line l \<longleftrightarrow> CHR '';'' \<notin> set l \<and> newline \<notin> set l"

text \<open>A block is the lines up to a semicolon at the end of a line; its statement is what is left without the comments.\<close>

definition statement :: "string list \<Rightarrow> string" where
  "statement ls = join_with [newline] (filter (\<lambda>l. \<not> comment_line l) ls)"

definition block_ok :: "string list \<Rightarrow> bool" where
  "block_ok ls \<longleftrightarrow> list_all plain_line ls \<and> clean_stmt (statement ls)"

definition script :: "string list list \<Rightarrow> string list \<Rightarrow> string" where
  "script blocks rest = concat (map (\<lambda>ls. join_with [newline] ls @ '';'' @ [newline]) blocks) @ join_with [newline] rest"

lemma sql_lines_block:
  assumes "list_all plain_line ls"
  shows "sql_lines (join_with [newline] ls) = map trim_space (filter (\<lambda>l. \<not> comment_line l) ls)"
proof (cases "ls = []")
  case True
  then show ?thesis by (simp add: sql_lines_def)
next
  case False
  then have "split_on newline (join_with [newline] ls) = ls"
    using assms by (intro split_join) (simp_all add: plain_line_def list_all_iff)
  then show ?thesis by (simp add: sql_lines_def filter_map comp_def comment_line_def disj_commute)
qed

lemma block_statement:
  assumes "block_ok ls"
  shows "trim_space (join_with [newline] (sql_lines (join_with [newline] ls))) = statement ls" and "statement ls \<noteq> []"
proof -
  let ?cs = "filter (\<lambda>l. \<not> comment_line l) ls"
  have lines: "list_all plain_line ls" and c: "clean_stmt (join_with [newline] ?cs)"
    using assms by (simp_all add: block_ok_def statement_def)
  then have ne: "?cs \<noteq> []" by (auto simp: clean_stmt_def)
  have sp: "split_on newline (join_with [newline] ?cs) = ?cs"
    using lines ne by (intro split_join) (auto simp: plain_line_def list_all_iff)
  then have "map trim_space ?cs = ?cs"
    using c by (intro map_idI) (simp add: clean_stmt_def list_all_iff)
  then have "sql_lines (join_with [newline] ls) = ?cs" by (simp add: sql_lines_block [OF lines])
  then show "trim_space (join_with [newline] (sql_lines (join_with [newline] ls))) = statement ls" "statement ls \<noteq> []"
    using c by (simp_all add: statement_def clean_stmt_def)
qed

lemma join_plain: "list_all plain_line ls \<Longrightarrow> CHR '';'' \<notin> set (join_with [newline] ls)"
  using set_join_with [of "[newline]" ls] by (auto simp: plain_line_def list_all_iff)

lemma split_rest:
  assumes "list_all plain_line rest" and "list_all comment_line rest"
  shows "splitSQL (join_with [newline] rest) = []" and "splitSQL (newline # join_with [newline] rest) = []"
proof -
  have c: "\<forall>l \<in> set rest. comment_line l" using assms(2) by (simp add: list_all_iff)
  have "split_on (CHR '';'') (join_with [newline] rest) = [join_with [newline] rest]"
    "split_on (CHR '';'') (newline # join_with [newline] rest) = [newline # join_with [newline] rest]"
    using join_plain [OF assms(1)] by (intro split_on_no_sep; simp)+
  moreover have "sql_lines (join_with [newline] rest) = []"
    using c by (simp add: sql_lines_block [OF assms(1)])
  ultimately show "splitSQL (join_with [newline] rest) = []" "splitSQL (newline # join_with [newline] rest) = []"
    by (simp_all add: splitSQL_def sql_lines_newline)
qed

section \<open>Properties\<close>


text \<open>The script \<open>001_create_mailbox_tables.down.sql\<close>.\<close>

definition down_001_blocks :: "string list list" where
  "down_001_blocks =
     [[''-- Rollback mailbox tables for lite-mail'', ''-- Down migration: 001_create_mailbox_tables'', [],
       ''ALTER TABLE messages DROP INDEX ft_messages_search''],
      [''DROP TABLE IF EXISTS ingest_events''],
      [''DROP TABLE IF EXISTS attachments''],
      [''DROP TABLE IF EXISTS message_recipients''],
      [''DROP TABLE IF EXISTS messages'']]"

definition down_001 :: "string list" where
  "down_001 =
     [''ALTER TABLE messages DROP INDEX ft_messages_search'', ''DROP TABLE IF EXISTS ingest_events'',
      ''DROP TABLE IF EXISTS attachments'', ''DROP TABLE IF EXISTS message_recipients'', ''DROP TABLE IF EXISTS messages'']"

lemma one_line:
  assumes "l \<noteq> []" and "CHR '';'' \<notin> set l" and "newline \<notin> set l" and "trim_space l = l" and "\<not> has_prefix l ''--''"
  shows "clean_stmt l"
proof -
  have "split_on newline l = [l]" using assms(3) by (rule split_on_no_sep)
  then show ?thesis using assms by (simp add: clean_stmt_def)
qed

lemma down_001_lines:
  "map statement down_001_blocks = down_001"
  by (simp add: down_001_blocks_def down_001_def statement_def comment_line_def ascii_eval)

lemma down_001_ok: "list_all block_ok down_001_blocks"
proof -
  have "list_all clean_stmt (map statement down_001_blocks)"
    unfolding down_001_lines by (simp add: down_001_def) (simp add: one_line ascii_eval)
  then have "\<forall>ls \<in> set down_001_blocks. clean_stmt (statement ls)" by (simp add: list_all_iff)
  moreover have "list_all (list_all plain_line) down_001_blocks" by (simp add: down_001_blocks_def plain_line_def)
  ultimately show ?thesis by (simp add: block_ok_def list_all_iff)
qed


text \<open>A semicolon in a line of comment ends the statement before it and lets the rest of the comment in.\<close>

lemma semicolon_in_comment:
  "splitSQL (''-- a; b'' @ [newline] @ ''X;'') = [''b'' @ [newline] @ ''X'']"
proof -
  have "split_on (CHR '';'') (''-- a; b'' @ [newline] @ ''X;'') = [''-- a'', '' b'' @ [newline] @ ''X'', []]"
    "split_on newline ''-- a'' = [''-- a'']" "split_on newline ('' b'' @ [newline] @ ''X'') = ['' b'', ''X'']"
    "split_on newline [] = [[]]" "trim_space '' b'' = ''b''"
    by code_simp+
  then show ?thesis by (simp add: splitSQL_def sql_lines_def ascii_eval)
qed

end
