(* ===== verification/Mime_Tree.thy ===== *)
theory Mime_Tree
  imports Parser
begin

text \<open>
  What \<open>ParseMIME\<close> of \<open>internal/ingest/parser.go\<close> makes of a message, said without its walk over a mutable
  \<open>ParsedMessage\<close>: the message is a tree of entities, and its bodies and attachments are read off the leaves of the tree
  in the order of the document. The definitions of the code are those of \<open>Parser\<close>.
\<close>

section \<open>The tree of a message\<close>

record mime_leaf =
  lf_header :: mime_header
  lf_body :: reader
  lf_type :: string

text \<open>A multipart entity has its parts, and the error its reader ended with; two more leaves are not well formed.\<close>

datatype mime_tree = Leaf mime_leaf | Multipart "mime_tree list" "string option" | NoBoundary | TooDeep

primrec tree_of :: "nat \<Rightarrow> ext \<Rightarrow> mime_header \<Rightarrow> reader \<Rightarrow> mime_tree" where
  "tree_of 0 E header body =
     (let mt = fst (mediaTypeOf E header)
      in if has_prefix mt ''multipart/'' then TooDeep
         else Leaf \<lparr>lf_header = header, lf_body = body, lf_type = mt\<rparr>)"
| "tree_of (Suc depth) E header body =
     (case mediaTypeOf E header of (mt, params) \<Rightarrow>
        if \<not> has_prefix mt ''multipart/'' then Leaf \<lparr>lf_header = header, lf_body = body, lf_type = mt\<rparr>
        else if params ''boundary'' = [] then NoBoundary
        else (case x_parts E (params ''boundary'') body of (parts, end) \<Rightarrow>
          Multipart (map (\<lambda>(h, b). tree_of depth E h b) parts) end))"

fun leaves :: "mime_tree \<Rightarrow> mime_leaf list" where
  "leaves (Leaf l) = [l]"
| "leaves (Multipart ts e) = concat (map leaves ts)"
| "leaves NoBoundary = []"
| "leaves TooDeep = []"

text \<open>The content of a leaf after its transfer encoding, and whether it could be read to its end.\<close>

definition leaf_content :: "ext \<Rightarrow> mime_leaf \<Rightarrow> string" where
  "leaf_content E l = rd_bytes (decodeContent E (lf_header l) (lf_body l))"

definition readable :: "ext \<Rightarrow> mime_leaf \<Rightarrow> bool" where
  "readable E l \<longleftrightarrow> rd_err (decodeContent E (lf_header l) (lf_body l)) = None"

fun sound :: "ext \<Rightarrow> mime_tree \<Rightarrow> bool" where
  "sound E (Leaf l) \<longleftrightarrow> readable E l"
| "sound E (Multipart ts e) \<longleftrightarrow> e = None \<and> (\<forall>t \<in> set ts. sound E t)"
| "sound E NoBoundary \<longleftrightarrow> False"
| "sound E TooDeep \<longleftrightarrow> False"

section \<open>Reading the leaves\<close>

definition leaf_param :: "ext \<Rightarrow> mime_leaf \<Rightarrow> string \<Rightarrow> string \<Rightarrow> string" where
  "leaf_param E l field name = media_params E (header_get (lf_header l) field) name"

definition leaf_filename :: "ext \<Rightarrow> mime_leaf \<Rightarrow> string" where
  "leaf_filename E l =
     decodeHeaderText E
       (if leaf_param E l ''Content-Disposition'' ''filename'' = [] then leaf_param E l ''Content-Type'' ''name''
        else leaf_param E l ''Content-Disposition'' ''filename'')"

definition is_attachment :: "ext \<Rightarrow> mime_leaf \<Rightarrow> bool" where
  "is_attachment E l \<longleftrightarrow> leaf_filename E l \<noteq> [] \<or>
     has_prefix (to_lower (x_lower E) (header_get (lf_header l) ''Content-Disposition'')) ''attachment''"

definition leaf_attachment :: "ext \<Rightarrow> mime_leaf \<Rightarrow> parsed_attachment" where
  "leaf_attachment E l =
     \<lparr>Content = leaf_content E l, MimeType = lf_type l, OriginalFilename = leaf_filename E l,
      Size = int (length (leaf_content E l)), AttachmentHash = HashBytes E (leaf_content E l)\<rparr>"

definition body_of :: "ext \<Rightarrow> string \<Rightarrow> mime_leaf list \<Rightarrow> string" where
  "body_of E mt ls =
     concat (map (\<lambda>l. decodeText E (leaf_content E l) (leaf_param E l ''Content-Type'' ''charset''))
       (filter (\<lambda>l. \<not> is_attachment E l \<and> lf_type l = mt) ls))"

definition attachments_of :: "ext \<Rightarrow> mime_leaf list \<Rightarrow> parsed_attachment list" where
  "attachments_of E ls = map (leaf_attachment E) (filter (is_attachment E) ls)"

definition with_leaves :: "ext \<Rightarrow> parsed_message \<Rightarrow> mime_leaf list \<Rightarrow> parsed_message" where
  "with_leaves E p ls =
     p\<lparr>TextBody := TextBody p @ body_of E ''text/plain'' ls, HTMLBody := HTMLBody p @ body_of E ''text/html'' ls,
       Attachments := Attachments p @ attachments_of E ls\<rparr>"

text \<open>The message that the leaves make: a message with no plain text gets the text of its HTML.\<close>

definition message_of :: "ext \<Rightarrow> parsed_message \<Rightarrow> mime_leaf list \<Rightarrow> parsed_message" where
  "message_of E headers ls =
     (let text = body_of E ''text/plain'' ls; html = body_of E ''text/html'' ls
      in headers\<lparr>TextBody := (if text = [] \<and> html \<noteq> [] then htmlToText E html else text), HTMLBody := html,
           Attachments := attachments_of E ls\<rparr>)"

section \<open>The walk reads the leaves\<close>

lemma with_leaves_append: "with_leaves E (with_leaves E p ls) ls' = with_leaves E p (ls @ ls')"
  by (simp add: with_leaves_def body_of_def attachments_of_def)

lemma with_leaves_Nil [simp]: "with_leaves E p [] = p"
  by (simp add: with_leaves_def body_of_def attachments_of_def)

lemma with_leaves_one:
  "with_leaves E p [l] =
     (let text = decodeText E (leaf_content E l) (leaf_param E l ''Content-Type'' ''charset'')
      in if is_attachment E l then p\<lparr>Attachments := Attachments p @ [leaf_attachment E l]\<rparr>
         else if lf_type l = ''text/plain'' then p\<lparr>TextBody := TextBody p @ text\<rparr>
         else if lf_type l = ''text/html'' then p\<lparr>HTMLBody := HTMLBody p @ text\<rparr> else p)"
  by (simp add: with_leaves_def body_of_def attachments_of_def Let_def)

lemma consumeLeaf_leaf:
  "if readable E l then consumeLeaf E (lf_header l) (lf_body l) (lf_type l) p = (Inr (), with_leaves E p [l])
   else \<exists>e. consumeLeaf E (lf_header l) (lf_body l) (lf_type l) p = (Inl e, p)"
proof (cases "rd_err (decodeContent E (lf_header l) (lf_body l))")
  case None
  have f: "leaf_filename E l = decodeHeaderText E
      (if media_params E (header_get (lf_header l) ''Content-Disposition'') ''filename'' = []
       then media_params E (header_get (lf_header l) ''Content-Type'') ''name''
       else media_params E (header_get (lf_header l) ''Content-Disposition'') ''filename'')"
    by (simp add: leaf_filename_def leaf_param_def)
  have "consumeLeaf E (lf_header l) (lf_body l) (lf_type l) p = (Inr (), with_leaves E p [l])"
    unfolding consumeLeaf_def read_all_def None prod.case option.case with_leaves_one Let_def f [symmetric] is_attachment_def [symmetric]
    by (simp only: leaf_attachment_def leaf_content_def leaf_param_def if_distrib [of "Pair (Inr ())"])
  then show ?thesis using None by (simp add: readable_def)
next
  case (Some e)
  then show ?thesis by (simp add: readable_def consumeLeaf_def read_all_def)
qed

text \<open>A step that reads the leaves \<open>ls\<close> when \<open>ok\<close>, and fails otherwise.\<close>

definition reads_leaves :: "ext \<Rightarrow> bool \<Rightarrow> mime_leaf list \<Rightarrow>
    (parsed_message \<Rightarrow> (parse_error, unit, parsed_message) outcome) \<Rightarrow> bool" where
  "reads_leaves E ok ls f \<longleftrightarrow>
     (\<forall>p. if ok then f p = (Inr (), with_leaves E p ls) else \<exists>e q. f p = (Inl e, q))"

lemma reads_leavesD:
  "reads_leaves E ok ls f \<Longrightarrow> ok \<Longrightarrow> f p = (Inr (), with_leaves E p ls)"
  "reads_leaves E ok ls f \<Longrightarrow> \<not> ok \<Longrightarrow> \<exists>e q. f p = (Inl e, q)"
  by (simp_all add: reads_leaves_def)

lemma reads_one_leaf:
  "reads_leaves E (readable E \<lparr>lf_header = h, lf_body = b, lf_type = mt\<rparr>) [\<lparr>lf_header = h, lf_body = b, lf_type = mt\<rparr>]
     (consumeLeaf E h b mt)"
  unfolding reads_leaves_def
proof
  fix p
  let ?l = "\<lparr>lf_header = h, lf_body = b, lf_type = mt\<rparr>"
  show "if readable E ?l then consumeLeaf E h b mt p = (Inr (), with_leaves E p [?l])
    else \<exists>e q. consumeLeaf E h b mt p = (Inl e, q)"
    using consumeLeaf_leaf [of E ?l p] by (cases "readable E ?l") auto
qed

lemma foreach_reads_leaves:
  assumes "\<And>x. x \<in> set xs \<Longrightarrow> reads_leaves E (sound E (tree x)) (leaves (tree x)) (f x)"
  shows "reads_leaves E (\<forall>x \<in> set xs. sound E (tree x)) (concat (map (\<lambda>x. leaves (tree x)) xs)) (foreach f xs)"
  using assms
proof (induction xs)
  case Nil
  then show ?case by (simp add: reads_leaves_def)
next
  case (Cons x xs)
  have x: "reads_leaves E (sound E (tree x)) (leaves (tree x)) (f x)" using Cons.prems by simp
  show ?case
    unfolding reads_leaves_def
  proof
    fix p
    show "if \<forall>y \<in> set (x # xs). sound E (tree y)
      then foreach f (x # xs) p = (Inr (), with_leaves E p (concat (map (\<lambda>y. leaves (tree y)) (x # xs))))
      else \<exists>e q. foreach f (x # xs) p = (Inl e, q)"
    proof (cases "sound E (tree x)")
      case True
      then have fx: "f x p = (Inr (), with_leaves E p (leaves (tree x)))" using x by (simp add: reads_leaves_def)
      have "reads_leaves E (\<forall>y \<in> set xs. sound E (tree y)) (concat (map (\<lambda>y. leaves (tree y)) xs)) (foreach f xs)"
        using Cons.IH Cons.prems by simp
      then show ?thesis using True by (simp add: fx reads_leaves_def with_leaves_append)
    next
      case False
      from reads_leavesD(2) [OF x False] obtain e q where "f x p = (Inl e, q)" by blast
      then show ?thesis using False by simp
    qed
  qed
qed

lemma parsePart_reads_leaves:
  assumes "has_prefix (fst (mediaTypeOf E h)) ''multipart/'' \<Longrightarrow> reads_leaves E (sound E t) (leaves t) (entity h b)"
    and "\<not> has_prefix (fst (mediaTypeOf E h)) ''multipart/'' \<Longrightarrow> t = Leaf \<lparr>lf_header = h, lf_body = b, lf_type = fst (mediaTypeOf E h)\<rparr>"
  shows "reads_leaves E (sound E t) (leaves t) (parsePart E entity h b)"
proof (cases "has_prefix (fst (mediaTypeOf E h)) ''multipart/''")
  case True
  then show ?thesis using assms(1) by (simp add: parsePart_def reads_leaves_def)
next
  case False
  then have "parsePart E entity h b = consumeLeaf E h b (fst (mediaTypeOf E h))" by (simp add: parsePart_def fun_eq_iff)
  then show ?thesis using assms(2) [OF False] reads_one_leaf by simp
qed

lemma tree_of_leaf:
  "\<not> has_prefix (fst (mediaTypeOf E h)) ''multipart/'' \<Longrightarrow>
   tree_of depth E h b = Leaf \<lparr>lf_header = h, lf_body = b, lf_type = fst (mediaTypeOf E h)\<rparr>"
  by (cases depth; cases "mediaTypeOf E h") simp_all

text \<open>On a leaf \<open>parseEntity\<close> does what \<open>parsePart\<close> does; below a multipart entity it is the loop over the parts.\<close>

lemma parseEntity_reads_leaves:
  assumes "has_prefix (fst (mediaTypeOf E h)) ''multipart/'' \<or> 0 < fuel"
  shows "reads_leaves E (sound E (tree_of fuel E h b)) (leaves (tree_of fuel E h b)) (parseEntity fuel E h b)"
  using assms
proof (induction fuel arbitrary: h b)
  case 0
  then show ?case by (simp add: reads_leaves_def)
next
  case (Suc fuel)
  obtain mt params where mt: "mediaTypeOf E h = (mt, params)" by fastforce
  show ?case
  proof (cases "has_prefix mt ''multipart/'' \<and> params ''boundary'' \<noteq> []")
    case True
    obtain parts e where xp: "x_parts E (params ''boundary'') b = (parts, e)" by fastforce
    let ?tree = "\<lambda>(h, b). tree_of fuel E h b" and ?f = "\<lambda>(h, b). parsePart E (parseEntity fuel E) h b"
    have "reads_leaves E (sound E (?tree x)) (leaves (?tree x)) (?f x)" for x
      using Suc.IH tree_of_leaf by (cases x) (auto intro!: parsePart_reads_leaves)
    then have r: "reads_leaves E (\<forall>x \<in> set parts. sound E (?tree x)) (concat (map (\<lambda>x. leaves (?tree x)) parts)) (foreach ?f parts)"
      by (rule foreach_reads_leaves)
    have t: "tree_of (Suc fuel) E h b = Multipart (map ?tree parts) e" using True by (simp add: mt xp)
    have pe: "parseEntity (Suc fuel) E h b p = andthen (foreach ?f parts p)
        (\<lambda>_ q. case e of None \<Rightarrow> (Inr (), q) | Some x \<Rightarrow> (Inl (ParseFailed (''read MIME part: '' @ x)), q))" for p
      using True by (simp add: mt xp)
    show ?thesis
      unfolding reads_leaves_def t pe
    proof
      fix p
      show "if sound E (Multipart (map ?tree parts) e)
        then andthen (foreach ?f parts p) (\<lambda>_ q. case e of None \<Rightarrow> (Inr (), q)
            | Some x \<Rightarrow> (Inl (ParseFailed (''read MIME part: '' @ x)), q)) =
          (Inr (), with_leaves E p (leaves (Multipart (map ?tree parts) e)))
        else \<exists>e' q. andthen (foreach ?f parts p) (\<lambda>_ q. case e of None \<Rightarrow> (Inr (), q)
            | Some x \<Rightarrow> (Inl (ParseFailed (''read MIME part: '' @ x)), q)) = (Inl e', q)"
      proof (cases "\<forall>x \<in> set parts. sound E (?tree x)")
        case True
        then have "foreach ?f parts p = (Inr (), with_leaves E p (concat (map (\<lambda>x. leaves (?tree x)) parts)))"
          using r by (simp add: reads_leaves_def)
        then show ?thesis using True by (cases e) (simp_all add: comp_def)
      next
        case False
        from reads_leavesD(2) [OF r False] obtain e' q where "foreach ?f parts p = (Inl e', q)" by blast
        then show ?thesis using False by simp
      qed
    qed
  next
    case False
    then show ?thesis using reads_one_leaf [of E h b mt] by (auto simp: mt reads_leaves_def)
  qed
qed

section \<open>Properties\<close>

text \<open>
  Property C7: a message is its leaves. The parse of a message succeeds exactly when its header can be read, every
  multipart entity in it has a boundary and ends without an error, and every leaf can be decoded. Then the
  result has the headers; the plain text is the text of all \<open>text/plain\<close> leaves one after the other,
  the HTML that of all \<open>text/html\<close> leaves, and the attachments are the leaves with a file name or the
  disposition \<open>attachment\<close>, all in the order of the document, however deep they are. If there is no plain
  text, that of the HTML is taken.
\<close>

theorem message_is_its_leaves:
  "ParseMIME E raw = (Inr (), p) \<longleftrightarrow>
   (\<exists>header body. x_read_message E raw = Inr (header, body) \<and>
      (let t = tree_of (parse_fuel raw) E header \<lparr>rd_bytes = body, rd_err = None\<rparr>
       in sound E t \<and> p = message_of E (parsed_headers E raw header) (leaves t)))"
proof (cases "x_read_message E raw")
  case (Inl e)
  then show ?thesis by (simp add: ParseMIME_def)
next
  case (Inr hb)
  obtain h b where hb: "hb = (h, b)" by fastforce
  let ?b = "\<lparr>rd_bytes = b, rd_err = None\<rparr>" and ?p = "parsed_headers E raw h"
  let ?t = "tree_of (parse_fuel raw) E h ?b"
  have r: "reads_leaves E (sound E ?t) (leaves ?t) (parseEntity (parse_fuel raw) E h ?b)"
    by (rule parseEntity_reads_leaves) (simp add: parse_fuel_def)
  have m: "message_of E ?p ls = (let q = with_leaves E ?p ls in
      if TextBody q = [] \<and> HTMLBody q \<noteq> [] then q\<lparr>TextBody := htmlToText E (HTMLBody q)\<rparr> else q)" for ls
    by (simp add: message_of_def with_leaves_def Let_def parsed_headers_def zero_parsed_def)
  show ?thesis
  proof (cases "sound E ?t")
    case True
    then have "parseEntity (parse_fuel raw) E h ?b ?p = (Inr (), with_leaves E ?p (leaves ?t))"
      using r by (simp add: reads_leaves_def)
    then show ?thesis using True by (auto simp: ParseMIME_def Inr hb m Let_def)
  next
    case False
    from reads_leavesD(2) [OF r False] obtain e q where "parseEntity (parse_fuel raw) E h ?b ?p = (Inl e, q)" by blast
    then show ?thesis using False by (simp add: ParseMIME_def Inr hb Let_def)
  qed
qed

end
