(* ===== verification/Contexts.thy ===== *)
theory Contexts
  imports Server
begin

text \<open>
  What travels with a request: \<open>context.Context\<close> with the keys of three packages, and the response recorder of the
  request log. The models of the middlewares hand these values to the handlers directly, in \<open>rq_request_id\<close>
  and as the session argument; the lemmas here show that this is what the contexts give.
\<close>

section \<open>Contexts\<close>

text \<open>The key types are private to their packages, so two keys are equal only if they are of one type.\<close>

datatype context_key = contextKeyRequestID | requestIDKey | sessionContextKey

datatype context_value = StringValue string | SessionValue "session option"

type_synonym ctx = "(context_key \<times> context_value) list"

definition with_value :: "context_key \<Rightarrow> context_value \<Rightarrow> ctx \<Rightarrow> ctx" where
  "with_value k v c = (k, v) # c"

definition ctx_value :: "context_key \<Rightarrow> ctx \<Rightarrow> context_value option" where
  "ctx_value k c = map_of c k"

text \<open>A type assertion to \<open>string\<close> or \<open>*Session\<close> that does not hold gives the zero value.\<close>

definition as_string :: "context_value option \<Rightarrow> string" where
  "as_string v = (case v of Some (StringValue s) \<Rightarrow> s | _ \<Rightarrow> [])"

definition WithSession :: "session option \<Rightarrow> ctx \<Rightarrow> ctx" where
  "WithSession s = with_value sessionContextKey (SessionValue s)"

definition SessionFromContext :: "ctx \<Rightarrow> session option" where
  "SessionFromContext c = (case ctx_value sessionContextKey c of Some (SessionValue s) \<Rightarrow> s | _ \<Rightarrow> None)"

text \<open>\<open>api.WithRequestID\<close>, and what the middleware \<open>RequestID\<close> puts into the context.\<close>

definition WithRequestID :: "string \<Rightarrow> ctx \<Rightarrow> ctx" where
  "WithRequestID i = with_value requestIDKey (StringValue i)"

definition with_mw_request_id :: "string \<Rightarrow> ctx \<Rightarrow> ctx" where
  "with_mw_request_id i = with_value contextKeyRequestID (StringValue i)"

definition api_request_id :: "ctx \<Rightarrow> string" where
  "api_request_id c = as_string (ctx_value requestIDKey c)"

definition mw_request_id :: "ctx \<Rightarrow> string" where
  "mw_request_id c = as_string (ctx_value contextKeyRequestID c)"

lemma ctx_value_with [simp]: "ctx_value k (with_value k' v c) = (if k = k' then Some v else ctx_value k c)"
  by (simp add: ctx_value_def with_value_def)

text \<open>A pair of functions that writes and reads one value of a context: what is written is read, and nobody else writes it.\<close>

locale context_slot =
  fixes put :: "'v \<Rightarrow> ctx \<Rightarrow> ctx" and get :: "ctx \<Rightarrow> 'v" and key :: context_key
  assumes get_put: "get (put v c) = v"
    and get_other: "k \<noteq> key \<Longrightarrow> get (with_value k v' c) = get c"
begin

lemma kept: "list_all (\<lambda>(k, v). k \<noteq> key) ks \<Longrightarrow> get (foldr (\<lambda>(k, v). with_value k v) ks (put v c)) = v"
  by (induction ks) (auto simp: get_put get_other)

end

interpretation sess: context_slot WithSession SessionFromContext sessionContextKey
  by standard (auto simp: WithSession_def SessionFromContext_def)

interpretation api_id: context_slot WithRequestID api_request_id requestIDKey
  by standard (auto simp: WithRequestID_def api_request_id_def as_string_def)

interpretation mw_id: context_slot with_mw_request_id mw_request_id contextKeyRequestID
  by standard (auto simp: with_mw_request_id_def mw_request_id_def as_string_def)

text \<open>The context a protected handler is called with, after \<open>RequestID\<close> and \<open>RequireAuth\<close>.\<close>

definition handler_context :: "request \<Rightarrow> session option \<Rightarrow> ctx \<Rightarrow> ctx" where
  "handler_context r s c =
     WithSession s (case rq_request_id r of None \<Rightarrow> c | Some i \<Rightarrow> with_mw_request_id i c)"

lemma handler_context_reads:
  assumes "ctx_value contextKeyRequestID c = None"
  shows "SessionFromContext (handler_context r s c) = s"
    and "mw_request_id (handler_context r s c) = GetRequestIDFromContext r"
    and "api_request_id (handler_context r s c) = api_request_id c"
proof -
  show "SessionFromContext (handler_context r s c) = s" by (simp add: handler_context_def sess.get_put)
  show "mw_request_id (handler_context r s c) = GetRequestIDFromContext r"
    using assms
    by (auto simp: handler_context_def GetRequestIDFromContext_def WithSession_def mw_id.get_other mw_id.get_put split: option.split)
      (simp add: mw_request_id_def as_string_def)
  show "api_request_id (handler_context r s c) = api_request_id c"
    by (auto simp: handler_context_def WithSession_def with_mw_request_id_def api_id.get_other split: option.split)
qed

text \<open>
  So \<open>api.RequestIDFromContext\<close>, which reads the key of its own package, never sees the id that the middleware has
  given to the request.
\<close>

lemma api_request_id_lost:
  "rq_request_id r = Some i \<Longrightarrow> api_request_id (handler_context r s []) = RequestIDFromContext None \<and>
   mw_request_id (handler_context r s []) = i"
  using handler_context_reads(2,3) [of "[]" r s]
  by (simp add: ctx_value_def GetRequestIDFromContext_def api_request_id_def as_string_def RequestIDFromContext_def)

section \<open>The recorder of the request log\<close>

text \<open>
  \<open>responseRecorder\<close>: the status it will log, and the one that the writer below it has sent. \<open>net/http\<close> sends
  the first status and ignores the others; the recorder keeps the last.
\<close>

record response_recorder =
  rr_status :: int
  rr_sent :: "int option"

definition new_recorder :: response_recorder where
  "new_recorder = \<lparr>rr_status = 200, rr_sent = None\<rparr>"

definition WriteHeader :: "int \<Rightarrow> response_recorder \<Rightarrow> response_recorder" where
  "WriteHeader status r =
     r\<lparr>rr_status := status, rr_sent := (case rr_sent r of None \<Rightarrow> Some status | Some s \<Rightarrow> Some s)\<rparr>"

text \<open>The status the client sees: a body without a status sends 200.\<close>

definition sent_status :: "response_recorder \<Rightarrow> int" where
  "sent_status r = (case rr_sent r of None \<Rightarrow> 200 | Some s \<Rightarrow> s)"

lemma recorder_run:
  "fold WriteHeader sts (\<lparr>rr_status = st, rr_sent = Some s\<rparr>) = \<lparr>rr_status = last (st # sts), rr_sent = Some s\<rparr>"
  by (induction sts arbitrary: st) (simp_all add: WriteHeader_def)

text \<open>The log has the status of the response exactly when the last status written is the first one; a handler of the server writes one.\<close>

lemma recorder_status:
  "rr_status (fold WriteHeader sts new_recorder) = sent_status (fold WriteHeader sts new_recorder) \<longleftrightarrow>
   sts = [] \<or> hd sts = last sts"
proof (cases sts)
  case (Cons s rest)
  have "WriteHeader s new_recorder = \<lparr>rr_status = s, rr_sent = Some s\<rparr>" by (simp add: WriteHeader_def new_recorder_def)
  then have "fold WriteHeader sts new_recorder = \<lparr>rr_status = last sts, rr_sent = Some s\<rparr>"
    using recorder_run [of rest s s] Cons by simp
  then show ?thesis using Cons by (auto simp: sent_status_def)
qed (simp add: new_recorder_def sent_status_def)

lemma one_status_logged: "rr_status (WriteHeader s new_recorder) = s \<and> sent_status (WriteHeader s new_recorder) = s"
  by (simp add: WriteHeader_def new_recorder_def sent_status_def)

end
