(* ===== verification/Spec2Isabelle.thy ===== *)
theory Spec2Isabelle
  imports Operation Session_Race Testutil Sql_Script Mime_Tree Contexts
begin

text \<open>
  lite-mail is a mailbox server in Go. A Cloudflare worker delivers each mail by \<open>POST /api/ingest\<close>; the server
  parses it, keeps the raw bytes and the attachments on disk and the rest in MariaDB, and shows it
  through a JSON API to users who log in with a shared key. This development models the server as
  executable definitions and proves what its parts promise.

  The parts and their theories, in the order in which they call each other:

  \<^item> \<open>Prelude\<close>: results with a state (\<open>('e, 'a, 's) outcome\<close>, \<open>andthen\<close>, \<open>foreach\<close>), bytes, the lemma collections
    \<open>inv_intros\<close> and others. \<open>Go_Strings\<close>, \<open>Go_Numbers\<close>, \<open>Go_Float\<close>: what the code uses of Go's standard library:
    UTF-8 decoding and encoding, \<open>strings.TrimSpace\<close>, \<open>ToLower\<close>, \<open>Split\<close>; \<open>strconv\<close> on \<open>int64\<close>; \<open>float64\<close> addition,
    multiplication and division as rational operations rounded to nearest even.
  \<^item> \<open>Http\<close>: requests, response writers, readers with their errors, \<open>http.Error\<close>, cookies. A handler is a function
    \<open>request \<Rightarrow> writer \<Rightarrow> 's \<Rightarrow> response \<times> 's\<close>.
  \<^item> \<open>Externals\<close>: the code the server calls and does not contain, the record \<open>ext\<close> of functions that every
    definition above them takes as an argument: \<open>net/mail\<close>, \<open>mime\<close>, charsets, \<open>html2text\<close>, SHA-256, JSON decoding of
    the login, the collation of the database. What a theorem needs of them is a named predicate:
    \<open>sha256_ok\<close> (32 bytes), \<open>collate_ok\<close> (different hexadecimal strings differ), \<open>unicode_lower_ok\<close>,
    \<open>html2text_ok\<close>, \<open>parts_shrink\<close>.
  \<^item> \<open>Config\<close>: \<open>internal/config\<close>. \<open>Session\<close> and \<open>Auth\<close>: \<open>internal/auth\<close>. The interface \<open>SessionStore\<close> is the locale
    \<open>session_store\<close>, interpreted on \<open>CookieSessionStore\<close> (\<open>css\<close>) and on the state of the whole server (\<open>aps\<close>).
    \<open>Session_Race\<close>: the same store among goroutines, the steps of \<open>RequireAuth\<close> as a step relation; \<open>drawing_store\<close>
    extends the contract by the source of the tokens (\<open>cds\<close>, \<open>ads\<close>).
  \<^item> \<open>Storage\<close>: \<open>internal/storage\<close> on a file system with directories, files and a queue of faults; a write may
    fail half-way. The locale \<open>blob_store\<close> is the contract of a store of blobs; raw messages (first write
    wins) and attachments (last write wins) are its interpretations \<open>raw\<close> and \<open>att\<close>.
  \<^item> \<open>Database\<close>: the four tables of \<open>internal/db/migrations\<close> with the constraints an \<open>INSERT\<close> of the code can meet, ids
    that are never given twice, transactions, and statements that fail before or after their effect.
  \<^item> \<open>Parser\<close>: \<open>internal/ingest/parser.go\<close> and the fallback parser of \<open>handler.go\<close>. \<open>Mime_Tree\<close>: the specification of
    the parser, a message as the tree of its entities.
  \<^item> \<open>Ingest\<close>: \<open>internal/ingest/handler.go\<close>: the checks, the duplicate check, the raw file, the transaction, and the
    step relation \<open>ingest_step\<close> of requests that interleave.
  \<^item> \<open>Messages_API\<close>: \<open>internal/api\<close>. A SQL text is the function of the tables it denotes.
  \<^item> \<open>Rate_Limit\<close> and \<open>Middleware\<close>: \<open>internal/middleware\<close>. \<open>Rate_Race\<close>: the rate limiter among goroutines, the map, the
    mutex of a bucket and the clean-up loop as a step relation.
  \<^item> \<open>Migrations\<close>: \<open>internal/db/migrate.go\<close>; \<open>Rollback\<close>: what a rollback takes back; \<open>Sql_Script\<close>: what a script means
    and what \<open>splitSQL\<close> makes of it. \<open>Server\<close>: \<open>internal/server\<close>, the routing table with its middlewares.
    \<open>Contexts\<close>: the values that travel in \<open>context.Context\<close>, with the locale \<open>context_slot\<close> of a value that is written
    and read (\<open>sess\<close>, \<open>api_id\<close>, \<open>mw_id\<close>), and the response recorder of the log.
    \<open>Startup\<close>: \<open>cmd/server/main.go\<close>, from the environment to the end of the process. \<open>Operation\<close>: a started server
    and any sequence of requests; the locale \<open>server_invariant\<close> says what a predicate on the state has to survive to
    hold for ever, and the mailbox, the sessions and the limiters are its interpretations \<open>mbs\<close>, \<open>ses\<close>, \<open>lim\<close>.
  \<^item> \<open>Delivery\<close> and this theory: the lemmas and properties that span components. \<open>Isolation\<close>: users do not learn
    of each other's mail. \<open>Mailbox\<close>: the abstract mailbox, a list of mails, that the server refines; the locale
    \<open>refinement_map\<close> is interpreted on the interleaved deliveries (\<open>srv\<close>).
  \<^item> \<open>Testutil\<close>: \<open>internal/testutil\<close>, what the tests of the repository stand on.

  What the groups of lemmas show. \<open>Ingest\<close>: \<open>persist\<close> refines \<open>add_mail\<close>, the specification of a stored message, or
  leaves the tables as they are; \<open>world_inv\<close> ties rows to files and holds after every step of every
  interleaving under any faults; from it follow storing at most once, retrying, the duplicate answer and
  the integrity of attachments and raw files. \<open>Messages_API\<close>: who reads what, pages, canonical ids, safe file
  names. \<open>Auth\<close>: a session comes from a login, lives until its lifetime is over or a logout; \<open>Session_Race\<close>:
  a logout is final under every interleaving. \<open>Parser\<close>: text is
  UTF-8, the recursion ends. \<open>Rate_Limit\<close>: bounds on what a client gets through, exactly in \<open>float64\<close>;
  \<open>Rate_Race\<close>: the same under interleaving, with the price of every call that is overtaken, and that the
  sequential limiter is the case in which none is. \<open>Mailbox\<close>: tables and files are at every moment a mailbox that
  deliveries have built (\<open>deliver_step\<close>, the square of the refinement), a delivery is answered in the step at
  which the answer is true (\<open>saved_step\<close>), and each read handler answers what the abstract operation answers. \<open>Migrations\<close>: splitting, idempotence, and what a failure leaves;
  \<open>Rollback\<close>: rolling back is running backwards. \<open>Testutil\<close>: which fixtures the tests read, what a torn down test
  database still has, and that the key header of the helpers is read by nobody. \<open>Server\<close>: headers of every response, body
  limits, and that a request without a session learns nothing of the mailbox. \<open>Isolation\<close>: the answers to a
  session are a function of the mail it may read, and deliveries to others do not change them. \<open>Startup\<close>: what a
  started server has, and when a signal ends it. \<open>Mime_Tree\<close>: the parsed message is that of the leaves of the tree, in
  their order, and parsing fails exactly where the tree is not sound. \<open>Sql_Script\<close>: a script whose semicolons stand at
  the ends of its statements is split into these, and one in a comment breaks it. \<open>Operation\<close>: what holds after the
  start holds after every request, one after the other (interleaved deliveries are \<open>Ingest\<close>, interleaved calls of the
  limiter \<open>Rate_Race\<close>). \<open>Contexts\<close>: the handlers get from the context what the models hand them, and the id of a
  request is lost for \<open>api.RequestIDFromContext\<close>.

  Some theorems state flaws, where the code does what its authors cannot have meant:
  \<open>repeated_attachment_refused\<close>, \<open>truncated_raw_kept\<close>, \<open>rate_limit_starvation\<close>, \<open>forwarded_for_bypass\<close>,
  \<open>migration_half_applied\<close>, \<open>setup_teardown\<close>, a part of \<open>storage_keys\<close>, of \<open>body_limit_answers\<close> and of \<open>signal_shutdown\<close>.

  Bounds. Integers of the source are \<open>int\<close> with \<open>wrap64\<close> where they can overflow. The only fuel is that of
  \<open>parseEntity\<close>, one more than the length of the message (\<open>parse_fuel\<close>); \<open>parse_total\<close> shows that it is enough when
  the parts of a multipart body are shorter than it, which \<open>parts_shrink\<close> says of the MIME reader.

  Time is an argument: \<open>now\<close> in nanoseconds, and the \<open>clock\<close> of a delivery gives the \<open>k\<close>-th call of \<open>time.Now\<close>.

  Not modelled: the text of log lines other than the request log; the columns \<open>created_at\<close> and \<open>updated_at\<close>, the
  range of \<open>DATETIME\<close>, and \<open>DELETE CASCADE\<close> (no code deletes mail); which rows a full-text search finds
  and the order of messages that arrived in the same second (parameters, record \<open>engine\<close>); the router
  \<open>chi\<close> beyond the first fitting route (record \<open>router\<close>); the static file server; the network; the bytes of a
  JSON response (a response carries a value of type \<open>json\<close>); the constructors of \<open>internal/testutil\<close> that only wrap
  \<open>net/http\<close>. The worker and the web client are other programs, and the tests are not part of the server.
\<close>

section \<open>Properties\<close>


text \<open>A configuration with a limit, the first delivery, and a login of its recipient.\<close>

definition mail_config :: config where
  "mail_config = demo_config\<lparr>MaxMessageBytes := 100\<rparr>"

lemma mail_deps: "ingest_deps mail_config = demo_handler"
  by (simp add: ingest_deps_def mail_config_def demo_handler_def demo_config_def)

lemma mail_delivered:
  "ServeHTTP plain_ext demo_handler demo_clock (delivery ''worker-key'' ''hello'') fresh_writer (new_world [] []) = first_mail ''hello''"
  by (simp add: ServeHTTP_def limit_reader_def read_all_def in_int64_iff first_mail_def)

lemma mail_answer: "rs_body (fst (first_mail ''hello'')) = Json (JObj [(''message_id'', JInt 1), (''status'', JStr ''accepted'')])"
proof -
  have a: "\<forall>c \<in> set ''hello''. byte c < 128" by (simp add: byte_def)
  have nk: "\<not> known_hash plain_ext (HashBytes plain_ext ''hello'') (db_tables (wd_db (new_world [] [])))"
    by (simp add: known_hash_def empty_tables_def)
  have pf: "parse_or_fallback plain_ext demo_clock ''hello'' = (plain_message ''hello'', ''success'', None)"
    using plain_parse_or_fallback valid_utf8_ascii [OF a] by blast
  have fits: "mail_fits plain_ext demo_clock (plain_message ''hello'') ''success'' None (wd_db (new_world [] []))"
    using plain_fits [OF a, of "empty_database []"] by (simp add: empty_database_def empty_tables_def int64_max_def)
  have "db_next_message (empty_database []) = 1" by (simp add: empty_database_def)
  then show ?thesis
    using ingest_raw_accepts [OF _ _ new_world_inv plain_ext_ok(1) pf fits nk, of "''data''" fresh_writer]
    by (auto simp: first_mail_def empty_fs_ok)
qed

lemma mail_keys:
  "login_session latin1_lower mail_config ''user-key'' ''Alice@example.org'' =
     Some \<lparr>s_email = ''alice@example.org'', s_admin = False, s_expires = 0, s_token = []\<rparr>"
  by (simp add: login_session_iff demo_lower) (simp add: mail_config_def demo_config_def zero_config_def)

lemma plain_login_json: "x_login_json plain_ext r = Some (rd_bytes r, ''Alice@example.org'')"
  by (simp add: plain_ext_def)

definition mail_login :: "response \<times> app" where
  "mail_login = on_sessions (LoginHandler plain_ext store_Create (Some mail_config) 0 demo_random) (demo_login ''user-key'')
     fresh_writer (demo_app (snd (first_mail ''hello'')))"

lemma mail_cookie_name: "is_token (sessionCookieName (Some mail_config))"
proof -
  have "sessionCookieName (Some mail_config) = sessionCookieName (Some demo_config)"
    by (simp add: sessionCookieName_def mail_config_def)
  then show ?thesis using demo_cookie_name by (simp only:)
qed

lemma mail_login_result:
  "rs_status (fst mail_login) = 200"
  "ck_value (last (w_cookies (rs_writer (fst mail_login)))) = demo_token"
  using mail_cookie_name by (simp_all add: mail_login_def on_sessions_def LoginHandler_def demo_login_def mail_keys demo_create plain_ext_sel plain_login_json NewSessionCookie_def)


text \<open>
  Property C29: whose mail it is. The address a user types at the login and the addresses in the header of a
  mail are brought to the same form: once the mail is stored, the user sees it exactly when it could
  be parsed and an address in \<open>To\<close>, \<open>Cc\<close> or \<open>Bcc\<close> is, up to case, surrounding space and the collation of the
  database, the one he typed. A mail that could not be parsed has no recipients, so only an
  administrator sees it.
\<close>

theorem addresses_agree:
  assumes "login_session (x_lower E) c psk address = Some s" and "psk \<noteq> AdminPSK c"
    and "db_inv E db" and "sha256_ok E" and "parse_or_fallback E clk raw = (p, pst, err)"
  shows "may_read E (add_mail clk p pst err db) s (db_next_message db) \<longleftrightarrow>
    pst = ''success'' \<and>
    (\<exists>h body. x_read_message E raw = Inr (h, body) \<and>
      (\<exists>name \<in> {''To'', ''Cc'', ''Bcc''}. \<exists>v \<in> set (h name). \<exists>as. x_address_list E v = Inr as \<and>
        (\<exists>a \<in> set as. canonicalEmail E a \<noteq> [] \<and> same_text E (canonicalEmail E a) (canonicalEmail E address))))"
proof -
  have s: "s_email s = canonicalEmail E address" "\<not> s_admin s" using login_session_user [OF assms(1,2)] by simp_all
  have "may_read E (add_mail clk p pst err db) s (db_next_message db) \<longleftrightarrow>
      (\<exists>rcp \<in> set (Recipients p). same_text E (Email rcp) (canonicalEmail E address))"
    using add_mail_recipients [OF assms(3)] s by (simp add: may_read_def)
  then show ?thesis
    by (simp only: parsed_recipients [OF assms(5,4), of "\<lambda>e. same_text E e (canonicalEmail E address)"])
qed

lemma plain_read_message: "x_read_message plain_ext raw = Inr (\<lambda>name. if name = ''To'' then [''Alice@example.org''] else [], raw)"
  "x_address_list plain_ext v = Inr [v]"
  by (simp_all add: plain_ext_def)

theorem addresses_agree_witness:
  "may_read plain_ext (add_mail demo_clock (plain_message ''hello'') ''success'' None (empty_database []))
     \<lparr>s_email = ''alice@example.org'', s_admin = False, s_expires = 0, s_token = []\<rparr> 1"
proof -
  have a: "\<forall>c \<in> set ''hello''. byte c < 128" by (simp add: byte_def)
  have pf: "parse_or_fallback plain_ext demo_clock ''hello'' = (plain_message ''hello'', ''success'', None)"
    using plain_parse_or_fallback valid_utf8_ascii [OF a] by blast
  have l: "login_session (x_lower plain_ext) mail_config ''user-key'' ''Alice@example.org'' =
      Some \<lparr>s_email = ''alice@example.org'', s_admin = False, s_expires = 0, s_token = []\<rparr>"
    using mail_keys by (simp add: plain_ext_sel)
  have k: "''user-key'' \<noteq> AdminPSK mail_config" by (simp add: mail_config_def demo_config_def zero_config_def)
  have c: "canonicalEmail plain_ext ''Alice@example.org'' = ''alice@example.org''"
    using demo_lower by (simp add: canonicalEmail_def plain_ext_sel)
  have n: "db_next_message (empty_database []) = 1" by (simp add: empty_database_def)
  show ?thesis
    using addresses_agree [OF l k empty_database_inv plain_ext_ok(1) pf, of "[]"] unfolding n
    by (simp add: plain_read_message c same_text_def)
qed

end
